(* ===== verification/Prelude.thy ===== *)
theory Prelude
  imports Main "HOL-Library.AList" "HOL-Library.Word" "HOL-Library.Multiset"
    "HOL-Library.Product_Lexorder" "HOL-Library.List_Lexorder" "HOL-Library.Char_ord"
begin

text \<open>
  Shared ground of the development: the machine-integer types the Go sources use, Go maps as
  association lists with at most one entry per key, calls that return an error next to a changed
  state, and the generic lemmas on those the components rely on.

  A Go map is a list of key-value pairs: \<open>map_of\<close> reads it, \<open>AList.update\<close> writes it and
  \<open>AList.delete\<close> removes a key, which are the three things a Go program can do to a map beside
  ranging over it. Ranging over a map is ranging over the list; Go leaves the order open, so a
  result that depended on it would not be a result of the program.
\<close>

unbundle bit_operations_syntax

type_synonym u8 = "8 word"
type_synonym u16 = "16 word"
type_synonym u32 = "32 word"
type_synonym u64 = "64 word"
type_synonym u128 = "128 word"

type_synonym ('k, 'v) gomap = "('k \<times> 'v) list"

text \<open>The facts that unfold the error plumbing and the Go map operations.\<close>

named_theorems go_simps
named_theorems gomap_simps

declare update_conv' [gomap_simps] delete_conv' [gomap_simps]

section \<open>Go maps\<close>

abbreviation gomap_wf :: "('k, 'v) gomap \<Rightarrow> bool" where
  "gomap_wf m \<equiv> distinct (map fst m)"

lemma gomap_wf_update [simp, intro]: "gomap_wf m \<Longrightarrow> gomap_wf (AList.update k v m)"
  by (rule distinct_update)

lemma gomap_wf_delete [simp, intro]: "gomap_wf m \<Longrightarrow> gomap_wf (AList.delete k m)"
  by (rule distinct_delete)

lemma gomap_wf_filter [simp, intro]: "gomap_wf m \<Longrightarrow> gomap_wf (filter P m)"
  by (induction m) auto

lemma map_of_filter_fst:
  "map_of (filter (\<lambda>e. P (fst e)) m) k = (if P k then map_of m k else None)"
  by (induction m) auto

lemma gomap_entry_iff: "gomap_wf m \<Longrightarrow> (k, v) \<in> set m \<longleftrightarrow> map_of m k = Some v"
  by (simp add: map_of_eq_Some_iff)

lemma dom_map_of_update: "dom (map_of (AList.update k v m)) = insert k (dom (map_of m))"
  by (simp add: update_conv')

lemma dom_map_of_delete: "dom (map_of (AList.delete k m)) = dom (map_of m) - {k}"
  by (auto simp: delete_conv')

lemma gomap_keys: "fst ` set m = dom (map_of m)"
  by (simp add: dom_map_of_conv_image_fst)

section \<open>Calls that may fail\<close>

text \<open>
  A call against the outside world (an API server, a kernel map) turns the world into a result and
  a new world; \<open>Inl\<close> is Go's non-nil error. \<open>api_bind\<close> is the \<open>if err != nil { return err }\<close>
  between two calls.
\<close>

type_synonym ('s, 'e, 'a) api = "'s \<Rightarrow> ('e + 'a) \<times> 's"

definition api_return :: "'a \<Rightarrow> ('s, 'e, 'a) api" where
  "api_return x = (\<lambda>s. (Inr x, s))"

definition api_throw :: "'e \<Rightarrow> ('s, 'e, 'a) api" where
  "api_throw e = (\<lambda>s. (Inl e, s))"

definition api_bind :: "('s, 'e, 'a) api \<Rightarrow> ('a \<Rightarrow> ('s, 'e, 'b) api) \<Rightarrow> ('s, 'e, 'b) api" where
  "api_bind m f = (\<lambda>s. case m s of (Inl e, s') \<Rightarrow> (Inl e, s') | (Inr x, s') \<Rightarrow> f x s')"

text \<open>\<open>api_try\<close> hands the error to the caller instead of returning it.\<close>

definition api_try :: "('s, 'e, 'a) api \<Rightarrow> ('s, 'f, 'e + 'a) api" where
  "api_try m = (\<lambda>s. case m s of (r, s') \<Rightarrow> (Inr r, s'))"

text \<open>
  What holds after a call: \<open>Q\<close> of the result when it succeeds, \<open>E\<close> of the error when it fails.
\<close>

definition api_valid ::
  "('s \<Rightarrow> bool) \<Rightarrow> ('s, 'e, 'a) api \<Rightarrow> ('a \<Rightarrow> 's \<Rightarrow> bool) \<Rightarrow> ('e \<Rightarrow> 's \<Rightarrow> bool) \<Rightarrow> bool" where
  "api_valid P m Q E \<longleftrightarrow>
     (\<forall>s. P s \<longrightarrow> (case m s of (Inl e, s') \<Rightarrow> E e s' | (Inr x, s') \<Rightarrow> Q x s'))"

lemma api_return_simp [simp]: "api_return x s = (Inr x, s)"
  by (simp add: api_return_def)

lemma api_throw_simp [simp]: "api_throw e s = (Inl e, s)"
  by (simp add: api_throw_def)

lemma api_bind_Inl: "m s = (Inl e, s') \<Longrightarrow> api_bind m f s = (Inl e, s')"
  by (simp add: api_bind_def)

lemma api_bind_Inr: "m s = (Inr x, s') \<Longrightarrow> api_bind m f s = f x s'"
  by (simp add: api_bind_def)

lemmas api_bind_simps [go_simps] = api_bind_Inl api_bind_Inr

lemma api_validI:
  assumes "\<And>s e s'. P s \<Longrightarrow> m s = (Inl e, s') \<Longrightarrow> E e s'"
    and "\<And>s x s'. P s \<Longrightarrow> m s = (Inr x, s') \<Longrightarrow> Q x s'"
  shows "api_valid P m Q E"
  using assms by (auto simp: api_valid_def split: prod.splits sum.splits)

lemma api_validE_Inr:
  "api_valid P m Q E \<Longrightarrow> P s \<Longrightarrow> m s = (Inr x, s') \<Longrightarrow> Q x s'"
  by (fastforce simp: api_valid_def)

lemma api_validE_Inl:
  "api_valid P m Q E \<Longrightarrow> P s \<Longrightarrow> m s = (Inl e, s') \<Longrightarrow> E e s'"
  by (fastforce simp: api_valid_def)

lemma api_valid_return [intro]: "(\<And>s. P s \<Longrightarrow> Q x s) \<Longrightarrow> api_valid P (api_return x) Q E"
  by (simp add: api_valid_def)

lemma api_valid_throw [intro]: "(\<And>s. P s \<Longrightarrow> E e s) \<Longrightarrow> api_valid P (api_throw e) Q E"
  by (simp add: api_valid_def)

lemma api_valid_bind:
  assumes "api_valid P m R E" and "\<And>x. api_valid (R x) (f x) Q E"
  shows "api_valid P (api_bind m f) Q E"
  using assms unfolding api_valid_def api_bind_def
  by (fastforce split: prod.splits sum.splits)

lemma api_valid_try:
  assumes "api_valid P m (\<lambda>x. Q (Inr x)) (\<lambda>e. Q (Inl e))"
  shows "api_valid P (api_try m) Q E"
  using assms unfolding api_valid_def api_try_def
  by (fastforce split: prod.splits sum.splits)

lemma api_valid_weaken:
  assumes "api_valid P' m Q' E'" and "\<And>s. P s \<Longrightarrow> P' s"
    and "\<And>x s. Q' x s \<Longrightarrow> Q x s" and "\<And>e s. E' e s \<Longrightarrow> E e s"
  shows "api_valid P m Q E"
  using assms unfolding api_valid_def by (fastforce split: prod.splits sum.splits)

section \<open>Lists\<close>

lemma sorted_key_stable_filter:
  "filter (\<lambda>x. f x = k) (sort_key f xs) = filter (\<lambda>x. f x = k) xs"
  by (rule sort_key_stable)

lemma find_append: "List.find P (xs @ ys) = (case List.find P xs of None \<Rightarrow> List.find P ys | r \<Rightarrow> r)"
  by (induction xs) auto

end
