(* ===== verification/Bytes.thy ===== *)
theory Bytes
  imports Prelude
begin

text \<open>
  Byte slices and \<open>encoding/binary\<close>: a word as big-endian or little-endian bytes and back, with the
  bit-level characterisation the address and packet theories reason with.
\<close>

definition be_bytes :: "nat \<Rightarrow> 'a::len word \<Rightarrow> u8 list" where
  "be_bytes n w = map (\<lambda>i. ucast (drop_bit (8 * (n - 1 - i)) w)) [0..<n]"

definition be_word :: "u8 list \<Rightarrow> 'a::len word" where
  "be_word bs = foldl (\<lambda>acc b. push_bit 8 acc OR ucast b) 0 bs"

definition le_word :: "u8 list \<Rightarrow> 'a::len word" where
  "le_word bs = be_word (rev bs)"

definition le_bytes :: "nat \<Rightarrow> 'a::len word \<Rightarrow> u8 list" where
  "le_bytes n w = rev (be_bytes n w)"

lemma length_be_bytes [simp]: "length (be_bytes n w) = n"
  by (simp add: be_bytes_def)

lemma nth_be_bytes [simp]:
  "i < n \<Longrightarrow> be_bytes n w ! i = ucast (drop_bit (8 * (n - 1 - i)) w)"
  by (simp add: be_bytes_def)

lemma be_word_Nil [simp]: "be_word [] = 0"
  by (simp add: be_word_def)

lemma be_word_snoc [simp]: "be_word (bs @ [b]) = push_bit 8 (be_word bs) OR ucast b"
  by (simp add: be_word_def)

lemma bit_be_word:
  "bit (be_word bs :: 'a::len word) k \<longleftrightarrow>
     k < LENGTH('a) \<and> k < 8 * length bs \<and> bit (bs ! (length bs - 1 - k div 8)) (k mod 8)"
proof (induction bs arbitrary: k rule: rev_induct)
  case Nil
  then show ?case by simp
next
  case (snoc b bs)
  show ?case
  proof (cases "k < 8")
    case True
    then show ?thesis
      by (auto simp: bit_or_iff bit_push_bit_iff bit_ucast_iff nth_append dest: bit_imp_le_length)
  next
    case False
    then obtain m where m: "k = m + 8"
      by (metis add.commute le_iff_add not_less)
    have high: "\<not> bit (ucast b :: 'a word) (m + 8)"
      by (auto simp: bit_ucast_iff dest: bit_imp_le_length)
    have "bit (be_word (bs @ [b]) :: 'a word) (m + 8) \<longleftrightarrow>
        m + 8 < LENGTH('a) \<and> bit (be_word bs :: 'a word) m"
      using high by (auto simp: bit_or_iff bit_push_bit_iff)
    also have "\<dots> \<longleftrightarrow> m + 8 < LENGTH('a) \<and> m < 8 * length bs
        \<and> bit (bs ! (length bs - 1 - m div 8)) (m mod 8)"
      unfolding snoc.IH by auto
    also have "\<dots> \<longleftrightarrow> m + 8 < LENGTH('a) \<and> m < 8 * length bs
        \<and> bit ((bs @ [b]) ! (length bs - Suc (m div 8))) (m mod 8)"
      by (cases "bs = []") (auto simp: nth_append)
    finally show ?thesis by (simp add: m div_add_self2)
  qed
qed

lemma be_word_be_bytes [simp]:
  fixes w :: "'a::len word"
  assumes "LENGTH('a) \<le> 8 * n"
  shows "be_word (be_bytes n w) = w"
proof (rule bit_word_eqI)
  fix k
  assume k: "k < LENGTH('a)"
  then have "k < 8 * n" using assms by simp
  then have "k div 8 < n" by (simp add: less_mult_imp_div_less mult.commute)
  then have "n - 1 - k div 8 < n" and idx: "n - 1 - (n - 1 - k div 8) = k div 8" by auto
  then show "bit (be_word (be_bytes n w) :: 'a word) k = bit w k"
    using k \<open>k < 8 * n\<close>
    by (auto simp: bit_be_word bit_ucast_iff bit_drop_bit_eq idx)
qed

lemma be_bytes_be_word:
  assumes "length bs = n" and "8 * n \<le> LENGTH('a::len)"
  shows "be_bytes n (be_word bs :: 'a word) = bs"
proof (rule nth_equalityI)
  show "length (be_bytes n (be_word bs :: 'a word)) = length bs"
    using assms by simp
next
  fix i
  assume "i < length (be_bytes n (be_word bs :: 'a word))"
  then have i: "i < n" by simp
  show "be_bytes n (be_word bs :: 'a word) ! i = bs ! i"
  proof (rule bit_word_eqI)
    fix k
    assume k: "k < LENGTH(8)"
    have "8 * (n - 1 - i) + k < 8 * n" using i k by auto
    moreover have "(8 * (n - 1 - i) + k) div 8 = n - 1 - i" using k by simp
    moreover have "(8 * (n - 1 - i) + k) mod 8 = k" using k by simp
    moreover have "n - 1 - (n - 1 - i) = i" using i by simp
    ultimately show "bit (be_bytes n (be_word bs :: 'a word) ! i) k = bit (bs ! i) k"
      using i k assms
      by (simp add: bit_ucast_iff bit_drop_bit_eq bit_be_word)
  qed
qed

lemma le_word_le_bytes [simp]:
  fixes w :: "'a::len word"
  assumes "LENGTH('a) \<le> 8 * n"
  shows "le_word (le_bytes n w) = w"
  using assms by (simp add: le_word_def le_bytes_def)

lemma length_le_bytes [simp]: "length (le_bytes n w) = n"
  by (simp add: le_bytes_def)

lemma le_bytes_le_word:
  assumes "length bs = n" and "8 * n \<le> LENGTH('a::len)"
  shows "le_bytes n (le_word bs :: 'a word) = bs"
  using assms by (simp add: le_bytes_def le_word_def be_bytes_be_word)

lemma le_word_inject:
  assumes "length bs = n" "length cs = n" "8 * n \<le> LENGTH('a::len)"
    and "(le_word bs :: 'a word) = le_word cs"
  shows "bs = cs"
  using assms le_bytes_le_word[of bs n] le_bytes_le_word[of cs n] by metis

lemma be_word_inject:
  assumes "length bs = n" "length cs = n" "8 * n \<le> LENGTH('a::len)"
    and "(be_word bs :: 'a word) = be_word cs"
  shows "bs = cs"
  using assms be_bytes_be_word[of bs n] be_bytes_be_word[of cs n] by metis

end
