(* ===== verification/GoStrings.thy ===== *)
theory GoStrings
  imports Prelude
begin

text \<open>
  What the sources use of the package \<open>strings\<close> and of \<open>strconv\<close>. A Go string is a sequence of
  bytes, a HOL \<open>string\<close>. White space and letter case are those of ASCII: the names, addresses and
  annotations the code handles are ASCII by the API server's validation.
\<close>

section \<open>Splitting and joining\<close>

fun split_on :: "char \<Rightarrow> string \<Rightarrow> string list" where
  "split_on sep [] = [[]]"
| "split_on sep (c # cs) =
     (if c = sep then [] # split_on sep cs
      else case split_on sep cs of [] \<Rightarrow> [[c]] | w # ws \<Rightarrow> (c # w) # ws)"

fun join_with :: "string \<Rightarrow> string list \<Rightarrow> string" where
  "join_with sep [] = []"
| "join_with sep [w] = w"
| "join_with sep (w # ws) = w @ sep @ join_with sep ws"

lemma split_on_not_Nil [simp]: "split_on sep s \<noteq> []"
  by (cases s) (auto split: list.splits)

lemma join_split [simp]: "join_with [sep] (split_on sep s) = s"
proof (induction s)
  case Nil
  then show ?case by simp
next
  case (Cons c cs)
  obtain w ws where "split_on sep cs = w # ws"
    using split_on_not_Nil by (metis neq_Nil_conv)
  with Cons show ?case
    by (cases ws) auto
qed

lemma split_on_no_sep: "sep \<notin> set s \<Longrightarrow> split_on sep s = [s]"
  by (induction s) auto

lemma split_on_append: "sep \<notin> set w \<Longrightarrow> split_on sep (w @ sep # s) = w # split_on sep s"
  by (induction w) auto

lemma split_join:
  "ws \<noteq> [] \<Longrightarrow> \<forall>w \<in> set ws. sep \<notin> set w \<Longrightarrow> split_on sep (join_with [sep] ws) = ws"
proof (induction ws)
  case Nil
  then show ?case by simp
next
  case (Cons w ws)
  then show ?case
    by (cases ws) (auto simp: split_on_no_sep split_on_append)
qed

lemma split_on_words: "w \<in> set (split_on sep s) \<Longrightarrow> sep \<notin> set w"
proof (induction s arbitrary: w)
  case Nil
  then show ?case by simp
next
  case (Cons c cs)
  then show ?case
    by (auto split: if_splits list.splits)
qed

lemma split_on_append_sep: "split_on sep (p @ sep # s) = split_on sep p @ split_on sep s"
proof (induction p)
  case (Cons c cs)
  obtain w ws where "split_on sep cs = w # ws" using split_on_not_Nil by (metis neq_Nil_conv)
  with Cons show ?case by auto
qed simp

lemma join_append: "xs \<noteq> [] \<Longrightarrow> ys \<noteq> [] \<Longrightarrow> join_with sep (xs @ ys) = join_with sep xs @ sep @ join_with sep ys"
proof (induction xs)
  case (Cons x xs)
  then show ?case by (cases xs; cases ys) auto
qed simp

section \<open>Trimming, prefixes and suffixes\<close>

definition is_space :: "char \<Rightarrow> bool" where
  "is_space c \<longleftrightarrow> c = CHR '' '' \<or> (9 \<le> (of_char c :: nat) \<and> (of_char c :: nat) \<le> 13)"

definition trim_space :: "string \<Rightarrow> string" where
  "trim_space s = rev (dropWhile is_space (rev (dropWhile is_space s)))"

lemma trim_space_id: "\<forall>c \<in> set s. \<not> is_space c \<Longrightarrow> trim_space s = s"
proof -
  assume a: "\<forall>c \<in> set s. \<not> is_space c"
  then have "dropWhile is_space s = s" by (cases s) auto
  moreover have "dropWhile is_space (rev s) = rev s"
    using a by (metis dropWhile_eq_self_iff list.set_sel(1) set_rev)
  ultimately show ?thesis by (simp add: trim_space_def)
qed

definition has_suffix :: "string \<Rightarrow> string \<Rightarrow> bool" where
  "has_suffix s suf \<longleftrightarrow> length suf \<le> length s \<and> drop (length s - length suf) s = suf"

definition trim_suffix :: "string \<Rightarrow> string \<Rightarrow> string" where
  "trim_suffix s suf = (if has_suffix s suf then take (length s - length suf) s else s)"

lemma has_suffix_iff: "has_suffix s suf \<longleftrightarrow> (\<exists>p. s = p @ suf)"
proof
  assume "has_suffix s suf"
  then have "s = take (length s - length suf) s @ suf"
    by (metis append_take_drop_id has_suffix_def)
  then show "\<exists>p. s = p @ suf" ..
qed (auto simp: has_suffix_def)

lemma has_suffix_append [simp]: "has_suffix (p @ suf) suf"
  by (auto simp: has_suffix_iff)

lemma trim_suffix_append [simp]: "trim_suffix (p @ suf) suf = p"
  by (simp add: trim_suffix_def)

lemma trim_suffix_id: "\<not> has_suffix s suf \<Longrightarrow> trim_suffix s suf = s"
  by (simp add: trim_suffix_def)

section \<open>Lower case\<close>

definition lower_char :: "char \<Rightarrow> char" where
  "lower_char c =
     (let n = (of_char c :: nat) in if 65 \<le> n \<and> n \<le> 90 then char_of (n + 32) else c)"

definition to_lower :: "string \<Rightarrow> string" where
  "to_lower s = map lower_char s"

lemma length_to_lower [simp]: "length (to_lower s) = length s"
  by (simp add: to_lower_def)

section \<open>Decimal digits\<close>

definition digit_char :: "nat \<Rightarrow> char" where
  "digit_char d = char_of (48 + d)"

definition is_digit :: "char \<Rightarrow> bool" where
  "is_digit c \<longleftrightarrow> 48 \<le> (of_char c :: nat) \<and> (of_char c :: nat) \<le> 57"

definition digit_val :: "char \<Rightarrow> nat" where
  "digit_val c = of_char c - 48"

lemma of_char_digit_char [simp]: "d < 10 \<Longrightarrow> (of_char (digit_char d) :: nat) = 48 + d"
  by (simp add: digit_char_def)

lemma is_digit_digit_char [simp]: "d < 10 \<Longrightarrow> is_digit (digit_char d)"
  by (simp add: is_digit_def)

lemma digit_val_digit_char [simp]: "d < 10 \<Longrightarrow> digit_val (digit_char d) = d"
  by (simp add: digit_val_def)

lemma not_digit_dot [simp]: "\<not> is_digit CHR ''.''"
  by (simp add: is_digit_def)

lemma digit_char_neq_dot [simp]: "d < 10 \<Longrightarrow> digit_char d \<noteq> CHR ''.''"
  using is_digit_digit_char not_digit_dot by metis

text \<open>\<open>strconv.Itoa\<close> and \<open>strconv.FormatUint\<close> in base ten.\<close>

fun itoa :: "nat \<Rightarrow> string" where
  "itoa n = (if n < 10 then [digit_char n] else itoa (n div 10) @ [digit_char (n mod 10)])"

declare itoa.simps [simp del]

text \<open>\<open>strconv.Atoi\<close> on an unsigned decimal, the only form its callers let through.\<close>

definition atoi :: "string \<Rightarrow> nat option" where
  "atoi s = (if s \<noteq> [] \<and> list_all is_digit s
             then Some (foldl (\<lambda>acc c. 10 * acc + digit_val c) 0 s) else None)"

lemma itoa_digits: "list_all is_digit (itoa n) \<and> itoa n \<noteq> []"
proof (induction n rule: itoa.induct)
  case (1 n)
  show ?case
  proof (cases "n < 10")
    case True
    then show ?thesis by (simp add: itoa.simps[of n])
  next
    case False
    with "1.IH" show ?thesis by (simp add: itoa.simps[of n])
  qed
qed

lemma foldl_itoa: "foldl (\<lambda>acc c. 10 * acc + digit_val c) 0 (itoa n) = n"
proof (induction n rule: itoa.induct)
  case (1 n)
  show ?case
  proof (cases "n < 10")
    case True
    then show ?thesis by (simp add: itoa.simps[of n])
  next
    case False
    with "1.IH" show ?thesis by (simp add: itoa.simps[of n])
  qed
qed

lemma atoi_itoa [simp]: "atoi (itoa n) = Some n"
  by (simp add: atoi_def itoa_digits foldl_itoa)

lemma itoa_inject [simp]: "itoa m = itoa n \<longleftrightarrow> m = n"
  by (metis foldl_itoa)

end
