(* ===== verification/Netip.thy ===== *)
theory Netip
  imports Bytes GoStrings
begin

text \<open>
  The standard library's \<open>net/netip\<close>, as far as the sources use it: an address is the zero value,
  an IPv4 address or an IPv6 address with a zone; a prefix is an address and a length, \<open>- 1\<close> in the
  zero value. The order of addresses is the one \<open>Addr.Compare\<close> decides.
\<close>

section \<open>Addresses\<close>

datatype addr = AddrZero | V4 u32 | V6 u128 string

fun BitLen :: "addr \<Rightarrow> int" where
  "BitLen AddrZero = 0"
| "BitLen (V4 _) = 32"
| "BitLen (V6 _ _) = 128"

fun Is4 :: "addr \<Rightarrow> bool" where
  "Is4 (V4 _) = True"
| "Is4 _ = False"

fun IsValid :: "addr \<Rightarrow> bool" where
  "IsValid AddrZero = False"
| "IsValid _ = True"

fun Zone :: "addr \<Rightarrow> string" where
  "Zone (V6 _ z) = z"
| "Zone _ = []"

text \<open>The 128-bit number an address holds, before and after the IPv4-mapped prefix.\<close>

fun addr_num :: "addr \<Rightarrow> nat" where
  "addr_num AddrZero = 0"
| "addr_num (V4 w) = unat w"
| "addr_num (V6 w _) = unat w"

definition addr_compare :: "addr \<Rightarrow> addr \<Rightarrow> int" where
  "addr_compare a b =
     (if BitLen a < BitLen b then -1
      else if BitLen a > BitLen b then 1
      else if addr_num a < addr_num b then -1
      else if addr_num a > addr_num b then 1
      else if Zone a < Zone b then -1
      else if Zone a > Zone b then 1
      else 0)"

instantiation addr :: linorder
begin

definition less_eq_addr :: "addr \<Rightarrow> addr \<Rightarrow> bool" where
  "less_eq_addr a b \<longleftrightarrow>
     (BitLen a, addr_num a, Zone a) \<le> (BitLen b, addr_num b, Zone b)"

definition less_addr :: "addr \<Rightarrow> addr \<Rightarrow> bool" where
  "less_addr a b \<longleftrightarrow>
     (BitLen a, addr_num a, Zone a) < (BitLen b, addr_num b, Zone b)"

instance
proof
  fix a b c :: addr
  show "(a < b) = (a \<le> b \<and> \<not> b \<le> a)"
    unfolding less_addr_def less_eq_addr_def by (rule less_le_not_le)
  show "a \<le> a"
    by (simp add: less_eq_addr_def)
  show "a \<le> c" if "a \<le> b" "b \<le> c"
    using that unfolding less_eq_addr_def by (rule order_trans)
  show "a = b" if "a \<le> b" "b \<le> a"
  proof -
    have "(BitLen a, addr_num a, Zone a) = (BitLen b, addr_num b, Zone b)"
      using that unfolding less_eq_addr_def by (rule order_antisym)
    then show ?thesis
      by (cases a; cases b) (auto simp: word_unat_eq_iff)
  qed
  show "a \<le> b \<or> b \<le> a"
    unfolding less_eq_addr_def by (rule linear)
qed

end

lemma addr_compare_pos [simp]: "0 < addr_compare a b \<longleftrightarrow> b < a"
  by (auto simp: addr_compare_def less_addr_def)

lemma addr_compare_neg [simp]: "addr_compare a b < 0 \<longleftrightarrow> a < b"
  by (auto simp: addr_compare_def less_addr_def)

lemma addr_compare_le [simp]: "addr_compare a b \<le> 0 \<longleftrightarrow> a \<le> b"
  using addr_compare_pos[of a b] by (simp add: not_less[symmetric])

lemma addr_compare_ge [simp]: "0 \<le> addr_compare a b \<longleftrightarrow> b \<le> a"
  using addr_compare_neg[of a b] by (simp add: not_less[symmetric])

lemma V4_le [simp]: "V4 a \<le> V4 b \<longleftrightarrow> a \<le> b"
  by (auto simp: less_eq_addr_def word_le_nat_alt)

lemma V4_less [simp]: "V4 a < V4 b \<longleftrightarrow> a < b"
  by (auto simp: less_addr_def word_less_nat_alt)

lemma V6_le [simp]: "V6 a z \<le> V6 b z \<longleftrightarrow> a \<le> b"
  by (auto simp: less_eq_addr_def word_le_nat_alt)

lemma V6_less [simp]: "V6 a z < V6 b z \<longleftrightarrow> a < b"
  by (auto simp: less_addr_def word_less_nat_alt)

lemma BitLen_between: "a \<le> b \<Longrightarrow> b \<le> c \<Longrightarrow> BitLen a = BitLen c \<Longrightarrow> BitLen b = BitLen a"
  by (auto simp: less_eq_addr_def)

subsection \<open>Stepping\<close>

text \<open>
  \<open>Next\<close> and \<open>Prev\<close> are the zero value beyond the last and the first address of the family. The
  sources never step the zero value.
\<close>

fun Next :: "addr \<Rightarrow> addr" where
  "Next AddrZero = AddrZero"
| "Next (V4 w) = (if w + 1 = 0 then AddrZero else V4 (w + 1))"
| "Next (V6 w z) = (if w + 1 = 0 then AddrZero else V6 (w + 1) z)"

fun Prev :: "addr \<Rightarrow> addr" where
  "Prev AddrZero = AddrZero"
| "Prev (V4 w) = (if w = 0 then AddrZero else V4 (w - 1))"
| "Prev (V6 w z) = (if w = 0 then AddrZero else V6 (w - 1) z)"

fun Unmap :: "addr \<Rightarrow> addr" where
  "Unmap (V6 w z) = (if drop_bit 32 w = 0xFFFF then V4 (ucast w) else V6 w z)"
| "Unmap a = a"

subsection \<open>Bytes\<close>

fun As16 :: "addr \<Rightarrow> u8 list" where
  "As16 AddrZero = replicate 16 0"
| "As16 (V4 w) = replicate 10 0 @ [0xFF, 0xFF] @ be_bytes 4 w"
| "As16 (V6 w _) = be_bytes 16 w"

definition AddrFrom16 :: "u8 list \<Rightarrow> addr" where
  "AddrFrom16 bs = V6 (be_word bs) []"

definition AddrFrom4 :: "u8 list \<Rightarrow> addr" where
  "AddrFrom4 bs = V4 (be_word bs)"

text \<open>\<open>As4\<close> of an IPv4 address; its callers test \<open>Is4\<close> first, since Go panics otherwise.\<close>

fun As4 :: "addr \<Rightarrow> u8 list" where
  "As4 (V4 w) = be_bytes 4 w"
| "As4 _ = replicate 4 0"

lemma length_As16 [simp]: "length (As16 a) = 16"
  by (cases a) simp_all

lemma length_As4 [simp]: "length (As4 a) = 4"
  by (cases a) simp_all

lemma AddrFrom4_As4 [simp]: "Is4 a \<Longrightarrow> AddrFrom4 (As4 a) = a"
  by (cases a) (simp_all add: AddrFrom4_def)

section \<open>Prefixes\<close>

record prefix =
  pfx_ip :: addr
  pfx_bits :: int

definition zero_prefix :: prefix where
  "zero_prefix = \<lparr>pfx_ip = AddrZero, pfx_bits = -1\<rparr>"

fun without_zone :: "addr \<Rightarrow> addr" where
  "without_zone (V6 w _) = V6 w []"
| "without_zone a = a"

definition PrefixFrom :: "addr \<Rightarrow> int \<Rightarrow> prefix" where
  "PrefixFrom a b =
     \<lparr>pfx_ip = without_zone a,
      pfx_bits = (if IsValid a \<and> 0 \<le> b \<and> b \<le> BitLen a then b else -1)\<rparr>"

definition prefix_valid :: "prefix \<Rightarrow> bool" where
  "prefix_valid p \<longleftrightarrow> 0 \<le> pfx_bits p"

text \<open>\<open>Addr.Prefix\<close>: the host bits are cleared.\<close>

definition mask_host :: "nat \<Rightarrow> 'a::len word \<Rightarrow> 'a word" where
  "mask_host h w = w AND NOT (mask h)"

fun addr_prefix :: "addr \<Rightarrow> int \<Rightarrow> prefix" where
  "addr_prefix AddrZero b = zero_prefix"
| "addr_prefix (V4 w) b =
     (if b < 0 \<or> 32 < b then zero_prefix else PrefixFrom (V4 (mask_host (nat (32 - b)) w)) b)"
| "addr_prefix (V6 w z) b =
     (if b < 0 \<or> 128 < b then zero_prefix
      else PrefixFrom (V6 (mask_host (nat (128 - b)) w) []) b)"

definition Masked :: "prefix \<Rightarrow> prefix" where
  "Masked p = addr_prefix (pfx_ip p) (pfx_bits p)"

definition Contains :: "prefix \<Rightarrow> addr \<Rightarrow> bool" where
  "Contains p a =
     (if \<not> prefix_valid p \<or> Zone a \<noteq> [] then False
      else case (pfx_ip p, a) of
             (V4 v, V4 w) \<Rightarrow> drop_bit (nat (32 - pfx_bits p)) (w XOR v) = 0
           | (V6 v _, V6 w _) \<Rightarrow> mask_host (nat (128 - pfx_bits p)) (w XOR v) = 0
           | _ \<Rightarrow> False)"

text \<open>
  The prefixes \<open>PrefixFrom\<close> and the parser build: the length fits the family and the address has
  no zone.
\<close>

fun prefix_wf :: "prefix \<Rightarrow> bool" where
  "prefix_wf p =
     (case pfx_ip p of
        AddrZero \<Rightarrow> False
      | V4 _ \<Rightarrow> 0 \<le> pfx_bits p \<and> pfx_bits p \<le> 32
      | V6 _ z \<Rightarrow> 0 \<le> pfx_bits p \<and> pfx_bits p \<le> 128 \<and> z = [])"

section \<open>Parsing\<close>

text \<open>
  \<open>parseIPv4Fields\<close>: the octets read so far, the value and the digit count of the current one, and
  whether the byte before was a dot or there was none.
\<close>

fun parseIPv4Loop :: "bool \<Rightarrow> nat \<Rightarrow> nat \<Rightarrow> nat list \<Rightarrow> string \<Rightarrow> nat list option" where
  "parseIPv4Loop dot val digLen flds [] =
     (if length flds < 3 then None else Some (flds @ [val]))"
| "parseIPv4Loop dot val digLen flds (c # cs) =
     (if is_digit c then
        (if digLen = 1 \<and> val = 0 then None
         else let v = val * 10 + digit_val c
              in if v > 255 then None else parseIPv4Loop False v (digLen + 1) flds cs)
      else if c = CHR ''.'' then
        (if dot \<or> cs = [] then None
         else if length flds = 3 then None
         else parseIPv4Loop True 0 0 (flds @ [val]) cs)
      else None)"

definition parseIPv4Fields :: "string \<Rightarrow> nat list option" where
  "parseIPv4Fields s = parseIPv4Loop True 0 0 [] s"

definition v4_of_fields :: "nat list \<Rightarrow> u32" where
  "v4_of_fields fs = be_word (map word_of_nat fs)"

definition parseIPv4 :: "string \<Rightarrow> addr option" where
  "parseIPv4 s = map_option (\<lambda>fs. V4 (v4_of_fields fs)) (parseIPv4Fields s)"

definition hex_val :: "char \<Rightarrow> nat option" where
  "hex_val c =
     (let n = (of_char c :: nat)
      in if 48 \<le> n \<and> n \<le> 57 then Some (n - 48)
         else if 97 \<le> n \<and> n \<le> 102 then Some (n - 87)
         else if 65 \<le> n \<and> n \<le> 70 then Some (n - 55)
         else None)"

definition is_hex :: "char \<Rightarrow> bool" where
  "is_hex c \<longleftrightarrow> hex_val c \<noteq> None"

definition hex_num :: "string \<Rightarrow> nat" where
  "hex_num s = foldl (\<lambda>acc c. 16 * acc + the (hex_val c)) 0 s"

text \<open>
  The group loop of \<open>parseIPv6\<close>: the groups read so far, where the ellipsis stood, and the rest of
  the string; \<open>None\<close> is one of its errors.
\<close>

function parseIPv6Loop ::
  "string \<Rightarrow> nat list \<Rightarrow> nat option \<Rightarrow> (nat list \<times> nat option \<times> string) option" where
  "parseIPv6Loop s gs ell =
     (if 8 \<le> length gs then Some (gs, ell, s)
      else let ds = takeWhile is_hex s; r = dropWhile is_hex s; gs' = gs @ [hex_num ds]
      in if 4 < length ds \<or> ds = [] then None
      else case r of
        [] \<Rightarrow> Some (gs', ell, [])
      | c # r' \<Rightarrow>
          if c = CHR ''.'' then
            (if ell = None \<and> length gs \<noteq> 6 then None
             else if 8 < length gs + 2 then None
             else case parseIPv4Fields s of
                    Some [a, b, c', d] \<Rightarrow> Some (gs @ [a * 256 + b, c' * 256 + d], ell, [])
                  | _ \<Rightarrow> None)
          else if c \<noteq> CHR '':'' then None
          else case r' of
            [] \<Rightarrow> None
          | d # r'' \<Rightarrow>
              if d = CHR '':'' then
                (if ell \<noteq> None then None
                 else if r'' = [] then Some (gs', Some (length gs'), [])
                 else parseIPv6Loop r'' gs' (Some (length gs')))
              else parseIPv6Loop r' gs' ell)"
  by pat_completeness auto
termination
proof (relation "measure (\<lambda>(s, gs, ell). 8 - length gs)", goal_cases)
qed auto

declare parseIPv6Loop.simps [simp del]

definition v6_of_groups :: "nat list \<Rightarrow> u128" where
  "v6_of_groups gs = be_word (concat (map (\<lambda>g. [word_of_nat (g div 256), word_of_nat g]) gs))"

definition parseIPv6 :: "string \<Rightarrow> addr option" where
  "parseIPv6 inp =
     (let body = takeWhile (\<lambda>c. c \<noteq> CHR ''%'') inp;
          after = dropWhile (\<lambda>c. c \<noteq> CHR ''%'') inp;
          zone = drop 1 after
      in if after \<noteq> [] \<and> zone = [] then None
      else let lead = (take 2 body = '':'' @ '':'');
               s = (if lead then drop 2 body else body)
      in if lead \<and> s = [] then Some (V6 0 zone)
      else case parseIPv6Loop s [] (if lead then Some 0 else None) of
        None \<Rightarrow> None
      | Some (gs, ell, rest) \<Rightarrow>
          if rest \<noteq> [] then None
          else if length gs < 8 then
            (case ell of
               None \<Rightarrow> None
             | Some k \<Rightarrow>
                 Some (V6 (v6_of_groups (take k gs @ replicate (8 - length gs) 0 @ drop k gs)) zone))
          else if ell \<noteq> None then None
          else Some (V6 (v6_of_groups gs) zone))"

fun ParseAddr_scan :: "string \<Rightarrow> string \<Rightarrow> addr option" where
  "ParseAddr_scan s [] = None"
| "ParseAddr_scan s (c # cs) =
     (if c = CHR ''.'' then parseIPv4 s
      else if c = CHR '':'' then parseIPv6 s
      else if c = CHR ''%'' then None
      else ParseAddr_scan s cs)"

definition ParseAddr :: "string \<Rightarrow> addr option" where
  "ParseAddr s = ParseAddr_scan s s"

definition last_slash :: "string \<Rightarrow> (string \<times> string) option" where
  "last_slash s =
     (if CHR ''/'' \<in> set s
      then Some (rev (drop 1 (dropWhile (\<lambda>c. c \<noteq> CHR ''/'') (rev s))),
                 rev (takeWhile (\<lambda>c. c \<noteq> CHR ''/'') (rev s)))
      else None)"

definition ParsePrefix :: "string \<Rightarrow> prefix option" where
  "ParsePrefix s =
     (case last_slash s of
        None \<Rightarrow> None
      | Some (ipStr, bitsStr) \<Rightarrow>
          (case ParseAddr ipStr of
             None \<Rightarrow> None
           | Some ip \<Rightarrow>
               if Zone ip \<noteq> [] then None
               else if 1 < length bitsStr \<and> (hd bitsStr < CHR ''1'' \<or> CHR ''9'' < hd bitsStr) then None
               else (case atoi bitsStr of
                       None \<Rightarrow> None
                     | Some bits \<Rightarrow>
                         if int bits > (if Is4 ip then 32 else 128) then None
                         else Some (PrefixFrom ip (int bits)))))"

section \<open>Printing\<close>

definition append_decimal :: "nat \<Rightarrow> string" where
  "append_decimal x =
     (if x \<ge> 100 then [digit_char (x div 100)] else []) @
     (if x \<ge> 10 then [digit_char (x div 10 mod 10)] else []) @
     [digit_char (x mod 10)]"

definition string4 :: "u32 \<Rightarrow> string" where
  "string4 w = join_with ''.'' (map (\<lambda>b. append_decimal (unat b)) (be_bytes 4 w))"

definition hex_char :: "nat \<Rightarrow> char" where
  "hex_char d = (if d < 10 then char_of (48 + d) else char_of (87 + d))"

definition append_hex :: "nat \<Rightarrow> string" where
  "append_hex x =
     (if x \<ge> 0x1000 then [hex_char (x div 0x1000 mod 16)] else []) @
     (if x \<ge> 0x100 then [hex_char (x div 0x100 mod 16)] else []) @
     (if x \<ge> 0x10 then [hex_char (x div 0x10 mod 16)] else []) @
     [hex_char (x mod 16)]"

definition v6_groups :: "u128 \<Rightarrow> nat list" where
  "v6_groups w = map (\<lambda>i. unat (ucast (drop_bit (16 * (7 - i)) w) :: u16)) [0..<8]"

text \<open>The first longest run of at least two zero groups, as \<open>(start, end)\<close>; \<open>(255, 255)\<close> for none.\<close>

definition zero_run :: "nat list \<Rightarrow> nat \<times> nat" where
  "zero_run gs =
     foldl (\<lambda>(zs, ze) i.
              let l = length (takeWhile (\<lambda>g. g = 0) (drop i gs))
              in if 2 \<le> l \<and> ze - zs < l then (i, i + l) else (zs, ze))
           (255, 255) [0..<8]"

fun append_groups :: "nat \<Rightarrow> nat \<Rightarrow> nat \<Rightarrow> nat list \<Rightarrow> nat \<Rightarrow> string" where
  "append_groups 0 zs ze gs i = []"
| "append_groups (Suc fuel) zs ze gs i =
     (if 8 \<le> i then []
      else if i = zs then
        '':'' @ '':'' @ (if 8 \<le> ze then [] else append_hex (gs ! ze) @ append_groups fuel zs ze gs (ze + 1))
      else (if 0 < i then '':'' else []) @ append_hex (gs ! i) @ append_groups fuel zs ze gs (i + 1))"

definition string6 :: "u128 \<Rightarrow> string \<Rightarrow> string" where
  "string6 w z =
     (let gs = v6_groups w
      in (if drop_bit 32 w = 0xFFFF then ''::ffff:'' @ string4 (ucast w)
          else case zero_run gs of (zs, ze) \<Rightarrow> append_groups 8 zs ze gs 0) @
         (if z = [] then [] else CHR ''%'' # z))"

fun addr_string :: "addr \<Rightarrow> string" where
  "addr_string AddrZero = ''invalid IP''"
| "addr_string (V4 w) = string4 w"
| "addr_string (V6 w z) = string6 w z"

section \<open>Facts about addresses\<close>

lemma addr_num_less: "addr_num a < 2 ^ nat (BitLen a)"
proof (cases a)
  case (V4 w)
  then show ?thesis using unsigned_less[of w] by simp
next
  case (V6 w z)
  then show ?thesis using unsigned_less[of w] by simp
qed simp

lemma zoneless_eq_iff:
  "Zone a = [] \<Longrightarrow> Zone b = [] \<Longrightarrow> a = b \<longleftrightarrow> BitLen a = BitLen b \<and> addr_num a = addr_num b"
  by (cases a; cases b) (auto simp: word_unat_eq_iff)

lemma zoneless_le_iff:
  "Zone a = [] \<Longrightarrow> Zone b = [] \<Longrightarrow> BitLen a = BitLen b \<Longrightarrow> a \<le> b \<longleftrightarrow> addr_num a \<le> addr_num b"
  by (auto simp: less_eq_addr_def)

lemma addr_le_num: "BitLen a = BitLen b \<Longrightarrow> a \<le> b \<Longrightarrow> addr_num a \<le> addr_num b"
  by (auto simp: less_eq_addr_def)

lemma IsValid_iff: "IsValid a \<longleftrightarrow> a \<noteq> AddrZero"
  by (cases a) simp_all

lemma IsValid_BitLen: "IsValid a \<longleftrightarrow> BitLen a \<noteq> 0"
  by (cases a) simp_all

lemma unat_plus_one: "w + 1 \<noteq> 0 \<Longrightarrow> unat (w + 1) = unat w + 1"
  for w :: "'a::len word"
  by (metis Suc_eq_plus1 add.commute unatSuc)

lemma Next_facts:
  assumes "IsValid (Next a)"
  shows "BitLen (Next a) = BitLen a" "addr_num (Next a) = addr_num a + 1" "Zone (Next a) = Zone a"
    "Is4 (Next a) = Is4 a" "IsValid a"
  using assms by (cases a; auto split: if_splits simp: unat_plus_one)+

lemma plus_one_nonzero:
  fixes w :: "'a::len word"
  assumes "unat w + 1 < 2 ^ LENGTH('a)"
  shows "w + 1 \<noteq> 0"
proof -
  have "unat (w + 1) = unat w + 1" using assms by (simp add: unat_word_ariths)
  then show ?thesis by auto
qed

lemma Next_valid: "IsValid a \<Longrightarrow> addr_num a + 1 < 2 ^ nat (BitLen a) \<Longrightarrow> IsValid (Next a)"
proof (cases a)
  case (V4 w)
  moreover assume "addr_num a + 1 < 2 ^ nat (BitLen a)"
  ultimately show ?thesis using plus_one_nonzero[of w] by simp
next
  case (V6 w z)
  moreover assume "addr_num a + 1 < 2 ^ nat (BitLen a)"
  ultimately show ?thesis using plus_one_nonzero[of w] by simp
qed simp

lemma Prev_facts:
  assumes "IsValid (Prev a)"
  shows "BitLen (Prev a) = BitLen a" "addr_num (Prev a) = addr_num a - 1" "Zone (Prev a) = Zone a"
    "Is4 (Prev a) = Is4 a" "addr_num a \<noteq> 0"
  using assms by (cases a; auto split: if_splits simp: unat_minus_one unat_eq_zero)+

lemma Prev_valid: "addr_num a \<noteq> 0 \<Longrightarrow> IsValid (Prev a)"
  by (cases a) (auto split: if_splits)

subsection \<open>The addresses between two bounds\<close>

text \<open>The zone-free addresses from \<open>lo\<close> to \<open>hi\<close>, and how many they are.\<close>

definition addrs_between :: "addr \<Rightarrow> addr \<Rightarrow> addr set" where
  "addrs_between lo hi = {a. lo \<le> a \<and> a \<le> hi \<and> Zone a = []}"

fun addr_of_num :: "addr \<Rightarrow> nat \<Rightarrow> addr" where
  "addr_of_num AddrZero n = AddrZero"
| "addr_of_num (V4 _) n = V4 (word_of_nat n)"
| "addr_of_num (V6 _ _) n = V6 (word_of_nat n) []"

lemma addr_of_num_facts:
  assumes "n < 2 ^ nat (BitLen a)"
  shows "BitLen (addr_of_num a n) = BitLen a" "Zone (addr_of_num a n) = []"
    "addr_num (addr_of_num a n) = n"
  using assms by (cases a; simp add: unsigned_of_nat take_bit_nat_eq_self)+

lemma addrs_between_image:
  assumes "BitLen lo = BitLen hi" "Zone lo = []" "Zone hi = []"
  shows "addrs_between lo hi = addr_of_num lo ` {addr_num lo..addr_num hi}"
proof (intro equalityI subsetI)
  fix a assume "a \<in> addrs_between lo hi"
  then have a: "lo \<le> a" "a \<le> hi" "Zone a = []" by (auto simp: addrs_between_def)
  then have bl: "BitLen a = BitLen lo" using assms by (metis BitLen_between)
  have "addr_num a < 2 ^ nat (BitLen lo)" using addr_num_less[of a] bl by simp
  then have "a = addr_of_num lo (addr_num a)"
    using a(3) bl by (simp add: zoneless_eq_iff addr_of_num_facts)
  moreover have "addr_num a \<in> {addr_num lo..addr_num hi}"
    using a bl assms by (simp add: addr_le_num)
  ultimately show "a \<in> addr_of_num lo ` {addr_num lo..addr_num hi}" by blast
next
  fix a assume "a \<in> addr_of_num lo ` {addr_num lo..addr_num hi}"
  then obtain n where n: "a = addr_of_num lo n" "addr_num lo \<le> n" "n \<le> addr_num hi" by auto
  have "n < 2 ^ nat (BitLen lo)" using n(3) addr_num_less[of hi] assms(1) by simp
  then show "a \<in> addrs_between lo hi"
    using n assms by (simp add: addrs_between_def zoneless_le_iff addr_of_num_facts)
qed

lemma addrs_between_finite_card:
  assumes "BitLen lo = BitLen hi" "Zone lo = []" "Zone hi = []"
  shows "finite (addrs_between lo hi)"
    and "card (addrs_between lo hi) = addr_num hi + 1 - addr_num lo"
proof -
  show "finite (addrs_between lo hi)" by (simp add: addrs_between_image assms)
  have "inj_on (addr_of_num lo) {addr_num lo..addr_num hi}"
    using addr_num_less[of hi] assms(1)
    by (intro inj_onI) (metis addr_of_num_facts(3) atLeastAtMost_iff le_less_trans)
  then show "card (addrs_between lo hi) = addr_num hi + 1 - addr_num lo"
    by (simp add: addrs_between_image assms card_image)
qed

section \<open>Facts about parsing and printing\<close>

lemma append_decimal_loop:
  assumes "x < 256" "rest = [] \<or> hd rest = CHR ''.''"
  shows "\<exists>n. 0 < n \<and> parseIPv4Loop dot 0 0 flds (append_decimal x @ rest) =
             parseIPv4Loop False x n flds rest"
proof -
  consider "x < 10" | "10 \<le> x" "x < 100" | "100 \<le> x" by linarith
  then show ?thesis
  proof cases
    case 1
    then show ?thesis by (intro exI[of _ 1]) (simp add: append_decimal_def)
  next
    case 2
    then have "x div 10 * 10 + x mod 10 = x" "x div 10 mod 10 = x div 10" "x div 10 < 10" "x div 10 \<noteq> 0"
      by auto
    then show ?thesis using 2 by (intro exI[of _ "Suc (Suc 0)"]) (simp add: append_decimal_def Let_def)
  next
    case 3
    have d: "x div 100 = x div 10 div 10" by (simp add: div_mult2_eq[symmetric])
    have "(x div 100 * 10 + x div 10 mod 10) * 10 + x mod 10 = x"
      by (simp only: d div_mult_mod_eq)
    moreover have "x div 100 < 10" "x div 100 \<noteq> 0" "x div 100 * 10 + x div 10 mod 10 \<le> 255"
      using 3 assms(1) by auto
    ultimately show ?thesis using 3 assms(1) by (intro exI[of _ "Suc (Suc (Suc 0))"]) (simp add: append_decimal_def Let_def)
  qed
qed

lemma append_decimal_step:
  assumes "x < 256" "rest \<noteq> []" "length flds < 3"
  shows "parseIPv4Loop dot 0 0 flds (append_decimal x @ CHR ''.'' # rest) =
         parseIPv4Loop True 0 0 (flds @ [x]) rest"
  using append_decimal_loop[of x "CHR ''.'' # rest" dot flds] assms by auto

lemma append_decimal_last:
  assumes "x < 256" "length flds = 3"
  shows "parseIPv4Loop dot 0 0 flds (append_decimal x) = Some (flds @ [x])"
  using append_decimal_loop[of x "[]" dot flds] assms by auto

lemma append_decimal_not_Nil [simp]: "append_decimal x \<noteq> []"
  by (simp add: append_decimal_def)

lemma length_4E:
  assumes "length xs = 4"
  obtains a b c d where "xs = [a, b, c, d]"
  using assms by (auto simp: numeral_eq_Suc length_Suc_conv)

lemma unat_u8_less: "unat (b :: u8) < 256"
  using unsigned_less[of b] by simp

lemma parseIPv4_string4: "parseIPv4 (string4 w) = Some (V4 w)"
proof -
  obtain a b c d where bs: "be_bytes 4 w = [a, b, c, d]"
    by (rule length_4E[of "be_bytes 4 w"]) simp
  have "v4_of_fields (map unat (be_bytes 4 w)) = w"
    by (simp add: v4_of_fields_def comp_def)
  then have "v4_of_fields [unat a, unat b, unat c, unat d] = w" by (simp add: bs)
  then show ?thesis
    by (simp add: parseIPv4_def parseIPv4Fields_def string4_def bs append_decimal_step
          append_decimal_last unat_u8_less)
qed

lemma ParseAddr_scan_digits:
  "list_all is_digit ds \<Longrightarrow> ParseAddr_scan s (ds @ CHR ''.'' # rest) = parseIPv4 s"
  by (induction ds) (auto simp: is_digit_def)

lemma append_decimal_digits: "x < 1000 \<Longrightarrow> list_all is_digit (append_decimal x)"
  by (simp add: append_decimal_def)

theorem ParseAddr_string4 [simp]: "ParseAddr (string4 w) = Some (V4 w)"
proof -
  obtain a b c d where bs: "be_bytes 4 w = [a, b, c, d]"
    by (rule length_4E[of "be_bytes 4 w"]) simp
  have "ParseAddr_scan (string4 w) (string4 w) = parseIPv4 (string4 w)"
    unfolding string4_def bs using unat_u8_less[of a]
    by (simp add: ParseAddr_scan_digits append_decimal_digits)
  then show ?thesis by (simp add: ParseAddr_def parseIPv4_string4)
qed

lemma string4_inject [simp]: "string4 v = string4 w \<longleftrightarrow> v = w"
  by (metis ParseAddr_string4 addr.inject(1) option.inject)

lemma string4_chars: "c \<in> set (string4 w) \<Longrightarrow> is_digit c \<or> c = CHR ''.''"
proof -
  assume c: "c \<in> set (string4 w)"
  have "unat b < 1000" for b :: u8 using unat_u8_less[of b] by simp
  then have "list_all is_digit (append_decimal (unat b))" for b :: u8
    by (rule append_decimal_digits)
  moreover obtain b0 b1 b2 b3 where "be_bytes 4 w = [b0, b1, b2, b3]"
    by (rule length_4E[of "be_bytes 4 w"]) simp
  ultimately show ?thesis using c by (auto simp: string4_def list_all_iff)
qed

lemma string4_no_space: "\<forall>c \<in> set (string4 w). \<not> is_space c"
  using string4_chars by (fastforce simp: is_space_def is_digit_def)

lemma parse_results:
  shows "parseIPv4 s = Some a \<Longrightarrow> Is4 a"
    and "parseIPv6 s = Some a \<Longrightarrow> BitLen a = 128"
  by (auto simp: parseIPv4_def parseIPv6_def Let_def split: if_splits option.splits)

lemma ParseAddr_scan_valid: "ParseAddr_scan s t = Some a \<Longrightarrow> IsValid a"
  by (induction t) (auto split: if_splits dest!: parse_results simp: IsValid_BitLen elim: Is4.elims)

lemma ParseAddr_valid: "ParseAddr s = Some a \<Longrightarrow> IsValid a"
  by (simp add: ParseAddr_def ParseAddr_scan_valid)

lemma PrefixFrom_wf: "IsValid a \<Longrightarrow> 0 \<le> b \<Longrightarrow> b \<le> BitLen a \<Longrightarrow> prefix_wf (PrefixFrom a b)"
  by (cases a) (auto simp: PrefixFrom_def)

lemma BitLen_valid: "IsValid a \<Longrightarrow> BitLen a = (if Is4 a then 32 else 128)"
  by (cases a) auto

lemma ParsePrefix_shape:
  assumes "ParsePrefix s = Some p"
  obtains ip bits where "IsValid ip" "int bits \<le> BitLen ip" "p = PrefixFrom ip (int bits)"
proof -
  obtain a b where ab: "last_slash s = Some (a, b)"
    using assms by (auto simp: ParsePrefix_def split: option.splits)
  obtain ip where ip: "ParseAddr a = Some ip"
    using assms ab by (auto simp: ParsePrefix_def split: option.splits)
  obtain bits where bits: "atoi b = Some bits"
    using assms ab ip by (auto simp: ParsePrefix_def split: option.splits if_splits)
  have "IsValid ip" using ip by (rule ParseAddr_valid)
  then show ?thesis
    using assms ab ip bits that[of ip bits]
    by (simp add: ParsePrefix_def BitLen_valid split: if_splits)
qed

lemma ParsePrefix_wf: "ParsePrefix s = Some p \<Longrightarrow> prefix_wf p"
  by (metis ParsePrefix_shape PrefixFrom_wf of_nat_0_le_iff)

section \<open>Facts about prefixes\<close>

lemma bit_mask_host: "bit (mask_host h w) n \<longleftrightarrow> bit w n \<and> h \<le> n"
  for w :: "'a::len word"
  by (auto simp: mask_host_def bit_simps dest: bit_imp_le_length)

lemma mask_host_0 [simp]: "mask_host 0 w = w"
  by (rule bit_word_eqI) (simp add: bit_mask_host)

lemma mask_host_idem [simp]: "mask_host h (mask_host h w) = mask_host h w"
  by (rule bit_word_eqI) (auto simp: bit_mask_host)

lemma mask_host_le: "mask_host h w \<le> w"
  unfolding mask_host_def by (rule word_and_le2)

lemma Masked_wf:
  "prefix_wf p \<Longrightarrow> prefix_wf (Masked p) \<and> pfx_bits (Masked p) = pfx_bits p
     \<and> BitLen (pfx_ip (Masked p)) = BitLen (pfx_ip p)"
  by (auto simp: Masked_def PrefixFrom_def split: addr.splits)

lemma Masked_idem: "prefix_wf p \<Longrightarrow> Masked (Masked p) = Masked p"
  by (cases "pfx_ip p") (auto simp: Masked_def PrefixFrom_def)

end
