(* ===== verification/AddressRange.thy ===== *)
theory AddressRange
  imports Netip
begin

text \<open>
  The package \<open>controller/internal/addressrange\<close>: the \<open>start-end\<close> form of ARP-mode address pools,
  the last and the first address of a prefix, and intersections of address ranges.
\<close>

section \<open>Definitions\<close>

subsection \<open>Parsing (parse.go)\<close>

datatype range_error = ErrMalformed | ErrNotIPv4 | ErrReversed

definition range_separator :: char where
  "range_separator = CHR ''-''"

definition parse_ipv4 :: "string \<Rightarrow> range_error + addr" where
  "parse_ipv4 raw =
     (case ParseAddr (trim_space raw) of
        None \<Rightarrow> Inl ErrNotIPv4
      | Some a \<Rightarrow> (let addr = Unmap a in if \<not> Is4 addr then Inl ErrNotIPv4 else Inr addr))"

definition ParseIPv4Range :: "string \<Rightarrow> range_error + (addr \<times> addr)" where
  "ParseIPv4Range raw =
     (case split_on range_separator raw of
        [p0, p1] \<Rightarrow>
          (case parse_ipv4 p0 of
             Inl e \<Rightarrow> Inl e
           | Inr start \<Rightarrow>
               (case parse_ipv4 p1 of
                  Inl e \<Rightarrow> Inl e
                | Inr fin \<Rightarrow>
                    if addr_compare start fin > 0 then Inl ErrReversed else Inr (start, fin)))
      | _ \<Rightarrow> Inl ErrMalformed)"

subsection \<open>Prefixes (prefix.go)\<close>

text \<open>The loop over the sixteen bytes, from the last one; the first argument is \<open>i + 1\<close>.\<close>

fun LastAddr_loop :: "nat \<Rightarrow> int \<Rightarrow> u8 list \<Rightarrow> u8 list" where
  "LastAddr_loop 0 hostBits bs = bs"
| "LastAddr_loop (Suc i) hostBits bs =
     (if hostBits > 0 then
        let flip = (if hostBits > 8 then 8 else hostBits)
        in LastAddr_loop i (hostBits - flip) (bs[i := bs ! i OR word_of_int (2 ^ nat flip - 1)])
      else bs)"

definition LastAddr :: "prefix \<Rightarrow> addr" where
  "LastAddr p =
     (let addr = pfx_ip (Masked p);
          bits = pfx_bits p;
          hostBits = BitLen addr - bits;
          bs = LastAddr_loop 16 hostBits (As16 addr)
      in if Is4 addr then AddrFrom4 [bs ! 12, bs ! 13, bs ! 14, bs ! 15] else AddrFrom16 bs)"

definition FirstAddr :: "prefix \<Rightarrow> addr \<times> bool" where
  "FirstAddr p =
     (let masked = Masked p;
          addr = Next (pfx_ip masked)
      in if \<not> IsValid addr \<or> \<not> Contains masked addr then (AddrZero, False) else (addr, True))"

subsection \<open>Ranges (range.go)\<close>

record addr_range =
  Start :: addr
  End :: addr

definition PrefixRange :: "prefix \<Rightarrow> addr_range" where
  "PrefixRange p = (let q = Masked p in \<lparr>Start = pfx_ip q, End = LastAddr q\<rparr>)"

definition Intersect :: "addr_range \<Rightarrow> addr_range \<Rightarrow> addr_range \<times> bool" where
  "Intersect r other =
     (let start = (if addr_compare (Start other) (Start r) > 0 then Start other else Start r);
          fin = (if addr_compare (End other) (End r) < 0 then End other else End r)
      in if addr_compare start fin > 0 then (\<lparr>Start = AddrZero, End = AddrZero\<rparr>, False)
         else (\<lparr>Start = start, End = fin\<rparr>, True))"

definition Range_String :: "addr_range \<Rightarrow> string" where
  "Range_String r =
     (if Start r = End r then addr_string (Start r)
      else addr_string (Start r) @ [range_separator] @ addr_string (End r))"

section \<open>The last address\<close>

lemma bit_low_ones: "n \<le> 8 \<Longrightarrow> bit (2 ^ n - 1 :: u8) k \<longleftrightarrow> k < n"
  by (auto simp: bit_simps mask_eq_exp_minus_1[symmetric])

lemma length_LastAddr_loop [simp]: "length (LastAddr_loop n h bs) = length bs"
  by (induction n arbitrary: h bs) (simp_all add: Let_def)

lemma LastAddr_loop_byte:
  assumes "n \<le> length bs" "j < length bs" "k < 8"
  shows "bit (LastAddr_loop n h bs ! j) k \<longleftrightarrow>
           bit (bs ! j) k \<or> (j < n \<and> int (8 * (n - 1 - j) + k) < h)"
  using assms
proof (induction n arbitrary: h bs)
  case 0
  then show ?case by simp
next
  case (Suc i)
  show ?case
  proof (cases "h > 0")
    case False
    then show ?thesis by simp
  next
    case True
    define flip where "flip = (if h > 8 then 8 else h)"
    have flip: "nat flip \<le> 8" "0 \<le> flip" using True by (auto simp: flip_def)
    let ?bs = "bs[i := bs ! i OR word_of_int (2 ^ nat flip - 1)]"
    have "bit (LastAddr_loop (Suc i) h bs ! j) k \<longleftrightarrow> bit (LastAddr_loop i (h - flip) ?bs ! j) k"
      using True by (simp add: flip_def Let_def)
    also have "\<dots> \<longleftrightarrow> bit (?bs ! j) k \<or> (j < i \<and> int (8 * (i - 1 - j) + k) < h - flip)"
      using Suc.prems by (intro Suc.IH) auto
    also have "\<dots> \<longleftrightarrow> bit (bs ! j) k \<or> (j < Suc i \<and> int (8 * (Suc i - 1 - j) + k) < h)"
    proof -
      consider "j = i" | "j < i" | "i < j" by linarith
      then show ?thesis
      proof cases
        case 1
        have "(k < nat flip) = (int k < h)" using True Suc.prems(3) by (auto simp: flip_def)
        then show ?thesis using 1 Suc.prems flip by (simp add: bit_or_iff bit_low_ones)
      next
        case 2
        have "int (8 * (i - 1 - j) + k) < h - flip \<longleftrightarrow> int (8 * (i - j) + k) < h"
          using 2 Suc.prems(3) by (auto simp: flip_def of_nat_diff)
        then show ?thesis using 2 by simp
      qed simp
    qed
    finally show ?thesis .
  qed
qed

text \<open>The address the loop leaves: the network address with its host bits set.\<close>

lemma LastAddr_loop_word:
  fixes w :: "'a::len word"
  assumes "length bs = 16" "LENGTH('a) = 8 * m" "m \<le> 16"
    and "drop (16 - m) bs = be_bytes m w"
  shows "be_word (drop (16 - m) (LastAddr_loop 16 (int h) bs)) = w OR mask h"
proof (rule bit_word_eqI)
  fix n assume n: "n < LENGTH('a)"
  define j where "j = 15 - n div 8"
  have nd: "n div 8 < m" using n assms(2) by auto
  then have j: "j < 16" "8 * (16 - 1 - j) + n mod 8 = n" "16 - m + (m - 1 - n div 8) = j"
    using assms(3) by (auto simp: j_def)
  have "bs ! j = be_bytes m w ! (m - 1 - n div 8)"
    using assms j nd by (metis diff_le_self length_drop nth_drop)
  then have b: "bit (bs ! j) (n mod 8) \<longleftrightarrow> bit w n"
    using nd n by (simp add: bit_simps)
  have "bit (be_word (drop (16 - m) (LastAddr_loop 16 (int h) bs)) :: 'a word) n
      \<longleftrightarrow> bit (LastAddr_loop 16 (int h) bs ! j) (n mod 8)"
    using n nd assms(1,2,3) j(3) by (simp add: bit_be_word)
  also have "\<dots> \<longleftrightarrow> bit w n \<or> n < h"
    using j assms(1) b by (subst LastAddr_loop_byte) auto
  finally show "bit (be_word (drop (16 - m) (LastAddr_loop 16 (int h) bs)) :: 'a word) n
      \<longleftrightarrow> bit (w OR mask h) n"
    using n by (simp add: bit_simps)
qed

lemma LastAddr_V4:
  assumes "pfx_ip (Masked p) = V4 w" "pfx_bits p \<le> 32"
  shows "LastAddr p = V4 (w OR mask (nat (32 - pfx_bits p)))"
proof -
  define bs where "bs = LastAddr_loop 16 (32 - pfx_bits p) (As16 (V4 w))"
  have len: "length bs = 16" by (simp add: bs_def del: As16.simps)
  have "drop 12 bs = [bs ! 12, bs ! 13, bs ! 14, bs ! 15]"
    by (rule nth_equalityI) (auto simp: len less_Suc_eq numeral_eq_Suc)
  moreover have "be_word (drop 12 bs) = w OR mask (nat (32 - pfx_bits p))"
    using LastAddr_loop_word[of "As16 (V4 w)" 4 w "nat (32 - pfx_bits p)"] assms(2)
    by (simp add: bs_def)
  ultimately show ?thesis
    by (simp add: LastAddr_def assms(1) Let_def AddrFrom4_def bs_def del: As16.simps)
qed

lemma LastAddr_V6:
  assumes "pfx_ip (Masked p) = V6 w z" "pfx_bits p \<le> 128"
  shows "LastAddr p = V6 (w OR mask (nat (128 - pfx_bits p))) []"
  using LastAddr_loop_word[of "As16 (V6 w z)" 16 w "nat (128 - pfx_bits p)"] assms(2)
  by (simp add: LastAddr_def assms(1) AddrFrom16_def Let_def)

lemma Masked_V4:
  "pfx_ip p = V4 w \<Longrightarrow> prefix_wf p \<Longrightarrow>
     Masked p = \<lparr>pfx_ip = V4 (mask_host (nat (32 - pfx_bits p)) w), pfx_bits = pfx_bits p\<rparr>"
  by (simp add: Masked_def PrefixFrom_def)

lemma Masked_V6:
  "pfx_ip p = V6 w z \<Longrightarrow> prefix_wf p \<Longrightarrow>
     Masked p = \<lparr>pfx_ip = V6 (mask_host (nat (128 - pfx_bits p)) w) [], pfx_bits = pfx_bits p\<rparr>"
  by (simp add: Masked_def PrefixFrom_def)

subsection \<open>A block of addresses is an interval\<close>

lemma drop_bit_mono: "x \<le> y \<Longrightarrow> drop_bit h x \<le> drop_bit h y" for x y :: "'a::len word"
  by (simp only: word_le_nat_alt unat_drop_bit_eq) (simp add: drop_bit_eq_div div_le_mono)

lemma drop_bit_eq_iff_mask_host:
  "drop_bit h x = drop_bit h y \<longleftrightarrow> mask_host h x = mask_host h y" for x y :: "'a::len word"
proof
  assume "drop_bit h x = drop_bit h y"
  then have "bit x n = bit y n" if "h \<le> n" for n
    using that bit_drop_bit_eq[of h x] bit_drop_bit_eq[of h y] by (metis comp_apply le_add_diff_inverse)
  then show "mask_host h x = mask_host h y"
    by (intro bit_word_eqI) (auto simp: bit_mask_host)
next
  assume *: "mask_host h x = mask_host h y"
  show "drop_bit h x = drop_bit h y"
    by (rule bit_word_eqI) (metis * bit_drop_bit_eq bit_mask_host comp_apply le_add1)
qed

lemma block_interval:
  fixes x v :: "'a::len word"
  shows "drop_bit h x = drop_bit h v \<longleftrightarrow> mask_host h v \<le> x \<and> x \<le> mask_host h v OR mask h"
proof
  assume "drop_bit h x = drop_bit h v"
  then have m: "mask_host h v = mask_host h x" by (simp add: drop_bit_eq_iff_mask_host)
  have "x OR mask h = mask_host h x OR mask h"
    by (rule bit_word_eqI) (auto simp: bit_simps bit_mask_host)
  then show "mask_host h v \<le> x \<and> x \<le> mask_host h v OR mask h"
    unfolding m using mask_host_le[of h x] by (metis word_and_le1 word_bw_lcs(1) word_ao_absorbs(5) le_word_or2)
next
  assume i: "mask_host h v \<le> x \<and> x \<le> mask_host h v OR mask h"
  have "drop_bit h (mask_host h v) = drop_bit h v" "drop_bit h (mask_host h v OR mask h) = drop_bit h v"
    by (rule bit_word_eqI; auto simp: bit_simps bit_mask_host)+
  then show "drop_bit h x = drop_bit h v"
    using i drop_bit_mono by (metis order_antisym)
qed

lemma xor_eq_0_iff [simp]: "x XOR y = 0 \<longleftrightarrow> x = y" for x y :: "'a::len word"
  by (metis xor.assoc xor.right_neutral xor_self_eq)

lemma xor_zero_iff:
  fixes x v :: "'a::len word"
  shows "drop_bit h (x XOR v) = 0 \<longleftrightarrow> drop_bit h x = drop_bit h v"
    and "mask_host h (x XOR v) = 0 \<longleftrightarrow> drop_bit h x = drop_bit h v"
proof -
  show 1: "drop_bit h (x XOR v) = 0 \<longleftrightarrow> drop_bit h x = drop_bit h v"
    by (simp add: drop_bit_xor)
  show "mask_host h (x XOR v) = 0 \<longleftrightarrow> drop_bit h x = drop_bit h v"
    using drop_bit_eq_iff_mask_host[of h "x XOR v" 0] 1 by (simp add: mask_host_def)
qed

lemma prefix_interval:
  assumes "prefix_wf p"
  shows "Contains p a \<longleftrightarrow> pfx_ip (Masked p) \<le> a \<and> a \<le> LastAddr p \<and> Zone a = []"
proof (cases "pfx_ip p")
  case AddrZero
  then show ?thesis using assms by simp
next
  case (V4 v)
  then show ?thesis
    using assms by (cases a) (auto simp: Contains_def prefix_valid_def Masked_V4 LastAddr_V4
        block_interval xor_zero_iff(2) less_eq_addr_def word_le_nat_alt)
next
  case (V6 v z)
  then show ?thesis
    using assms by (cases a) (auto simp: Contains_def prefix_valid_def Masked_V6 LastAddr_V6
        block_interval xor_zero_iff(2) less_eq_addr_def word_le_nat_alt)
qed

lemma LastAddr_Masked [simp]: "prefix_wf p \<Longrightarrow> LastAddr (Masked p) = LastAddr p"
  by (simp add: LastAddr_def Masked_idem Masked_wf del: prefix_wf.simps)

section \<open>Properties\<close>

definition range_mem :: "addr_range \<Rightarrow> addr \<Rightarrow> bool" where
  "range_mem r a \<longleftrightarrow> Start r \<le> a \<and> a \<le> End r"

text \<open>
  C23. The range of a prefix holds exactly the addresses the prefix contains: the byte loop that fills
  the host bits gives the last one, for every IPv4 and IPv6 length.
\<close>

theorem PrefixRange_members:
  assumes "prefix_wf p"
  shows "Contains p a \<longleftrightarrow> range_mem (PrefixRange p) a \<and> Zone a = []"
  using assms prefix_interval[OF assms]
  by (simp add: PrefixRange_def range_mem_def Let_def del: prefix_wf.simps)

theorem PrefixRange_members_witness:
  "Contains (PrefixFrom (V4 0x0A000105) 24) (V4 0x0A0001FF) \<longleftrightarrow>
     range_mem (PrefixRange (PrefixFrom (V4 0x0A000105) 24)) (V4 0x0A0001FF) \<and> Zone (V4 0x0A0001FF) = []"
  by (rule PrefixRange_members) (simp add: PrefixFrom_def)

text \<open>
  \<open>Intersect\<close> returns exactly the shared addresses of two ranges, and reports \<open>False\<close> only when
  there are none.
\<close>

theorem Intersect_members:
  "if snd (Intersect r s)
   then Start (fst (Intersect r s)) \<le> End (fst (Intersect r s))
      \<and> (\<forall>a. range_mem (fst (Intersect r s)) a = (range_mem r a \<and> range_mem s a))
   else (\<forall>a. \<not> (range_mem r a \<and> range_mem s a))"
  by (auto simp: Intersect_def Let_def range_mem_def)

lemma parse_ipv4_string4 [simp]: "parse_ipv4 (string4 w) = Inr (V4 w)"
  by (simp add: parse_ipv4_def trim_space_id string4_no_space)

lemma string4_no_sep: "range_separator \<notin> set (string4 w)"
  using string4_chars[of range_separator w] by (auto simp: range_separator_def is_digit_def)



lemma parse_ipv4_Is4: "parse_ipv4 s = Inr a \<Longrightarrow> Is4 a"
  by (auto simp: parse_ipv4_def Let_def split: option.splits if_splits)

lemma ParseIPv4Range_sound:
  assumes "ParseIPv4Range raw = Inr (a, b)"
  shows "Is4 a \<and> Is4 b \<and> a \<le> b"
proof -
  obtain p q where "split_on range_separator raw = [p, q]"
    using assms by (auto simp: ParseIPv4Range_def split: list.splits)
  then show ?thesis
    using assms by (auto simp: ParseIPv4Range_def not_less dest: parse_ipv4_Is4
          split: sum.splits if_splits)
qed

lemma mask_host_Suc:
  fixes v :: "'a::len word"
  assumes "0 < h"
  shows "mask_host h v + 1 = mask_host h v OR 1" "mask_host h v + 1 \<noteq> 0"
    "drop_bit h (mask_host h v + 1) = drop_bit h (mask_host h v)"
proof -
  have "mask_host h v AND 1 = 0"
    using assms by (intro bit_word_eqI) (auto simp: bit_simps bit_mask_host)
  then show e: "mask_host h v + 1 = mask_host h v OR 1"
    by (rule disjunctive_add_eq_or)
  have "bit (mask_host h v OR 1) 0" by (simp add: bit_simps)
  then show "mask_host h v + 1 \<noteq> 0" unfolding e by auto
  show "drop_bit h (mask_host h v + 1) = drop_bit h (mask_host h v)"
    unfolding e using assms by (intro bit_word_eqI) (auto simp: bit_simps bit_mask_host)
qed

text \<open>
  \<open>FirstAddr\<close> gives the address after the network address exactly when the prefix has a host
  bit. In particular it succeeds on a /31 and a /127.
\<close>

theorem FirstAddr_spec:
  assumes "prefix_wf p"
  shows "FirstAddr p =
           (if pfx_bits p < BitLen (pfx_ip p) then (Next (pfx_ip (Masked p)), True)
            else (AddrZero, False))"
proof (cases "pfx_ip p")
  case AddrZero
  then show ?thesis using assms by simp
next
  case (V4 v)
  show ?thesis
  proof (cases "pfx_bits p = 32")
    case True
    then show ?thesis
      using V4 assms
      by (simp add: FirstAddr_def Masked_V4 Contains_def prefix_valid_def Let_def)
  next
    case False
    then have "0 < nat (32 - pfx_bits p)" using V4 assms by simp
    then show ?thesis
      using False V4 assms
      by (simp add: FirstAddr_def Masked_V4 Contains_def prefix_valid_def Let_def mask_host_Suc(2,3)
            xor_zero_iff del: drop_bit_xor)
  qed
next
  case (V6 v z)
  show ?thesis
  proof (cases "pfx_bits p = 128")
    case True
    then show ?thesis
      using V6 assms
      by (simp add: FirstAddr_def Masked_V6 Contains_def prefix_valid_def Let_def)
  next
    case False
    then have "0 < nat (128 - pfx_bits p)" using V6 assms by simp
    then show ?thesis
      using False V6 assms
      by (simp add: FirstAddr_def Masked_V6 Contains_def prefix_valid_def Let_def mask_host_Suc(2,3)
            xor_zero_iff del: drop_bit_xor)
  qed
qed

theorem FirstAddr_spec_witness:
  "FirstAddr (PrefixFrom (V4 0x0A000000) 31) = (V4 0x0A000001, True)"
proof -
  let ?p = "PrefixFrom (V4 0x0A000000) 31"
  have "prefix_wf ?p" by code_simp
  moreover have "(if pfx_bits ?p < BitLen (pfx_ip ?p) then (Next (pfx_ip (Masked ?p)), True)
      else (AddrZero, False)) = (V4 0x0A000001, True)"
    by code_simp
  ultimately show ?thesis using FirstAddr_spec[of ?p] by (simp only:)
qed

end
