(* ===== verification/PoolRanges.thy ===== *)
theory PoolRanges
  imports AddressRange
begin

text \<open>
  The candidate address space of an ip-typed allocation pool
  (\<open>controller/internal/controller/allocation_ranges.go\<close>) and the count of its addresses
  (\<open>addresspool_counts.go\<close>).
\<close>

section \<open>The pool specification\<close>

record alloc_pool_ip_range =
  range_start :: string
  range_end :: string

record alloc_pool_ip_spec =
  CIDRs :: "string list"
  Ranges :: "alloc_pool_ip_range list"
  Excluded :: "string list"

datatype candidate_error =
    InvalidCIDR string
  | InvalidRangeStart string
  | InvalidRangeEnd string
  | RangeInvalidBound addr addr
  | RangeMixesFamilies addr addr
  | RangeStartsAfterEnd addr addr

section \<open>Candidate ranges (allocation\_ranges.go)\<close>

record ipRange =
  lo :: addr
  hi :: addr

definition ipRange_contains :: "ipRange \<Rightarrow> addr \<Rightarrow> bool" where
  "ipRange_contains r addr \<longleftrightarrow> addr_compare (lo r) addr \<le> 0 \<and> addr_compare (hi r) addr \<ge> 0"

definition ipRange_covers :: "ipRange \<Rightarrow> ipRange \<Rightarrow> bool" where
  "ipRange_covers r other \<longleftrightarrow> ipRange_contains r (lo other) \<and> ipRange_contains r (hi other)"

record candidateRange =
  span :: ipRange
  allocatable :: ipRange

definition prefixReservesEdges :: "prefix \<Rightarrow> bool" where
  "prefixReservesEdges p =
     (let n = BitLen (pfx_ip p)
      in if n = 32 then pfx_bits p < 31 else if n = 128 then pfx_bits p < 127 else False)"

definition candidateRangeFromPrefix :: "prefix \<Rightarrow> candidateRange" where
  "candidateRangeFromPrefix p0 =
     (let p = Masked p0;
          sp = \<lparr>lo = pfx_ip p, hi = LastAddr p\<rparr>
      in if \<not> prefixReservesEdges p then \<lparr>span = sp, allocatable = sp\<rparr>
         else \<lparr>span = sp, allocatable = \<lparr>lo = Next (lo sp), hi = Prev (hi sp)\<rparr>\<rparr>)"

definition candidateRangeFromBounds :: "addr \<Rightarrow> addr \<Rightarrow> candidate_error + candidateRange" where
  "candidateRangeFromBounds start0 end0 =
     (if \<not> IsValid start0 \<or> \<not> IsValid end0 then Inl (RangeInvalidBound start0 end0)
      else let start = Unmap start0; fin = Unmap end0
      in if BitLen start \<noteq> BitLen fin then Inl (RangeMixesFamilies start fin)
      else if addr_compare start fin > 0 then Inl (RangeStartsAfterEnd start fin)
      else let sp = \<lparr>lo = start, hi = fin\<rparr> in Inr \<lparr>span = sp, allocatable = sp\<rparr>)"

fun parsePrefixCandidates :: "string list \<Rightarrow> candidate_error + candidateRange list" where
  "parsePrefixCandidates [] = Inr []"
| "parsePrefixCandidates (raw # raws) =
     (case ParsePrefix raw of
        None \<Rightarrow> Inl (InvalidCIDR raw)
      | Some p \<Rightarrow>
          (case parsePrefixCandidates raws of
             Inl e \<Rightarrow> Inl e
           | Inr out \<Rightarrow> Inr (candidateRangeFromPrefix p # out)))"

fun parseRangeCandidates :: "alloc_pool_ip_range list \<Rightarrow> candidate_error + candidateRange list" where
  "parseRangeCandidates [] = Inr []"
| "parseRangeCandidates (raw # raws) =
     (case ParseAddr (range_start raw) of
        None \<Rightarrow> Inl (InvalidRangeStart (range_start raw))
      | Some start \<Rightarrow>
          (case ParseAddr (range_end raw) of
             None \<Rightarrow> Inl (InvalidRangeEnd (range_end raw))
           | Some fin \<Rightarrow>
               (case candidateRangeFromBounds start fin of
                  Inl e \<Rightarrow> Inl e
                | Inr candidate \<Rightarrow>
                    (case parseRangeCandidates raws of
                       Inl e \<Rightarrow> Inl e
                     | Inr out \<Rightarrow> Inr (candidate # out)))))"

definition parsePoolCandidates :: "alloc_pool_ip_spec \<Rightarrow> candidate_error + candidateRange list" where
  "parsePoolCandidates spec =
     (case parsePrefixCandidates (CIDRs spec) of
        Inl e \<Rightarrow> Inl e
      | Inr prefixes \<Rightarrow>
          (case parseRangeCandidates (Ranges spec) of
             Inl e \<Rightarrow> Inl e
           | Inr ranges \<Rightarrow> Inr (prefixes @ ranges)))"

definition intersectCandidates :: "candidateRange list \<Rightarrow> candidateRange list \<Rightarrow> candidateRange list" where
  "intersectCandidates candidates flt =
     [f \<leftarrow> flt. \<exists>c \<in> set candidates. ipRange_covers (span c) (span f)]"

definition candidatesContain :: "candidateRange list \<Rightarrow> addr \<Rightarrow> bool" where
  "candidatesContain candidates addr \<longleftrightarrow> (\<exists>c \<in> set candidates. ipRange_contains (span c) addr)"

text \<open>
  The inner loop of \<open>firstFitCandidate\<close> has no bound of its own: \<open>None\<close> is a loop that never ends.
\<close>

partial_function (option) firstFit_range :: "(addr, string) gomap \<Rightarrow> addr \<Rightarrow> addr \<Rightarrow> addr option option" where
  [code]: "firstFit_range used last_addr addr =
     (if map_of used addr = None then Some (Some addr)
      else if addr = last_addr then Some None
      else firstFit_range used last_addr (Next addr))"

fun firstFitCandidate :: "candidateRange list \<Rightarrow> (addr, string) gomap \<Rightarrow> (addr \<times> bool) option" where
  "firstFitCandidate [] used = Some (AddrZero, False)"
| "firstFitCandidate (c # cs) used =
     (case firstFit_range used (hi (allocatable c)) (lo (allocatable c)) of
        None \<Rightarrow> None
      | Some (Some addr) \<Rightarrow> Some (addr, True)
      | Some None \<Rightarrow> firstFitCandidate cs used)"

section \<open>Counting (addresspool\_counts.go)\<close>

record poolAddressCounts =
  total :: int
  allocated :: int
  available :: int

definition merge_step :: "ipRange list \<Rightarrow> ipRange \<Rightarrow> ipRange list" where
  "merge_step merged r =
     (if merged \<noteq> [] \<and> addr_compare (lo r) (hi (last merged)) \<le> 0 then
        (if addr_compare (hi r) (hi (last merged)) > 0
         then butlast merged @ [(last merged)\<lparr>hi := hi r\<rparr>] else merged)
      else merged @ [r])"

text \<open>
  \<open>sort.Slice\<close> leaves the order of equal keys open; \<open>merge_fold_spec\<close> below holds for every sorted
  order.
\<close>

definition mergeRanges :: "candidateRange list \<Rightarrow> ipRange list" where
  "mergeRanges candidates = foldl merge_step [] (sort_key lo (map allocatable candidates))"

definition rangesContain :: "ipRange list \<Rightarrow> addr \<Rightarrow> bool" where
  "rangesContain ranges addr \<longleftrightarrow> (\<exists>r \<in> set ranges. ipRange_contains r addr)"

definition big_SetBytes :: "u8 list \<Rightarrow> int" where
  "big_SetBytes bs = foldl (\<lambda>acc b. 256 * acc + uint b) 0 bs"

definition ipRange_size :: "ipRange \<Rightarrow> int" where
  "ipRange_size r = big_SetBytes (As16 (hi r)) - big_SetBytes (As16 (lo r)) + 1"

definition capInt64 :: "int \<Rightarrow> int" where
  "capInt64 v = (if \<not> (- (2 ^ 63) \<le> v \<and> v < 2 ^ 63) then 2 ^ 63 - 1 else v)"

fun excluded_in :: "ipRange list \<Rightarrow> string list \<Rightarrow> (addr, unit) gomap \<Rightarrow> (addr, unit) gomap" where
  "excluded_in space [] m = m"
| "excluded_in space (raw # raws) m =
     excluded_in space raws
       (case ParseAddr raw of
          Some addr \<Rightarrow> if rangesContain space addr then AList.update addr () m else m
        | None \<Rightarrow> m)"

definition countPoolAddresses ::
  "alloc_pool_ip_spec \<Rightarrow> (addr, string) gomap \<Rightarrow> candidate_error + poolAddressCounts" where
  "countPoolAddresses spec used =
     (case parsePoolCandidates spec of
        Inl e \<Rightarrow> Inl e
      | Inr candidates \<Rightarrow>
          (let space = mergeRanges candidates;
               excluded = excluded_in space (Excluded spec) [];
               alloc = int (length [a \<leftarrow> map fst used.
                              map_of excluded a = None \<and> rangesContain space a]);
               tot = sum_list (map ipRange_size space) - int (length excluded)
           in Inr \<lparr>total = capInt64 tot, allocated = alloc, available = capInt64 (tot - alloc)\<rparr>))"

section \<open>Well-formed ranges\<close>

text \<open>A range of zone-free addresses of one family, not empty.\<close>

definition ipRange_wf :: "ipRange \<Rightarrow> bool" where
  "ipRange_wf r \<longleftrightarrow> IsValid (lo r) \<and> BitLen (lo r) = BitLen (hi r) \<and> Zone (lo r) = [] \<and> Zone (hi r) = []
     \<and> lo r \<le> hi r"

definition ipRange_addrs :: "ipRange \<Rightarrow> addr set" where
  "ipRange_addrs r = addrs_between (lo r) (hi r)"

definition candidate_wf :: "candidateRange \<Rightarrow> bool" where
  "candidate_wf c \<longleftrightarrow> ipRange_wf (span c) \<and> ipRange_wf (allocatable c)
     \<and> ipRange_addrs (allocatable c) \<subseteq> ipRange_addrs (span c)"

lemma ipRange_contains_iff: "Zone a = [] \<Longrightarrow> ipRange_contains r a \<longleftrightarrow> a \<in> ipRange_addrs r"
  by (auto simp: ipRange_contains_def ipRange_addrs_def addrs_between_def)

lemma ipRange_addrs_finite [simp]: "ipRange_wf r \<Longrightarrow> finite (ipRange_addrs r)"
  by (simp add: ipRange_wf_def ipRange_addrs_def addrs_between_finite_card)

lemma ipRange_covers_subset: "ipRange_covers r s \<Longrightarrow> ipRange_addrs s \<subseteq> ipRange_addrs r"
  by (auto simp: ipRange_covers_def ipRange_contains_def ipRange_addrs_def addrs_between_def)

lemma unat_edges:
  fixes v :: "'a::len word"
  assumes "2 \<le> h" "h \<le> LENGTH('a)"
  shows "unat (mask_host h v) + 3 \<le> unat (mask_host h v OR mask h)"
proof -
  have "mask_host h v AND mask h = 0"
    by (rule bit_word_eqI) (auto simp: bit_simps bit_mask_host)
  then have e: "mask_host h v + mask h = mask_host h v OR mask h"
    by (rule disjunctive_add_eq_or)
  have le: "mask_host h v \<le> mask_host h v OR mask h"
    using block_interval[of h "mask_host h v" v] drop_bit_eq_iff_mask_host[of h "mask_host h v" v] by simp
  have "(mask_host h v OR mask h) - mask_host h v = mask h"
    by (simp add: e[symmetric])
  then have "unat (mask_host h v OR mask h) - unat (mask_host h v) = unat (mask h :: 'a word)"
    using le by (metis unat_sub)
  moreover have "unat (mask h :: 'a word) = mask h"
    using assms(2) by (intro bit_eqI) (auto simp: bit_simps)
  moreover have "(2 :: nat) ^ 2 \<le> 2 ^ h" using assms(1) by (intro power_increasing) auto
  ultimately show ?thesis using le by (simp add: word_le_nat_alt mask_eq_exp_minus_1)
qed

text \<open>The prefix interval leaves room for the two reserved addresses.\<close>

lemma reserved_edges_room:
  assumes "prefix_wf p" "prefixReservesEdges (Masked p)"
  shows "addr_num (pfx_ip (Masked p)) + 3 \<le> addr_num (LastAddr p)"
proof (cases "pfx_ip p")
  case AddrZero
  then show ?thesis using assms by simp
next
  case (V4 v)
  then have "pfx_bits p < 31" "0 \<le> pfx_bits p"
    using assms by (simp_all add: prefixReservesEdges_def Masked_V4 Let_def)
  then show ?thesis using V4 assms unat_edges[of "nat (32 - pfx_bits p)" v]
    by (simp add: Masked_V4 LastAddr_V4)
next
  case (V6 v z)
  then have "pfx_bits p < 127" "0 \<le> pfx_bits p"
    using assms by (simp_all add: prefixReservesEdges_def Masked_V6 Let_def)
  then show ?thesis using V6 assms unat_edges[of "nat (128 - pfx_bits p)" v]
    by (simp add: Masked_V6 LastAddr_V6)
qed

lemma prefix_span_wf:
  assumes "prefix_wf p"
  shows "ipRange_wf \<lparr>lo = pfx_ip (Masked p), hi = LastAddr p\<rparr>"
proof (cases "pfx_ip p")
  case (V4 v)
  then show ?thesis
    using assms block_interval[of "nat (32 - pfx_bits p)" "mask_host (nat (32 - pfx_bits p)) v" v]
    by (simp add: ipRange_wf_def Masked_V4 LastAddr_V4 drop_bit_eq_iff_mask_host)
next
  case (V6 v z)
  then show ?thesis
    using assms block_interval[of "nat (128 - pfx_bits p)" "mask_host (nat (128 - pfx_bits p)) v" v]
    by (simp add: ipRange_wf_def Masked_V6 LastAddr_V6 drop_bit_eq_iff_mask_host)
qed (use assms in simp)

lemma shrink_wf:
  assumes "ipRange_wf r" "addr_num (lo r) + 3 \<le> addr_num (hi r)"
  shows "ipRange_wf \<lparr>lo = Next (lo r), hi = Prev (hi r)\<rparr>"
    and "ipRange_addrs \<lparr>lo = Next (lo r), hi = Prev (hi r)\<rparr> = ipRange_addrs r - {lo r, hi r}"
proof -
  have v: "IsValid (Next (lo r))" "IsValid (Prev (hi r))"
    using assms addr_num_less[of "hi r"] by (auto intro!: Next_valid Prev_valid simp: ipRange_wf_def)
  note facts = Next_facts[OF v(1)] Prev_facts[OF v(2)]
  show "ipRange_wf \<lparr>lo = Next (lo r), hi = Prev (hi r)\<rparr>"
    using assms v facts by (simp add: ipRange_wf_def zoneless_le_iff)
  show "ipRange_addrs \<lparr>lo = Next (lo r), hi = Prev (hi r)\<rparr> = ipRange_addrs r - {lo r, hi r}"
  proof (intro set_eqI)
    fix a
    show "a \<in> ipRange_addrs \<lparr>lo = Next (lo r), hi = Prev (hi r)\<rparr> \<longleftrightarrow> a \<in> ipRange_addrs r - {lo r, hi r}"
    proof (cases "Zone a = [] \<and> BitLen a = BitLen (lo r)")
      case True
      then show ?thesis
        using assms facts
        by (auto simp: ipRange_addrs_def addrs_between_def ipRange_wf_def zoneless_le_iff zoneless_eq_iff)
    next
      case False
      then show ?thesis
        using assms facts BitLen_between[of "lo r" a "hi r"]
          BitLen_between[of "Next (lo r)" a "Prev (hi r)"]
        by (auto simp: ipRange_addrs_def addrs_between_def ipRange_wf_def)
    qed
  qed
qed

lemma candidateRangeFromPrefix_wf:
  assumes "prefix_wf p"
  shows "candidate_wf (candidateRangeFromPrefix p)"
proof (cases "prefixReservesEdges (Masked p)")
  case True
  show ?thesis
    using True assms prefix_span_wf[OF assms] reserved_edges_room[OF assms True]
      shrink_wf[OF prefix_span_wf[OF assms]]
    by (auto simp: candidateRangeFromPrefix_def candidate_wf_def Let_def simp del: prefix_wf.simps)
next
  case False
  then show ?thesis
    using assms prefix_span_wf[OF assms]
    by (simp add: candidateRangeFromPrefix_def candidate_wf_def Let_def del: prefix_wf.simps)
qed

lemma parseIPv6_zone:
  "parseIPv6 s = Some a \<Longrightarrow> Zone a = drop 1 (dropWhile (\<lambda>c. c \<noteq> CHR ''%'') s)"
  by (auto simp: parseIPv6_def Let_def split: if_splits option.splits)

lemma parseIPv6_zoneless:
  assumes "CHR ''%'' \<notin> set s" "parseIPv6 s = Some a"
  shows "Zone a = []"
proof -
  have "dropWhile (\<lambda>c. c \<noteq> CHR ''%'') s = []"
    unfolding dropWhile_eq_Nil_conv using assms(1) by blast
  then show ?thesis using parseIPv6_zone[OF assms(2)] by (simp only: drop_Nil)
qed

lemma ParseAddr_scan_zoneless: "CHR ''%'' \<notin> set s \<Longrightarrow> ParseAddr_scan s t = Some a \<Longrightarrow> Zone a = []"
  by (induction t) (auto simp: parseIPv4_def parseIPv6_zoneless split: if_splits)

lemma ParseAddr_zoneless: "CHR ''%'' \<notin> set s \<Longrightarrow> ParseAddr s = Some a \<Longrightarrow> Zone a = []"
  by (simp add: ParseAddr_def ParseAddr_scan_zoneless)

lemma Unmap_zoneless: "Zone a = [] \<Longrightarrow> Zone (Unmap a) = []"
  by (cases a) auto

lemma Unmap_valid: "IsValid a \<Longrightarrow> IsValid (Unmap a)"
  by (cases a) auto

lemma candidateRangeFromBounds_wf:
  "candidateRangeFromBounds s e = Inr c \<Longrightarrow> Zone s = [] \<Longrightarrow> Zone e = [] \<Longrightarrow> candidate_wf c"
  by (auto simp: candidateRangeFromBounds_def Let_def candidate_wf_def ipRange_wf_def Unmap_zoneless
        Unmap_valid not_less split: if_splits)

definition ranges_zoneless :: "alloc_pool_ip_range list \<Rightarrow> bool" where
  "ranges_zoneless rs \<longleftrightarrow>
     (\<forall>r \<in> set rs. CHR ''%'' \<notin> set (range_start r) \<and> CHR ''%'' \<notin> set (range_end r))"

lemma parsePrefixCandidates_wf:
  "parsePrefixCandidates raws = Inr cs \<Longrightarrow> c \<in> set cs \<Longrightarrow> candidate_wf c"
  by (induction raws arbitrary: cs)
    (auto split: option.splits sum.splits dest!: ParsePrefix_wf intro: candidateRangeFromPrefix_wf
      simp del: prefix_wf.simps)

lemma parseRangeCandidates_wf:
  "parseRangeCandidates raws = Inr cs \<Longrightarrow> ranges_zoneless raws \<Longrightarrow> c \<in> set cs \<Longrightarrow> candidate_wf c"
  by (induction raws arbitrary: cs)
    (auto simp: ranges_zoneless_def split: option.splits sum.splits
      intro: candidateRangeFromBounds_wf[OF _ ParseAddr_zoneless ParseAddr_zoneless])

lemma parsePoolCandidates_wf:
  assumes "parsePoolCandidates spec = Inr cs" "ranges_zoneless (Ranges spec)" "c \<in> set cs"
  shows "candidate_wf c"
  using assms parsePrefixCandidates_wf parseRangeCandidates_wf
  by (auto simp: parsePoolCandidates_def split: sum.splits)

section \<open>First fit\<close>

declare firstFit_range.simps [simp del]

lemma addrs_between_Next:
  assumes "BitLen a = BitLen h" "Zone a = []" "Zone h = []" "IsValid a" "a < h"
  shows "IsValid (Next a)" "Next a \<le> h" "BitLen (Next a) = BitLen h" "Zone (Next a) = []"
    "addr_num (Next a) = addr_num a + 1" "addrs_between a h = insert a (addrs_between (Next a) h)"
proof -
  have n: "addr_num a < addr_num h"
    using assms by (metis less_le not_le zoneless_eq_iff zoneless_le_iff)
  then show v: "IsValid (Next a)"
    using assms addr_num_less[of h] by (intro Next_valid) auto
  note facts = Next_facts[OF v]
  show "Next a \<le> h" "BitLen (Next a) = BitLen h" "Zone (Next a) = []" "addr_num (Next a) = addr_num a + 1"
    using n assms facts by (simp_all add: zoneless_le_iff)
  show "addrs_between a h = insert a (addrs_between (Next a) h)"
  proof (intro set_eqI)
    fix x
    show "x \<in> addrs_between a h \<longleftrightarrow> x \<in> insert a (addrs_between (Next a) h)"
    proof (cases "Zone x = [] \<and> BitLen x = BitLen h")
      case True
      then show ?thesis
        using n assms facts by (auto simp: addrs_between_def zoneless_le_iff zoneless_eq_iff)
    next
      case False
      then show ?thesis
        using assms facts BitLen_between[of a x h] BitLen_between[of "Next a" x h]
        by (auto simp: addrs_between_def)
    qed
  qed
qed

text \<open>The scan of one range returns: the lowest free address, or nothing when all are taken.\<close>

definition lowest_free :: "(addr, string) gomap \<Rightarrow> addr set \<Rightarrow> addr \<Rightarrow> bool" where
  "lowest_free used A x \<longleftrightarrow> x \<in> A \<and> map_of used x = None \<and> (\<forall>y \<in> A. y < x \<longrightarrow> map_of used y \<noteq> None)"

lemma firstFit_range_returns:
  assumes "BitLen a = BitLen h" "Zone a = []" "Zone h = []" "IsValid a" "a \<le> h"
  shows "(\<exists>x. firstFit_range used h a = Some (Some x) \<and> lowest_free used (addrs_between a h) x) \<or>
         (firstFit_range used h a = Some None \<and> (\<forall>y \<in> addrs_between a h. map_of used y \<noteq> None))"
  using assms
proof (induction "addr_num h - addr_num a" arbitrary: a)
  case 0
  then have "a = h" using zoneless_le_iff[of a h] by (auto simp: zoneless_eq_iff)
  then show ?case
    using 0 by (auto simp: firstFit_range.simps lowest_free_def addrs_between_def)
next
  case (Suc n)
  then have "a < h" by (metis diff_self_eq_0 le_less nat.distinct(1))
  note nx = addrs_between_Next[OF Suc.prems(1-4) this]
  have "n = addr_num h - addr_num (Next a)" using Suc.hyps(2) nx by simp
  note IH = Suc.hyps(1)[OF this nx(3,4) Suc.prems(3) nx(1,2)]
  have lt: "a < y" if "y \<in> addrs_between (Next a) h" for y
  proof -
    have "BitLen y = BitLen h" "Zone y = []"
      using that nx BitLen_between[of "Next a" y h] by (auto simp: addrs_between_def)
    then show ?thesis
      using that nx Suc.prems by (auto simp: addrs_between_def zoneless_le_iff not_le[symmetric])
  qed
  show ?case
  proof (cases "map_of used a")
    case None
    then show ?thesis
      using Suc.prems by (auto simp: firstFit_range.simps lowest_free_def addrs_between_def)
  next
    case (Some u)
    then have "firstFit_range used h a = firstFit_range used h (Next a)"
      using \<open>a < h\<close> by (subst firstFit_range.simps) auto
    then show ?thesis using IH Some nx(6) lt by (auto simp: lowest_free_def)
  qed
qed

lemma firstFit_allocatable:
  assumes "ipRange_wf r"
  shows "(\<exists>x. firstFit_range used (hi r) (lo r) = Some (Some x) \<and> lowest_free used (ipRange_addrs r) x) \<or>
         (firstFit_range used (hi r) (lo r) = Some None \<and> (\<forall>y \<in> ipRange_addrs r. map_of used y \<noteq> None))"
  using assms firstFit_range_returns[of "lo r" "hi r" used]
  by (simp add: ipRange_wf_def ipRange_addrs_def)

text \<open>
  C21. First fit always returns. It hands out the lowest free address of the first candidate that has
  one, and gives up only when every allocatable address of every candidate is taken.
\<close>

theorem firstFitCandidate_spec:
  assumes "\<forall>c \<in> set cs. candidate_wf c"
  shows "(\<exists>x pre c post.
            firstFitCandidate cs used = Some (x, True) \<and> cs = pre @ c # post
          \<and> lowest_free used (ipRange_addrs (allocatable c)) x
          \<and> (\<forall>d \<in> set pre. \<forall>y \<in> ipRange_addrs (allocatable d). map_of used y \<noteq> None))
       \<or> (firstFitCandidate cs used = Some (AddrZero, False)
          \<and> (\<forall>c \<in> set cs. \<forall>y \<in> ipRange_addrs (allocatable c). map_of used y \<noteq> None))"
  using assms
proof (induction cs)
  case Nil
  then show ?case by simp
next
  case (Cons c cs)
  then have "ipRange_wf (allocatable c)" by (simp add: candidate_wf_def)
  from firstFit_allocatable[OF this, of used] show ?case
  proof (elim disjE exE conjE)
    fix x
    assume "firstFit_range used (hi (allocatable c)) (lo (allocatable c)) = Some (Some x)"
      "lowest_free used (ipRange_addrs (allocatable c)) x"
    then show ?thesis
      by (intro disjI1 exI[of _ x] exI[of _ "[]"] exI[of _ c] exI[of _ cs]) simp
  next
    assume n: "firstFit_range used (hi (allocatable c)) (lo (allocatable c)) = Some None"
      "\<forall>y \<in> ipRange_addrs (allocatable c). map_of used y \<noteq> None"
    from Cons have "\<forall>c \<in> set cs. candidate_wf c" by simp
    from Cons.IH[OF this] show ?thesis
    proof (elim disjE exE conjE)
      fix x pre d post
      assume "firstFitCandidate cs used = Some (x, True)" "cs = pre @ d # post"
        "lowest_free used (ipRange_addrs (allocatable d)) x"
        "\<forall>d \<in> set pre. \<forall>y \<in> ipRange_addrs (allocatable d). map_of used y \<noteq> None"
      then show ?thesis
        using n by (intro disjI1 exI[of _ x] exI[of _ "c # pre"] exI[of _ d] exI[of _ post]) simp
    qed (use n in simp)
  qed
qed

theorem firstFitCandidate_spec_witness:
  "let cs = [candidateRangeFromPrefix (PrefixFrom (V4 0x0A000000) 30)]; used = [(V4 0x0A000001, ''a'')]
   in (\<exists>x pre c post.
         firstFitCandidate cs used = Some (x, True) \<and> cs = pre @ c # post
       \<and> lowest_free used (ipRange_addrs (allocatable c)) x
       \<and> (\<forall>d \<in> set pre. \<forall>y \<in> ipRange_addrs (allocatable d). map_of used y \<noteq> None))
    \<or> (firstFitCandidate cs used = Some (AddrZero, False)
       \<and> (\<forall>c \<in> set cs. \<forall>y \<in> ipRange_addrs (allocatable c). map_of used y \<noteq> None))"
proof -
  have "prefix_wf (PrefixFrom (V4 0x0A000000) 30)" by code_simp
  then have "\<forall>c \<in> set [candidateRangeFromPrefix (PrefixFrom (V4 0x0A000000) 30)]. candidate_wf c"
    by (simp add: candidateRangeFromPrefix_wf del: prefix_wf.simps)
  from firstFitCandidate_spec[OF this] show ?thesis by (simp only: Let_def)
qed

section \<open>Merging\<close>

text \<open>Sorted ranges with a gap, or at least no shared address, between neighbours.\<close>

definition merged_ok :: "ipRange list \<Rightarrow> bool" where
  "merged_ok ms \<longleftrightarrow> (\<forall>r \<in> set ms. ipRange_wf r) \<and> sorted_wrt (\<lambda>r s. hi r < lo s) ms"

definition ranges_addrs :: "ipRange list \<Rightarrow> addr set" where
  "ranges_addrs rs = (\<Union>r \<in> set rs. ipRange_addrs r)"

lemma join_ranges:
  assumes "ipRange_wf m" "ipRange_wf r" "lo m \<le> lo r" "lo r \<le> hi m"
  shows "ipRange_wf (m\<lparr>hi := max (hi m) (hi r)\<rparr>)"
    and "ipRange_addrs (m\<lparr>hi := max (hi m) (hi r)\<rparr>) = ipRange_addrs m \<union> ipRange_addrs r"
proof -
  have "BitLen (lo r) = BitLen (lo m)"
    using assms BitLen_between[of "lo m" "lo r" "hi m"] by (simp add: ipRange_wf_def)
  then show "ipRange_wf (m\<lparr>hi := max (hi m) (hi r)\<rparr>)"
    using assms by (auto simp: ipRange_wf_def max_def)
  show "ipRange_addrs (m\<lparr>hi := max (hi m) (hi r)\<rparr>) = ipRange_addrs m \<union> ipRange_addrs r"
    using assms by (auto simp: ipRange_addrs_def addrs_between_def max_def)
qed

lemma merge_step_max:
  "merge_step (ms @ [m]) r =
     (if lo r \<le> hi m then ms @ [m\<lparr>hi := max (hi m) (hi r)\<rparr>] else ms @ [m, r])"
  by (auto simp: merge_step_def max_def)

lemma merge_step_ok:
  assumes "merged_ok ms" "ipRange_wf r" "\<forall>m \<in> set ms. lo m \<le> lo r"
  shows "merged_ok (merge_step ms r)"
    and "ranges_addrs (merge_step ms r) = ranges_addrs ms \<union> ipRange_addrs r"
    and "lo r \<le> x \<Longrightarrow> \<forall>m \<in> set (merge_step ms r). lo m \<le> x"
proof -
  have "merged_ok (merge_step ms r) \<and> ranges_addrs (merge_step ms r) = ranges_addrs ms \<union> ipRange_addrs r
      \<and> (lo r \<le> x \<longrightarrow> (\<forall>m \<in> set (merge_step ms r). lo m \<le> x))"
  proof (cases ms rule: rev_cases)
    case Nil
    then show ?thesis using assms by (auto simp: merge_step_def merged_ok_def ranges_addrs_def)
  next
    case (snoc ms' m)
    then have wf: "ipRange_wf m" "lo m \<le> lo r" using assms by (auto simp: merged_ok_def)
    show ?thesis
    proof (cases "lo r \<le> hi m")
      case True
      note j = join_ranges[OF wf(1) assms(2) wf(2) True]
      show ?thesis
        using assms True snoc j
        by (auto simp: merge_step_max merged_ok_def ranges_addrs_def sorted_wrt_append intro: order_trans)
    next
      case False
      have "hi k < lo r" if "k \<in> set ms'" for k
        using that assms(1) snoc False wf(1)
        by (auto simp: merged_ok_def sorted_wrt_append ipRange_wf_def not_le intro: less_trans
              order.strict_trans1 dest!: bspec)
      then show ?thesis
        using assms False snoc
        by (auto simp: merge_step_max merged_ok_def ranges_addrs_def sorted_wrt_append intro: order_trans)
    qed
  qed
  then show "merged_ok (merge_step ms r)"
    "ranges_addrs (merge_step ms r) = ranges_addrs ms \<union> ipRange_addrs r"
    "lo r \<le> x \<Longrightarrow> \<forall>m \<in> set (merge_step ms r). lo m \<le> x"
    by blast+
qed

lemma merge_fold_spec:
  assumes "\<forall>r \<in> set rs. ipRange_wf r" "sorted (map lo rs)"
    and "merged_ok ms" "\<forall>m \<in> set ms. \<forall>r \<in> set rs. lo m \<le> lo r"
  shows "merged_ok (foldl merge_step ms rs)
       \<and> ranges_addrs (foldl merge_step ms rs) = ranges_addrs ms \<union> ranges_addrs rs"
  using assms
proof (induction rs arbitrary: ms)
  case Nil
  then show ?case by (simp add: ranges_addrs_def)
next
  case (Cons r rs)
  then have "\<forall>m \<in> set ms. lo m \<le> lo r" "ipRange_wf r" by auto
  note st = merge_step_ok[OF Cons.prems(3) this(2,1)]
  have "\<forall>m \<in> set (merge_step ms r). \<forall>s \<in> set rs. lo m \<le> lo s"
    using st(3) Cons.prems(2) by auto
  then show ?case
    using Cons.IH[of "merge_step ms r"] Cons.prems st(1,2) by (auto simp: ranges_addrs_def)
qed

lemma mergeRanges_spec:
  assumes "\<forall>c \<in> set cs. candidate_wf c"
  shows "merged_ok (mergeRanges cs)"
    and "ranges_addrs (mergeRanges cs) = (\<Union>c \<in> set cs. ipRange_addrs (allocatable c))"
  using merge_fold_spec[of "sort_key lo (map allocatable cs)" "[]"] assms
  by (auto simp: mergeRanges_def candidate_wf_def merged_ok_def ranges_addrs_def)

subsection \<open>Sizes\<close>

lemma be_word_big: "(be_word bs :: 'a::len word) = word_of_int (big_SetBytes bs)"
proof (induction bs rule: rev_induct)
  case Nil
  then show ?case by (simp add: big_SetBytes_def)
next
  case (snoc b bs)
  let ?w = "be_word bs :: 'a word"
  have "push_bit 8 ?w AND ucast b = 0"
    by (rule bit_word_eqI) (auto simp: bit_simps dest: bit_imp_le_length)
  then have "(be_word (bs @ [b]) :: 'a word) = push_bit 8 ?w + ucast b"
    by (simp add: disjunctive_add_eq_or)
  also have "\<dots> = 256 * word_of_int (big_SetBytes bs) + word_of_int (uint b)"
    using snoc by (simp add: push_bit_eq_mult mult.commute)
  finally show ?case by (simp add: big_SetBytes_def)
qed

lemma big_SetBytes_bound: "0 \<le> big_SetBytes bs \<and> big_SetBytes bs < 256 ^ length bs"
proof (induction bs rule: rev_induct)
  case Nil
  then show ?case by (simp add: big_SetBytes_def)
next
  case (snoc b bs)
  have "uint b < 256" "0 \<le> uint b" using unsigned_less[of b] by simp_all
  then show ?case using snoc by (simp add: big_SetBytes_def)
qed

lemma big_SetBytes_be_bytes: "big_SetBytes (be_bytes 16 (w :: u128)) = uint w"
proof -
  have "uint w = uint (word_of_int (big_SetBytes (be_bytes 16 w)) :: u128)"
    by (simp add: be_word_big[symmetric])
  then show ?thesis
    using big_SetBytes_bound[of "be_bytes 16 w"] by (simp add: take_bit_int_eq_self uint_word_of_int_eq)
qed

lemma big_SetBytes_zeros [simp]: "big_SetBytes (replicate n 0 @ bs) = big_SetBytes bs"
  by (induction n) (simp_all add: big_SetBytes_def)

lemma big_SetBytes_V4: "big_SetBytes (As16 (V4 w)) = 0xFFFF * 2 ^ 32 + uint w"
proof -
  obtain a b c d where bs: "be_bytes 4 w = [a, b, c, d]"
    by (rule length_4E[of "be_bytes 4 w"]) simp
  have "uint w = uint (word_of_int (big_SetBytes (be_bytes 4 w)) :: u32)"
    by (simp add: be_word_big[symmetric])
  then have "uint w = big_SetBytes (be_bytes 4 w)"
    using big_SetBytes_bound[of "be_bytes 4 w"] by (simp add: take_bit_int_eq_self uint_word_of_int_eq)
  moreover have "big_SetBytes (As16 (V4 w)) = big_SetBytes [0xFF, 0xFF, a, b, c, d]"
    by (simp add: bs)
  ultimately show ?thesis by (simp add: bs big_SetBytes_def)
qed

lemma big_SetBytes_addr:
  assumes "BitLen a = BitLen b"
  shows "big_SetBytes (As16 b) - big_SetBytes (As16 a) = int (addr_num b) - int (addr_num a)"
  using assms
  by (cases a; cases b)
    (simp_all add: big_SetBytes_V4 big_SetBytes_be_bytes del: As16.simps(2))

lemma ipRange_size_card:
  assumes "ipRange_wf r"
  shows "ipRange_size r = int (card (ipRange_addrs r))"
proof -
  have "addr_num (lo r) \<le> addr_num (hi r)" using assms by (simp add: ipRange_wf_def addr_le_num)
  then show ?thesis
    using assms
    by (simp add: ipRange_size_def big_SetBytes_addr ipRange_wf_def ipRange_addrs_def
          addrs_between_finite_card of_nat_diff)
qed

lemma merged_disjoint: "merged_ok (r # rs) \<Longrightarrow> ipRange_addrs r \<inter> ranges_addrs rs = {}"
  by (fastforce simp: merged_ok_def ranges_addrs_def ipRange_addrs_def addrs_between_def)

lemma merged_finite: "merged_ok rs \<Longrightarrow> finite (ranges_addrs rs)"
  by (auto simp: merged_ok_def ranges_addrs_def)

lemma merged_size: "merged_ok rs \<Longrightarrow> sum_list (map ipRange_size rs) = int (card (ranges_addrs rs))"
proof (induction rs)
  case Nil
  then show ?case by (simp add: ranges_addrs_def)
next
  case (Cons r rs)
  then have ok: "merged_ok rs" "ipRange_wf r" by (simp_all add: merged_ok_def)
  have "ranges_addrs (r # rs) = ipRange_addrs r \<union> ranges_addrs rs" by (simp add: ranges_addrs_def)
  then have "card (ranges_addrs (r # rs)) = card (ipRange_addrs r) + card (ranges_addrs rs)"
    using merged_disjoint[OF Cons.prems] merged_finite[OF ok(1)] ok(2) by (simp add: card_Un_disjoint)
  then show ?case using Cons.IH[OF ok(1)] ok(2) by (simp add: ipRange_size_card)
qed

subsection \<open>Counts\<close>

lemma rangesContain_iff: "Zone a = [] \<Longrightarrow> rangesContain rs a \<longleftrightarrow> a \<in> ranges_addrs rs"
  by (auto simp: rangesContain_def ranges_addrs_def ipRange_contains_iff)

definition excluded_addrs :: "string list \<Rightarrow> addr set" where
  "excluded_addrs raws = {a. \<exists>raw \<in> set raws. ParseAddr raw = Some a}"

lemma excluded_in_spec:
  assumes "gomap_wf m" "\<forall>raw \<in> set raws. CHR ''%'' \<notin> set raw"
  shows "gomap_wf (excluded_in space raws m)
    \<and> dom (map_of (excluded_in space raws m)) =
        dom (map_of m) \<union> (excluded_addrs raws \<inter> ranges_addrs space)"
  using assms
proof (induction raws arbitrary: m)
  case Nil
  then show ?case by (simp add: excluded_addrs_def)
next
  case (Cons raw raws)
  show ?case
  proof (cases "ParseAddr raw")
    case None
    then show ?thesis using Cons by (auto simp: excluded_addrs_def)
  next
    case (Some a)
    then have "Zone a = []" using Cons.prems(2) by (auto intro: ParseAddr_zoneless)
    then show ?thesis
      using Cons.IH[of m] Cons.IH[of "AList.update a () m"] Cons.prems Some
      by (auto simp: excluded_addrs_def rangesContain_iff distinct_update update_conv' split: if_splits)
  qed
qed

lemma gomap_card: "gomap_wf m \<Longrightarrow> length m = card (dom (map_of m))"
  by (metis distinct_card dom_map_of_conv_image_fst image_set length_map)

lemma gomap_count:
  assumes "gomap_wf m"
  shows "length [a \<leftarrow> map fst m. P a] = card {a \<in> dom (map_of m). P a}"
proof -
  have "length [a \<leftarrow> map fst m. P a] = card (set [a \<leftarrow> map fst m. P a])"
    using assms by (simp only: distinct_card distinct_filter)
  also have "set [a \<leftarrow> map fst m. P a] = {a \<in> dom (map_of m). P a}"
    by (auto simp: dom_map_of_conv_image_fst)
  finally show ?thesis .
qed

text \<open>
  C22. The counts of a pool are the sizes of address sets: \<open>S\<close>, what first fit may hand out, has \<open>total\<close>
  addresses, \<open>allocated\<close> of them are in use and \<open>available\<close> are free, whatever the overlap between the
  entries of the pool; a number that does not fit 63 bits is capped. Addresses in use or excluded that
  lie outside the pool change nothing.
\<close>

theorem countPoolAddresses_spec:
  assumes cs: "parsePoolCandidates spec = Inr cs"
    and zl: "ranges_zoneless (Ranges spec)" "\<forall>raw \<in> set (Excluded spec). CHR ''%'' \<notin> set raw"
    and used: "gomap_wf used" "\<forall>a \<in> dom (map_of used). Zone a = []"
    and S: "S = (\<Union>c \<in> set cs. ipRange_addrs (allocatable c)) - excluded_addrs (Excluded spec)"
  shows "countPoolAddresses spec used =
           Inr \<lparr>total = capInt64 (int (card S)),
                allocated = int (card (S \<inter> dom (map_of used))),
                available = capInt64 (int (card (S - dom (map_of used))))\<rparr>"
proof -
  define space where "space = mergeRanges cs"
  define exc where "exc = excluded_in space (Excluded spec) []"
  have wf: "\<forall>c \<in> set cs. candidate_wf c" using parsePoolCandidates_wf[OF cs zl(1)] by blast
  note m = mergeRanges_spec[OF wf, folded space_def]
  note f = merged_finite[OF m(1)]
  have e: "gomap_wf exc" "dom (map_of exc) = excluded_addrs (Excluded spec) \<inter> ranges_addrs space"
    using excluded_in_spec[of "[]" "Excluded spec" space] zl(2) by (auto simp: exc_def)
  have S': "S = ranges_addrs space - dom (map_of exc)" using S m(2) e(2) by blast
  have tot: "sum_list (map ipRange_size space) - int (length exc) = int (card S)"
    using merged_size[OF m(1)] gomap_card[OF e(1)] f
    by (simp add: S' e(2) card_Diff_subset_Int card_mono of_nat_diff Int_absorb1 Int_commute)
  have "rangesContain space a \<longleftrightarrow> a \<in> ranges_addrs space" if "a \<in> dom (map_of used)" for a
    using that used(2) rangesContain_iff by blast
  then have "{a \<in> dom (map_of used). map_of exc a = None \<and> rangesContain space a} = S \<inter> dom (map_of used)"
    unfolding S' set_eq_iff Int_iff Diff_iff mem_Collect_eq domIff by metis
  then have al: "length [a \<leftarrow> map fst used. map_of exc a = None \<and> rangesContain space a]
      = card (S \<inter> dom (map_of used))"
    using gomap_count[OF used(1), of "\<lambda>a. map_of exc a = None \<and> rangesContain space a"] by simp
  have "finite S" using f S' by simp
  then have av: "int (card S) - int (card (S \<inter> dom (map_of used))) = int (card (S - dom (map_of used)))"
    by (simp add: card_Diff_subset_Int card_mono of_nat_diff)
  show ?thesis
    unfolding countPoolAddresses_def cs using tot al av
    by (simp add: Let_def space_def[symmetric] exc_def[symmetric])
qed

theorem countPoolAddresses_spec_witness:
  "countPoolAddresses \<lparr>CIDRs = [''10.0.0.0/30''], Ranges = [], Excluded = [''10.0.0.1'']\<rparr> [(V4 0x0A000002, ''c'')]
     = Inr \<lparr>total = capInt64 (int (card ((\<Union>c \<in> set [candidateRangeFromPrefix (PrefixFrom (V4 0x0A000000) 30)].
                 ipRange_addrs (allocatable c)) - excluded_addrs [''10.0.0.1'']))),
            allocated = int (card (((\<Union>c \<in> set [candidateRangeFromPrefix (PrefixFrom (V4 0x0A000000) 30)].
                 ipRange_addrs (allocatable c)) - excluded_addrs [''10.0.0.1''])
                 \<inter> dom (map_of [(V4 0x0A000002, ''c'')]))),
            available = capInt64 (int (card (((\<Union>c \<in> set [candidateRangeFromPrefix (PrefixFrom (V4 0x0A000000) 30)].
                 ipRange_addrs (allocatable c)) - excluded_addrs [''10.0.0.1''])
                 - dom (map_of [(V4 0x0A000002, ''c'')]))))\<rparr>"
proof -
  let ?spec = "\<lparr>CIDRs = [''10.0.0.0/30''], Ranges = [], Excluded = [''10.0.0.1'']\<rparr>"
  have "parsePoolCandidates ?spec = Inr [candidateRangeFromPrefix (PrefixFrom (V4 0x0A000000) 30)]"
    by code_simp
  from countPoolAddresses_spec[OF this _ _ _ _ refl, of "[(V4 0x0A000002, ''c'')]"]
  show ?thesis by (simp add: ranges_zoneless_def)
qed

end
