(* ===== verification/AllocTypes.thy ===== *)
theory AllocTypes
  imports PoolRanges
begin

text \<open>
  The allocation resources (\<open>controller/api/v1alpha1/allocation*_types.go\<close>), the helpers of
  \<open>allocation_helpers.go\<close>, and the cluster client the controllers talk to. The client, the clock, the
  condition helpers, the finalizer helpers and the retry loop are third-party code: they are the
  fields of the record \<open>kube\<close>, over an abstract state of the cluster. Error texts are kept as values.
\<close>

section \<open>Resources\<close>

record retain_ref =
  rr_apiVersion :: string
  rr_kind :: string
  rr_namespace :: string
  rr_name :: string

record ni_identity =
  ni_namespace :: string
  ni_allocationIdentity :: string
  ni_interface :: string

record alloc_value =
  av_number :: u64
  av_ip :: string

record resource_ref =
  res_apiVersion :: string
  res_kind :: string
  res_namespace :: string
  res_name :: string

datatype kube_error = NotFound | AlreadyExists | Conflict | NoMatch | NotRegistered | ApiError string

datatype alloc_error =
    Kube kube_error
  | AllPoolsExhausted
  | PoolMissing string
  | UnsupportedType string string
  | NumberSpecNil string
  | RequestedNumberOutside u64 string
  | RequestedNumberTaken u64 string
  | IPSpecNil string
  | InvalidCandidateSpace string candidate_error
  | InvalidFilter string candidate_error
  | RequestedIPInvalid string
  | RequestedIPOutside string string
  | RequestedIPTaken string string
  | ListClaimsFailed string kube_error
  | ListLeasesFailed string kube_error
  | OwnerTypeUnknown string string
  | OwnerNotFound string string
  | NeverReturns

text \<open>Messages of status conditions, by the value they are rendered from.\<close>

datatype cond_message =
    NoMessage
  | Text string
  | ErrorText alloc_error
  | RetainFailed string alloc_error
  | StillExists string

record condition =
  cond_type :: string
  cond_status :: bool
  cond_reason :: string
  cond_message :: cond_message
  cond_observedGeneration :: int

record claim =
  cl_name :: string
  cl_uid :: string
  cl_generation :: int
  cl_deletionTimestamp :: "int option"
  cl_finalizers :: "string list"
  cl_poolRefs :: "string list"
  cl_resourceRef :: resource_ref
  cl_attribute :: string
  cl_requestedNumber :: "u64 option"
  cl_requestedIP :: "string option"
  cl_allocationFilter :: "string list option"
  cl_releaseAfter :: "int option"
  cl_reuseKey :: string
  cl_retainWhile :: "retain_ref option"
  cl_networkInterface :: "ni_identity option"
  cl_observedGeneration :: int
  cl_conditions :: "condition list"
  cl_phase :: string
  cl_value :: alloc_value

record claim_ref =
  cr_name :: string
  cr_uid :: string

record lease_spec =
  ls_poolRef :: string
  ls_value :: alloc_value
  ls_claimRef :: claim_ref
  ls_ownerDeletionTimestamp :: "int option"
  ls_ttlSeconds :: "32 word option"
  ls_retainWhile :: "retain_ref option"
  ls_networkInterface :: "ni_identity option"

record lease_status =
  lst_observedGeneration :: int
  lst_phase :: string
  lst_expiresAt :: "int option"
  lst_retainReleasedAt :: "int option"
  lst_conditions :: "condition list"

record lease =
  le_name :: string
  le_uid :: string
  le_generation :: int
  le_deletionTimestamp :: "int option"
  le_ownerRef :: "string option"
  le_spec :: lease_spec
  le_status :: lease_status

record number_spec =
  num_min :: u64
  num_max :: u64

record pool_status =
  ps_observedGeneration :: int
  ps_allocationVersion :: u64
  ps_lastAllocatedNumber :: u64
  ps_lastAllocatedIP :: string
  ps_conditions :: "condition list"

record pool =
  po_name :: string
  po_generation :: int
  po_deletionTimestamp :: "int option"
  po_type :: string
  po_strategy :: string
  po_number :: "number_spec option"
  po_ip :: "alloc_pool_ip_spec option"
  po_status :: pool_status

definition AllocationTypeNumber :: string where "AllocationTypeNumber = ''number''"
definition AllocationTypeIP :: string where "AllocationTypeIP = ''ip''"
definition AllocationClaimPhasePending :: string where "AllocationClaimPhasePending = ''Pending''"
definition AllocationClaimPhaseAllocated :: string where "AllocationClaimPhaseAllocated = ''Allocated''"
definition StatusReady :: string where "StatusReady = ''Ready''"

definition empty_value :: alloc_value where
  "empty_value = \<lparr>av_number = 0, av_ip = []\<rparr>"

section \<open>The cluster\<close>

text \<open>
  \<open>get_\<close> reads through the manager's client and \<open>read_\<close> through the uncached API reader. A retry loop
  runs its body again while it ends in a conflict; there is one field per type of the value the body
  leaves behind.
\<close>

record 's kube =
  time_now :: "'s \<Rightarrow> int"
  get_claim :: "string \<Rightarrow> ('s, kube_error, claim) api"
  read_claim :: "string \<Rightarrow> ('s, kube_error, claim) api"
  get_lease :: "string \<Rightarrow> ('s, kube_error, lease) api"
  read_lease :: "string \<Rightarrow> ('s, kube_error, lease) api"
  get_pool :: "string \<Rightarrow> ('s, kube_error, pool) api"
  read_pool :: "string \<Rightarrow> ('s, kube_error, pool) api"
  list_claims :: "('s, kube_error, claim list) api"
  list_leases :: "('s, kube_error, lease list) api"
  update_claim :: "claim \<Rightarrow> ('s, kube_error, claim) api"
  update_claim_status :: "claim \<Rightarrow> ('s, kube_error, claim) api"
  create_lease :: "lease \<Rightarrow> ('s, kube_error, unit) api"
  update_lease :: "lease \<Rightarrow> ('s, kube_error, unit) api"
  update_lease_status :: "lease \<Rightarrow> ('s, kube_error, lease) api"
  delete_lease :: "lease \<Rightarrow> ('s, kube_error, unit) api"
  delete_lease_uid :: "lease \<Rightarrow> ('s, kube_error, unit) api"
  update_pool_status :: "pool \<Rightarrow> ('s, kube_error, pool) api"
  owner_exists :: "resource_ref \<Rightarrow> ('s, alloc_error, unit) api"
  retained_get :: "retain_ref \<Rightarrow> ('s, kube_error, unit) api"
  setControllerReference :: "pool \<Rightarrow> lease \<Rightarrow> kube_error + lease"
  containsFinalizer :: "string list \<Rightarrow> string \<Rightarrow> bool"
  addFinalizer :: "string list \<Rightarrow> string \<Rightarrow> string list"
  removeFinalizer :: "string list \<Rightarrow> string \<Rightarrow> string list"
  setStatusCondition :: "'s \<Rightarrow> condition list \<Rightarrow> condition \<Rightarrow> condition list"
  findStatusCondition :: "condition list \<Rightarrow> string \<Rightarrow> condition option"
  retry_claim :: "('s, alloc_error, claim) api \<Rightarrow> ('s, alloc_error, claim) api"
  retry_lease :: "('s, alloc_error, lease) api \<Rightarrow> ('s, alloc_error, lease) api"
  retry_pool :: "('s, alloc_error, pool) api \<Rightarrow> ('s, alloc_error, pool) api"

text \<open>A client call with its error as an error of the controllers.\<close>

definition kcall :: "('s, kube_error, 'a) api \<Rightarrow> ('s, alloc_error, 'a) api" where
  "kcall m s = (case m s of (Inl e, s') \<Rightarrow> (Inl (Kube e), s') | (Inr x, s') \<Rightarrow> (Inr x, s'))"

section \<open>Helpers (allocation\_helpers.go)\<close>

text \<open>
  \<open>strings.ReplaceAll(s, ".", "-")\<close>, the sanitizer \<open>[^a-z0-9.-]+\<close> and \<open>strings.Trim(s, "-.")\<close>; names are
  ASCII.
\<close>

definition name_char :: "char \<Rightarrow> bool" where
  "name_char c \<longleftrightarrow> (let n = (of_char c :: nat) in (97 \<le> n \<and> n \<le> 122) \<or> (48 \<le> n \<and> n \<le> 57))
     \<or> c = CHR ''.'' \<or> c = CHR ''-''"

fun sanitize_runs :: "bool \<Rightarrow> string \<Rightarrow> string" where
  "sanitize_runs inrun [] = []"
| "sanitize_runs inrun (c # cs) =
     (if name_char c then c # sanitize_runs False cs
      else if inrun then sanitize_runs True cs
      else CHR ''-'' # sanitize_runs True cs)"

definition trim_edges :: "string \<Rightarrow> string" where
  "trim_edges s =
     (let cut = (\<lambda>c. c = CHR ''-'' \<or> c = CHR ''.'')
      in rev (dropWhile cut (rev (dropWhile cut s))))"

definition sanitize_part :: "string \<Rightarrow> string" where
  "sanitize_part s =
     trim_edges (sanitize_runs False (map (\<lambda>c. if c = CHR ''.'' then CHR ''-'' else c) (to_lower s)))"

definition allocationClaimName :: "string \<Rightarrow> string \<Rightarrow> string \<Rightarrow> string \<Rightarrow> string \<Rightarrow> string" where
  "allocationClaimName poolName kind namespace resourceName attribute =
     (let p0 = sanitize_part poolName; p1 = sanitize_part kind; p2 = sanitize_part namespace;
          p3 = sanitize_part resourceName; p4 = sanitize_part attribute
      in p0 @ ''--'' @ p1 @ ''--'' @ (if p2 \<noteq> [] then p2 @ ''--'' else []) @ p3 @ ''--'' @ p4)"

definition newAllocationClaim ::
  "string \<Rightarrow> string \<Rightarrow> string \<Rightarrow> string \<Rightarrow> string \<Rightarrow> string \<Rightarrow> claim" where
  "newAllocationClaim poolName apiVersion kind namespace resourceName attribute =
     \<lparr>cl_name = allocationClaimName poolName kind namespace resourceName attribute,
      cl_uid = [], cl_generation = 0, cl_deletionTimestamp = None, cl_finalizers = [],
      cl_poolRefs = [poolName],
      cl_resourceRef = \<lparr>res_apiVersion = apiVersion, res_kind = kind, res_namespace = namespace,
                        res_name = resourceName\<rparr>,
      cl_attribute = attribute, cl_requestedNumber = None, cl_requestedIP = None,
      cl_allocationFilter = None, cl_releaseAfter = None, cl_reuseKey = [], cl_retainWhile = None,
      cl_networkInterface = None, cl_observedGeneration = 0, cl_conditions = [], cl_phase = [],
      cl_value = empty_value\<rparr>"

definition leaseNameFor :: "claim \<Rightarrow> string" where
  "leaseNameFor c = (if cl_reuseKey c \<noteq> [] then cl_reuseKey c else cl_name c)"

definition leaseOwnedByClaim :: "lease \<Rightarrow> claim \<Rightarrow> bool" where
  "leaseOwnedByClaim l c \<longleftrightarrow> cr_name (ls_claimRef (le_spec l)) = cl_name c"

definition leaseHeldByOtherClaim :: "lease \<Rightarrow> claim \<Rightarrow> bool" where
  "leaseHeldByOtherClaim l c \<longleftrightarrow>
     \<not> leaseOwnedByClaim l c \<and> ls_ownerDeletionTimestamp (le_spec l) = None"

definition retainReferenceKey :: "retain_ref \<Rightarrow> string" where
  "retainReferenceKey ref =
     join_with ''/'' [rr_apiVersion ref, rr_kind ref, rr_namespace ref, rr_name ref]"

definition claimReferencesPool :: "claim \<Rightarrow> string \<Rightarrow> bool" where
  "claimReferencesPool c poolName \<longleftrightarrow> (\<exists>ref \<in> set (cl_poolRefs c). ref = poolName)"

definition adoptNetworkInterfaceIdentity :: "lease_spec \<Rightarrow> claim \<Rightarrow> lease_spec" where
  "adoptNetworkInterfaceIdentity l c =
     (if ls_networkInterface l = None then l\<lparr>ls_networkInterface := cl_networkInterface c\<rparr> else l)"

section \<open>Claim names\<close>

text \<open>
  Two resources of one kind whose names differ only in a dot and a hyphen share one claim name, and so
  do a resource in a namespace and another whose namespace and name split at a different double hyphen:
  the name does not identify the owner it is derived from.
\<close>

theorem allocationClaimName_collides:
  "allocationClaimName pool kind ns (x @ ''.'' @ y) attr = allocationClaimName pool kind ns (x @ ''-'' @ y) attr
   \<and> allocationClaimName ''p'' ''Kind'' ''a'' ''b--c'' ''x'' = allocationClaimName ''p'' ''Kind'' ''a--b'' ''c'' ''x''"
proof (rule conjI)
  have "map (\<lambda>c. if c = CHR ''.'' then CHR ''-'' else c) (to_lower (x @ ''.'' @ y)) =
        map (\<lambda>c. if c = CHR ''.'' then CHR ''-'' else c) (to_lower (x @ ''-'' @ y))"
    by (simp add: to_lower_def lower_char_def)
  then show "allocationClaimName pool kind ns (x @ ''.'' @ y) attr
      = allocationClaimName pool kind ns (x @ ''-'' @ y) attr"
    by (simp only: allocationClaimName_def sanitize_part_def)
  show "allocationClaimName ''p'' ''Kind'' ''a'' ''b--c'' ''x''
      = allocationClaimName ''p'' ''Kind'' ''a--b'' ''c'' ''x''"
    by code_simp
qed

end
