(* ===== verification/AllocClaim.thy ===== *)
theory AllocClaim
  imports AllocTypes
begin

text \<open>
  The AllocationClaim controller (\<open>controller/internal/controller/allocationclaim_controller.go\<close>):
  collecting the values in use, choosing one, writing the lease that backs it, and the reconcile
  pass of a claim with its deletion.
\<close>

section \<open>Values in use\<close>

fun usedNumbers_claims :: "string \<Rightarrow> string \<Rightarrow> claim list \<Rightarrow> (u64, string) gomap \<Rightarrow> (u64, string) gomap" where
  "usedNumbers_claims poolName selfClaim [] used = used"
| "usedNumbers_claims poolName selfClaim (c # cs) used =
     usedNumbers_claims poolName selfClaim cs
       (if cl_name c = selfClaim then used
        else if \<not> claimReferencesPool c poolName then used
        else if cl_phase c \<noteq> AllocationClaimPhaseAllocated then used
        else if av_number (cl_value c) = 0 then used
        else AList.update (av_number (cl_value c)) (cl_name c) used)"

fun usedNumbers_leases :: "string \<Rightarrow> string \<Rightarrow> lease list \<Rightarrow> (u64, string) gomap \<Rightarrow> (u64, string) gomap" where
  "usedNumbers_leases poolName selfLease [] used = used"
| "usedNumbers_leases poolName selfLease (l # ls) used =
     usedNumbers_leases poolName selfLease ls
       (if ls_poolRef (le_spec l) \<noteq> poolName then used
        else if le_name l = selfLease then used
        else if av_number (ls_value (le_spec l)) = 0 then used
        else if map_of used (av_number (ls_value (le_spec l))) \<noteq> None then used
        else AList.update (av_number (ls_value (le_spec l))) (''lease/'' @ le_name l) used)"

definition collectUsedNumbers ::
  "'s kube \<Rightarrow> string \<Rightarrow> string \<Rightarrow> string \<Rightarrow> ('s, alloc_error, (u64, string) gomap) api" where
  "collectUsedNumbers k poolName selfClaim selfLease =
     api_bind (api_try (list_claims k)) (\<lambda>rc. case rc of
       Inl e \<Rightarrow> api_throw (ListClaimsFailed poolName e)
     | Inr claims \<Rightarrow>
         (let used = usedNumbers_claims poolName selfClaim claims []
          in api_bind (api_try (list_leases k)) (\<lambda>rl. case rl of
               Inl e \<Rightarrow> api_throw (ListLeasesFailed poolName e)
             | Inr leases \<Rightarrow> api_return (usedNumbers_leases poolName selfLease leases used))))"

fun usedIPs_claims :: "string \<Rightarrow> string \<Rightarrow> claim list \<Rightarrow> (addr, string) gomap \<Rightarrow> (addr, string) gomap" where
  "usedIPs_claims poolName selfClaim [] used = used"
| "usedIPs_claims poolName selfClaim (c # cs) used =
     usedIPs_claims poolName selfClaim cs
       (if cl_name c = selfClaim then used
        else if \<not> claimReferencesPool c poolName then used
        else if cl_phase c \<noteq> AllocationClaimPhaseAllocated then used
        else if av_ip (cl_value c) = [] then used
        else case ParseAddr (av_ip (cl_value c)) of
               None \<Rightarrow> used
             | Some a \<Rightarrow> AList.update a (cl_name c) used)"

fun usedIPs_leases :: "string \<Rightarrow> string \<Rightarrow> lease list \<Rightarrow> (addr, string) gomap \<Rightarrow> (addr, string) gomap" where
  "usedIPs_leases poolName selfLease [] used = used"
| "usedIPs_leases poolName selfLease (l # ls) used =
     usedIPs_leases poolName selfLease ls
       (if ls_poolRef (le_spec l) \<noteq> poolName then used
        else if le_name l = selfLease then used
        else if av_ip (ls_value (le_spec l)) = [] then used
        else case ParseAddr (av_ip (ls_value (le_spec l))) of
               None \<Rightarrow> used
             | Some a \<Rightarrow>
                 if map_of used a \<noteq> None then used
                 else AList.update a (''lease/'' @ le_name l) used)"

definition usedPoolIPs ::
  "string \<Rightarrow> string \<Rightarrow> string \<Rightarrow> claim list \<Rightarrow> lease list \<Rightarrow> (addr, string) gomap" where
  "usedPoolIPs poolName selfClaim selfLease claims leases =
     usedIPs_leases poolName selfLease leases (usedIPs_claims poolName selfClaim claims [])"

definition collectUsedIPs ::
  "'s kube \<Rightarrow> string \<Rightarrow> string \<Rightarrow> string \<Rightarrow> ('s, alloc_error, (addr, string) gomap) api" where
  "collectUsedIPs k poolName selfClaim selfLease =
     api_bind (api_try (list_claims k)) (\<lambda>rc. case rc of
       Inl e \<Rightarrow> api_throw (ListClaimsFailed poolName e)
     | Inr claims \<Rightarrow>
         api_bind (api_try (list_leases k)) (\<lambda>rl. case rl of
           Inl e \<Rightarrow> api_throw (ListLeasesFailed poolName e)
         | Inr leases \<Rightarrow> api_return (usedPoolIPs poolName selfClaim selfLease claims leases)))"

section \<open>Choosing a value\<close>

record allocationResult =
  ar_poolName :: string
  ar_number :: u64
  ar_ip :: string

text \<open>
  The search for a number increments a 64-bit counter, which wraps; \<open>None\<close> is a search that never
  ends.
\<close>

partial_function (option) firstFit_number :: "(u64, string) gomap \<Rightarrow> u64 \<Rightarrow> u64 \<Rightarrow> u64 option option" where
  [code]: "firstFit_number used max_num candidate =
     (if candidate \<le> max_num then
        (if map_of used candidate = None then Some (Some candidate)
         else firstFit_number used max_num (candidate + 1))
      else Some None)"

definition chooseNumber ::
  "pool \<Rightarrow> number_spec \<Rightarrow> claim \<Rightarrow> (u64, string) gomap \<Rightarrow> alloc_error + u64" where
  "chooseNumber p spec c used =
     (case cl_requestedNumber c of
        Some requested \<Rightarrow>
          if requested < num_min spec \<or> num_max spec < requested
          then Inl (RequestedNumberOutside requested (po_name p))
          else (case map_of used requested of
                  Some holder \<Rightarrow> Inl (RequestedNumberTaken requested holder)
                | None \<Rightarrow> Inr requested)
      | None \<Rightarrow>
          (case firstFit_number used (num_max spec) (num_min spec) of
             None \<Rightarrow> Inl NeverReturns
           | Some (Some n) \<Rightarrow> Inr n
           | Some None \<Rightarrow> Inl AllPoolsExhausted))"

definition allocateNumber :: "'s kube \<Rightarrow> pool \<Rightarrow> claim \<Rightarrow> string \<Rightarrow> ('s, alloc_error, u64) api" where
  "allocateNumber k p c selfLease =
     (case po_number p of
        None \<Rightarrow> api_throw (NumberSpecNil (po_name p))
      | Some spec \<Rightarrow>
          api_bind (collectUsedNumbers k (po_name p) (cl_name c) selfLease) (\<lambda>used.
            case chooseNumber p spec c used of
              Inl e \<Rightarrow> api_throw e
            | Inr n \<Rightarrow> api_return n))"

fun mark_excluded :: "string list \<Rightarrow> (addr, string) gomap \<Rightarrow> (addr, string) gomap" where
  "mark_excluded [] used = used"
| "mark_excluded (raw # raws) used =
     mark_excluded raws
       (case ParseAddr raw of Some a \<Rightarrow> AList.update a ''excluded'' used | None \<Rightarrow> used)"

definition filteredCandidates ::
  "pool \<Rightarrow> alloc_pool_ip_spec \<Rightarrow> claim \<Rightarrow> alloc_error + candidateRange list" where
  "filteredCandidates p spec c =
     (case parsePoolCandidates spec of
        Inl e \<Rightarrow> Inl (InvalidCandidateSpace (po_name p) e)
      | Inr candidates \<Rightarrow>
          (case cl_allocationFilter c of
             Some (f # fs) \<Rightarrow>
               (case parsePrefixCandidates (f # fs) of
                  Inl e \<Rightarrow> Inl (InvalidFilter (cl_name c) e)
                | Inr flt \<Rightarrow>
                    (let cs = intersectCandidates candidates flt
                     in if cs = [] then Inl AllPoolsExhausted else Inr cs))
           | _ \<Rightarrow> Inr candidates))"

definition chooseIP ::
  "pool \<Rightarrow> claim \<Rightarrow> candidateRange list \<Rightarrow> (addr, string) gomap \<Rightarrow> alloc_error + string" where
  "chooseIP p c candidates used =
     (case cl_requestedIP c of
        Some requested \<Rightarrow>
          (case ParseAddr requested of
             None \<Rightarrow> Inl (RequestedIPInvalid requested)
           | Some a \<Rightarrow>
               if \<not> candidatesContain candidates a then Inl (RequestedIPOutside requested (po_name p))
               else (case map_of used a of
                       Some holder \<Rightarrow> Inl (RequestedIPTaken requested holder)
                     | None \<Rightarrow> Inr (addr_string a)))
      | None \<Rightarrow>
          (case firstFitCandidate candidates used of
             None \<Rightarrow> Inl NeverReturns
           | Some (a, ok) \<Rightarrow> if ok then Inr (addr_string a) else Inl AllPoolsExhausted))"

definition allocateIP :: "'s kube \<Rightarrow> pool \<Rightarrow> claim \<Rightarrow> string \<Rightarrow> ('s, alloc_error, string) api" where
  "allocateIP k p c selfLease =
     (case po_ip p of
        None \<Rightarrow> api_throw (IPSpecNil (po_name p))
      | Some spec \<Rightarrow>
          (case filteredCandidates p spec c of
             Inl e \<Rightarrow> api_throw e
           | Inr candidates \<Rightarrow>
               api_bind (collectUsedIPs k (po_name p) (cl_name c) selfLease) (\<lambda>used0.
                 case chooseIP p c candidates (mark_excluded (Excluded spec) used0) of
                   Inl e \<Rightarrow> api_throw e
                 | Inr ip \<Rightarrow> api_return ip)))"

definition getLease :: "'s kube \<Rightarrow> string \<Rightarrow> ('s, alloc_error, lease option) api" where
  "getLease k name =
     api_bind (api_try (read_lease k name)) (\<lambda>r. case r of
       Inl NotFound \<Rightarrow> api_return None
     | Inl e \<Rightarrow> api_throw (Kube e)
     | Inr l \<Rightarrow> api_return (Some l))"

definition reuseLease ::
  "'s kube \<Rightarrow> claim \<Rightarrow> lease \<Rightarrow> ('s, alloc_error, (allocationResult \<times> pool) option) api" where
  "reuseLease k c l =
     (if \<not> claimReferencesPool c (ls_poolRef (le_spec l)) then api_return None
      else api_bind (api_try (read_pool k (ls_poolRef (le_spec l)))) (\<lambda>r. case r of
             Inl NotFound \<Rightarrow> api_return None
           | Inl e \<Rightarrow> api_throw (Kube e)
           | Inr p \<Rightarrow>
               api_return (Some (\<lparr>ar_poolName = po_name p,
                                  ar_number = av_number (ls_value (le_spec l)),
                                  ar_ip = av_ip (ls_value (le_spec l))\<rparr>, p))))"

text \<open>The loop over the pool references; the fourth argument is the first missing pool.\<close>

fun allocate_pools ::
  "'s kube \<Rightarrow> claim \<Rightarrow> string \<Rightarrow> string \<Rightarrow> string list \<Rightarrow> ('s, alloc_error, allocationResult \<times> pool) api" where
  "allocate_pools k c selfLease missing [] =
     (if missing \<noteq> [] then api_throw (PoolMissing missing) else api_throw AllPoolsExhausted)"
| "allocate_pools k c selfLease missing (ref # refs) =
     api_bind (api_try (read_pool k ref)) (\<lambda>r. case r of
       Inl NotFound \<Rightarrow> allocate_pools k c selfLease (if missing = [] then ref else missing) refs
     | Inl e \<Rightarrow> api_throw (Kube e)
     | Inr p \<Rightarrow>
         if po_type p = AllocationTypeNumber then
           api_bind (api_try (allocateNumber k p c selfLease)) (\<lambda>rn. case rn of
             Inl AllPoolsExhausted \<Rightarrow> allocate_pools k c selfLease missing refs
           | Inl e \<Rightarrow> api_throw e
           | Inr n \<Rightarrow> api_return (\<lparr>ar_poolName = po_name p, ar_number = n, ar_ip = []\<rparr>, p))
         else if po_type p = AllocationTypeIP then
           api_bind (api_try (allocateIP k p c selfLease)) (\<lambda>ri. case ri of
             Inl AllPoolsExhausted \<Rightarrow> allocate_pools k c selfLease missing refs
           | Inl e \<Rightarrow> api_throw e
           | Inr ip \<Rightarrow> api_return (\<lparr>ar_poolName = po_name p, ar_number = 0, ar_ip = ip\<rparr>, p))
         else api_throw (UnsupportedType (po_name p) (po_type p)))"

definition allocate :: "'s kube \<Rightarrow> claim \<Rightarrow> ('s, alloc_error, allocationResult \<times> pool) api" where
  "allocate k c =
     api_bind (getLease k (leaseNameFor c)) (\<lambda>held0.
       let blocked = (case held0 of Some l \<Rightarrow> leaseHeldByOtherClaim l c | None \<Rightarrow> False);
           selfLease = (if blocked then [] else leaseNameFor c);
           held = (if blocked then None else held0)
       in case held of
            None \<Rightarrow> allocate_pools k c selfLease [] (cl_poolRefs c)
          | Some l \<Rightarrow>
              api_bind (reuseLease k c l) (\<lambda>r. case r of
                Some reused \<Rightarrow> api_return reused
              | None \<Rightarrow> allocate_pools k c selfLease [] (cl_poolRefs c)))"

section \<open>The lease behind a claim\<close>

definition newLease :: "claim \<Rightarrow> pool \<Rightarrow> allocationResult \<Rightarrow> lease" where
  "newLease c p res =
     \<lparr>le_name = leaseNameFor c, le_uid = [], le_generation = 0, le_deletionTimestamp = None,
      le_ownerRef = None,
      le_spec = \<lparr>ls_poolRef = po_name p, ls_value = \<lparr>av_number = ar_number res, av_ip = ar_ip res\<rparr>,
                 ls_claimRef = \<lparr>cr_name = cl_name c, cr_uid = cl_uid c\<rparr>,
                 ls_ownerDeletionTimestamp = None, ls_ttlSeconds = None,
                 ls_retainWhile = cl_retainWhile c, ls_networkInterface = cl_networkInterface c\<rparr>,
      le_status = \<lparr>lst_observedGeneration = 0, lst_phase = [], lst_expiresAt = None,
                   lst_retainReleasedAt = None, lst_conditions = []\<rparr>\<rparr>"

definition createLease :: "'s kube \<Rightarrow> lease \<Rightarrow> ('s, alloc_error, unit) api" where
  "createLease k l =
     api_bind (api_try (create_lease k l)) (\<lambda>r. case r of
       Inl e \<Rightarrow> if e = AlreadyExists then api_return () else api_throw (Kube e)
     | Inr _ \<Rightarrow> api_return ())"

definition desiredLeaseSpec :: "claim \<Rightarrow> pool \<Rightarrow> allocationResult \<Rightarrow> lease_spec \<Rightarrow> lease_spec" where
  "desiredLeaseSpec c p res spec =
     adoptNetworkInterfaceIdentity
       (spec\<lparr>ls_poolRef := po_name p, ls_value := \<lparr>av_number = ar_number res, av_ip = ar_ip res\<rparr>,
             ls_claimRef := \<lparr>cr_name = cl_name c, cr_uid = cl_uid c\<rparr>,
             ls_ownerDeletionTimestamp := None, ls_ttlSeconds := None,
             ls_retainWhile := cl_retainWhile c\<rparr>) c"

definition ensureLease :: "'s kube \<Rightarrow> claim \<Rightarrow> pool \<Rightarrow> allocationResult \<Rightarrow> ('s, alloc_error, unit) api" where
  "ensureLease k c p res =
     api_bind (api_try (get_lease k (leaseNameFor c))) (\<lambda>r. case r of
       Inl e \<Rightarrow>
         if e \<noteq> NotFound then api_throw (Kube e)
         else (case setControllerReference k p (newLease c p res) of
                 Inl e' \<Rightarrow> api_throw (Kube e')
               | Inr l \<Rightarrow> createLease k l)
     | Inr existing \<Rightarrow>
         if leaseHeldByOtherClaim existing c then api_return ()
         else if le_spec existing = desiredLeaseSpec c p res (le_spec existing) then api_return ()
         else kcall (update_lease k (existing\<lparr>le_spec := desiredLeaseSpec c p res (le_spec existing)\<rparr>)))"

definition reconcileLease :: "'s kube \<Rightarrow> claim \<Rightarrow> ('s, alloc_error, unit) api" where
  "reconcileLease k c =
     api_bind (getLease k (leaseNameFor c)) (\<lambda>r. case r of
       None \<Rightarrow> api_return ()
     | Some l \<Rightarrow>
         if cr_name (ls_claimRef (le_spec l)) \<noteq> [] \<and> \<not> leaseOwnedByClaim l c then api_return ()
         else
           let desired = adoptNetworkInterfaceIdentity
                 ((le_spec l)\<lparr>ls_claimRef := \<lparr>cr_name = cl_name c, cr_uid = cl_uid c\<rparr>\<rparr>) c
           in if le_spec l = desired then api_return ()
              else kcall (update_lease k (l\<lparr>le_spec := desired\<rparr>)))"

section \<open>Status\<close>

definition allocationClaimReady :: "'s kube \<Rightarrow> claim \<Rightarrow> bool" where
  "allocationClaimReady k c =
     (if cl_phase c \<noteq> AllocationClaimPhaseAllocated then False
      else if av_number (cl_value c) = 0 \<and> av_ip (cl_value c) = [] then False
      else case findStatusCondition k (cl_conditions c) StatusReady of
             None \<Rightarrow> False
           | Some ready \<Rightarrow> cond_status ready \<and> cond_observedGeneration ready = cl_generation c)"

definition updateStatus_body ::
  "'s kube \<Rightarrow> claim \<Rightarrow> string \<Rightarrow> alloc_value \<Rightarrow> bool \<Rightarrow> string \<Rightarrow> cond_message \<Rightarrow> ('s, alloc_error, claim) api" where
  "updateStatus_body k resource phase val ready reason msg =
     api_bind (kcall (get_claim k (cl_name resource))) (\<lambda>fresh.
       if allocationClaimReady k fresh \<and> phase \<noteq> AllocationClaimPhaseAllocated then api_return fresh
       else (\<lambda>s.
         let updated = fresh\<lparr>cl_observedGeneration := cl_generation fresh, cl_phase := phase,
               cl_value := (if phase = AllocationClaimPhaseAllocated then val else empty_value),
               cl_conditions := setStatusCondition k s (cl_conditions fresh)
                 \<lparr>cond_type = StatusReady, cond_status = ready, cond_reason = reason,
                  cond_message = msg, cond_observedGeneration = cl_generation fresh\<rparr>\<rparr>
         in (if updated = fresh then api_return updated
             else kcall (update_claim_status k updated)) s))"

definition updateStatus ::
  "'s kube \<Rightarrow> claim \<Rightarrow> string \<Rightarrow> alloc_value \<Rightarrow> bool \<Rightarrow> string \<Rightarrow> cond_message \<Rightarrow> ('s, alloc_error, claim) api" where
  "updateStatus k resource phase val ready reason msg =
     retry_claim k (updateStatus_body k resource phase val ready reason msg)"

definition updateStatusAllocated :: "'s kube \<Rightarrow> claim \<Rightarrow> allocationResult \<Rightarrow> ('s, alloc_error, claim) api" where
  "updateStatusAllocated k c res =
     updateStatus k c AllocationClaimPhaseAllocated \<lparr>av_number = ar_number res, av_ip = ar_ip res\<rparr>
       True ''Allocated'' NoMessage"

definition updateStatusPending :: "'s kube \<Rightarrow> claim \<Rightarrow> cond_message \<Rightarrow> ('s, alloc_error, claim) api" where
  "updateStatusPending k c msg =
     updateStatus k c AllocationClaimPhasePending empty_value False ''Pending'' msg"

definition updateStatusFailed :: "'s kube \<Rightarrow> claim \<Rightarrow> cond_message \<Rightarrow> ('s, alloc_error, claim) api" where
  "updateStatusFailed k c msg =
     updateStatus k c AllocationClaimPhasePending empty_value False ''AllocationFailed'' msg"

section \<open>Deletion\<close>

definition allocationClaimFinalizer :: string where
  "allocationClaimFinalizer = ''allocationclaim.juneau.loutres.me/lease''"

text \<open>
  \<open>int32(claim.Spec.ReleaseAfter.Seconds())\<close>: whole seconds. Go leaves the conversion of more than
  \<open>2 ^ 31\<close> seconds to the implementation; the low bits are taken here.
\<close>

definition releaseAfter_seconds :: "int \<Rightarrow> 32 word" where
  "releaseAfter_seconds d = word_of_int (d div 1000000000)"

definition releaseLease :: "'s kube \<Rightarrow> claim \<Rightarrow> lease \<Rightarrow> ('s, alloc_error, unit) api" where
  "releaseLease k c l =
     (case cl_releaseAfter c of
        Some d \<Rightarrow>
          if d > 0 then
            (\<lambda>s. let ttl = releaseAfter_seconds d; spec = le_spec l
                 in (if ls_ownerDeletionTimestamp spec = None \<or> ls_ttlSeconds spec \<noteq> Some ttl
                     then kcall (update_lease k
                            (l\<lparr>le_spec := spec\<lparr>ls_ownerDeletionTimestamp := Some (time_now k s),
                                              ls_ttlSeconds := Some ttl\<rparr>\<rparr>))
                     else api_return ()) s)
          else api_bind (api_try (delete_lease k l)) (\<lambda>r. case r of
                 Inl NotFound \<Rightarrow> api_return () | Inl e \<Rightarrow> api_throw (Kube e) | Inr _ \<Rightarrow> api_return ())
      | None \<Rightarrow>
          api_bind (api_try (delete_lease k l)) (\<lambda>r. case r of
            Inl NotFound \<Rightarrow> api_return () | Inl e \<Rightarrow> api_throw (Kube e) | Inr _ \<Rightarrow> api_return ()))"

definition handleDeletion :: "'s kube \<Rightarrow> claim \<Rightarrow> ('s, alloc_error, unit) api" where
  "handleDeletion k c =
     (if \<not> containsFinalizer k (cl_finalizers c) allocationClaimFinalizer then api_return ()
      else
        api_bind (api_try (get_lease k (leaseNameFor c))) (\<lambda>r.
          api_bind (case r of
              Inl NotFound \<Rightarrow> api_return ()
            | Inl e \<Rightarrow> api_throw (Kube e)
            | Inr l \<Rightarrow> if leaseOwnedByClaim l c then releaseLease k c l else api_return ())
          (\<lambda>_. api_bind (kcall (update_claim k
                  (c\<lparr>cl_finalizers := removeFinalizer k (cl_finalizers c) allocationClaimFinalizer\<rparr>)))
               (\<lambda>_. api_return ()))))"

section \<open>Reconcile\<close>

definition ensureFinalizer_body :: "'s kube \<Rightarrow> string \<Rightarrow> ('s, alloc_error, claim) api" where
  "ensureFinalizer_body k name =
     api_bind (kcall (get_claim k name)) (\<lambda>fresh.
       if containsFinalizer k (cl_finalizers fresh) allocationClaimFinalizer then api_return fresh
       else kcall (update_claim k
              (fresh\<lparr>cl_finalizers := addFinalizer k (cl_finalizers fresh) allocationClaimFinalizer\<rparr>)))"

definition allocateClaim_body :: "'s kube \<Rightarrow> string \<Rightarrow> ('s, alloc_error, claim) api" where
  "allocateClaim_body k name =
     api_bind (kcall (read_claim k name)) (\<lambda>fresh.
       if allocationClaimReady k fresh then api_return fresh
       else api_bind (api_try (allocate k fresh)) (\<lambda>r. case r of
         Inl AllPoolsExhausted \<Rightarrow> updateStatusPending k fresh (ErrorText AllPoolsExhausted)
       | Inl (PoolMissing p) \<Rightarrow> updateStatusPending k fresh (ErrorText (PoolMissing p))
       | Inl e \<Rightarrow> updateStatusFailed k fresh (ErrorText e)
       | Inr (res, freshPool) \<Rightarrow>
           api_bind (ensureLease k fresh freshPool res) (\<lambda>_.
             api_bind (kcall (update_pool_status k
                 (freshPool\<lparr>po_status := (po_status freshPool)
                     \<lparr>ps_allocationVersion := ps_allocationVersion (po_status freshPool) + 1,
                      ps_lastAllocatedNumber := ar_number res,
                      ps_lastAllocatedIP := (if ar_ip res \<noteq> [] then ar_ip res
                        else ps_lastAllocatedIP (po_status freshPool))\<rparr>\<rparr>)))
               (\<lambda>_. updateStatusAllocated k fresh res))))"

definition reconcileLive :: "'s kube \<Rightarrow> string \<Rightarrow> claim \<Rightarrow> ('s, alloc_error, unit) api" where
  "reconcileLive k name resource =
     (if allocationClaimReady k resource then reconcileLease k resource
      else if cl_poolRefs resource = [] then
        api_bind (updateStatusFailed k resource (Text ''spec.poolRefs is empty'')) (\<lambda>_. api_return ())
      else api_bind (api_try (owner_exists k (cl_resourceRef resource))) (\<lambda>r. case r of
             Inl e \<Rightarrow> api_bind (updateStatusFailed k resource (ErrorText e)) (\<lambda>_. api_return ())
           | Inr _ \<Rightarrow> api_bind (retry_claim k (allocateClaim_body k name)) (\<lambda>_. api_return ())))"

definition Reconcile :: "'s kube \<Rightarrow> string \<Rightarrow> ('s, alloc_error, unit) api" where
  "Reconcile k name =
     api_bind (api_try (get_claim k name)) (\<lambda>r. case r of
       Inl NotFound \<Rightarrow> api_return ()
     | Inl e \<Rightarrow> api_throw (Kube e)
     | Inr resource0 \<Rightarrow>
         if cl_deletionTimestamp resource0 \<noteq> None then handleDeletion k resource0
         else if containsFinalizer k (cl_finalizers resource0) allocationClaimFinalizer
         then reconcileLive k name resource0
         else api_bind (api_try (retry_claim k (ensureFinalizer_body k name))) (\<lambda>rf. case rf of
                Inl (Kube NotFound) \<Rightarrow> api_return ()
              | Inl e \<Rightarrow> api_throw e
              | Inr resource \<Rightarrow> reconcileLive k name resource))"

section \<open>Watches\<close>

definition mapPoolToClaims_requests :: "string \<Rightarrow> claim list \<Rightarrow> string list" where
  "mapPoolToClaims_requests poolName claims =
     [cl_name c. c \<leftarrow> claims, poolName \<in> set [ref \<leftarrow> cl_poolRefs c. ref \<noteq> []]]"

definition mapLeaseToClaims_requests :: "lease \<Rightarrow> claim list \<Rightarrow> string list" where
  "mapLeaseToClaims_requests l claims =
     (if ls_poolRef (le_spec l) = [] then [] else mapPoolToClaims_requests (ls_poolRef (le_spec l)) claims)"

section \<open>What is in use\<close>

definition number_taken :: "string \<Rightarrow> string \<Rightarrow> string \<Rightarrow> claim list \<Rightarrow> lease list \<Rightarrow> u64 \<Rightarrow> bool" where
  "number_taken poolName selfClaim selfLease cs ls n \<longleftrightarrow> n \<noteq> 0 \<and>
     ((\<exists>c \<in> set cs. cl_name c \<noteq> selfClaim \<and> claimReferencesPool c poolName
         \<and> cl_phase c = AllocationClaimPhaseAllocated \<and> av_number (cl_value c) = n)
    \<or> (\<exists>l \<in> set ls. ls_poolRef (le_spec l) = poolName \<and> le_name l \<noteq> selfLease
         \<and> av_number (ls_value (le_spec l)) = n))"

definition ip_taken :: "string \<Rightarrow> string \<Rightarrow> string \<Rightarrow> claim list \<Rightarrow> lease list \<Rightarrow> addr \<Rightarrow> bool" where
  "ip_taken poolName selfClaim selfLease cs ls a \<longleftrightarrow>
     (\<exists>c \<in> set cs. cl_name c \<noteq> selfClaim \<and> claimReferencesPool c poolName
         \<and> cl_phase c = AllocationClaimPhaseAllocated
         \<and> av_ip (cl_value c) \<noteq> [] \<and> ParseAddr (av_ip (cl_value c)) = Some a)
    \<or> (\<exists>l \<in> set ls. ls_poolRef (le_spec l) = poolName \<and> le_name l \<noteq> selfLease
         \<and> av_ip (ls_value (le_spec l)) \<noteq> [] \<and> ParseAddr (av_ip (ls_value (le_spec l))) = Some a)"

lemma usedNumbers_claims_dom:
  "map_of (usedNumbers_claims p sc cs used) n \<noteq> None \<longleftrightarrow>
     map_of used n \<noteq> None \<or> number_taken p sc sl cs [] n"
  by (induction cs arbitrary: used) (auto simp: number_taken_def update_conv' split: if_splits)

lemma usedNumbers_leases_dom:
  "map_of (usedNumbers_leases p sl ls used) n \<noteq> None \<longleftrightarrow>
     map_of used n \<noteq> None \<or> number_taken p sc sl [] ls n"
  by (induction ls arbitrary: used) (auto simp: number_taken_def update_conv' split: if_splits)

lemma usedNumbers_dom:
  "map_of (usedNumbers_leases p sl ls (usedNumbers_claims p sc cs [])) n = None \<longleftrightarrow>
     \<not> number_taken p sc sl cs ls n"
  using usedNumbers_leases_dom[of p sl ls "usedNumbers_claims p sc cs []" n sc]
    usedNumbers_claims_dom[of p sc cs "[]" n sl]
  by (auto simp: number_taken_def)

lemma usedIPs_claims_dom:
  "map_of (usedIPs_claims p sc cs used) a \<noteq> None \<longleftrightarrow> map_of used a \<noteq> None \<or> ip_taken p sc sl cs [] a"
  by (induction cs arbitrary: used)
    (auto simp: ip_taken_def update_conv' split: if_splits option.splits)

lemma usedIPs_leases_dom:
  "map_of (usedIPs_leases p sl ls used) a \<noteq> None \<longleftrightarrow> map_of used a \<noteq> None \<or> ip_taken p sc sl [] ls a"
  by (induction ls arbitrary: used)
    (auto simp: ip_taken_def update_conv' split: if_splits option.splits)

lemma usedPoolIPs_dom:
  "map_of (usedPoolIPs p sc sl cs ls) a = None \<longleftrightarrow> \<not> ip_taken p sc sl cs ls a"
  using usedIPs_leases_dom[of p sl ls "usedIPs_claims p sc cs []" a sc]
    usedIPs_claims_dom[of p sc cs "[]" a sl]
  by (auto simp: ip_taken_def usedPoolIPs_def)

lemma mark_excluded_dom:
  "map_of (mark_excluded raws used) a = None \<longleftrightarrow> map_of used a = None \<and> a \<notin> excluded_addrs raws"
  by (induction raws arbitrary: used)
    (auto simp: excluded_addrs_def update_conv' split: option.splits if_splits)

section \<open>Numbers\<close>

declare firstFit_number.simps [simp del]

lemma unat_plus_one': "s \<noteq> - 1 \<Longrightarrow> unat (s + 1) = unat s + 1" for s :: "'a::len word"
  by (simp add: eq_neg_iff_add_eq_0 unat_plus_one)

lemma word_le_plus_one: "s \<noteq> - 1 \<Longrightarrow> s \<le> m \<longleftrightarrow> m = s \<or> s + 1 \<le> m" for s m :: "'a::len word"
  using unat_plus_one'[of s] unat_cong by (auto simp: word_le_nat_alt intro: word_unat_eq_iff[THEN iffD2])

lemma word_plus_one_greater: "s \<noteq> - 1 \<Longrightarrow> s < s + 1" for s :: "'a::len word"
  using unat_plus_one'[of s] by (simp add: word_less_nat_alt)

text \<open>
  The search returns when a free number lies ahead, or when the upper bound is below the last 64-bit
  number.
\<close>

lemma firstFit_number_returns:
  assumes "start \<le> max_num"
    and "max_num \<noteq> - 1 \<or> (\<exists>n. start \<le> n \<and> n \<le> max_num \<and> map_of used n = None)"
  shows "(\<exists>n. firstFit_number used max_num start = Some (Some n) \<and> start \<le> n \<and> n \<le> max_num
            \<and> map_of used n = None \<and> (\<forall>m. start \<le> m \<and> m < n \<longrightarrow> map_of used m \<noteq> None))
       \<or> (firstFit_number used max_num start = Some None
            \<and> (\<forall>m. start \<le> m \<and> m \<le> max_num \<longrightarrow> map_of used m \<noteq> None))"
  using assms
proof (induction "unat max_num - unat start" arbitrary: start rule: less_induct)
  case less
  show ?case
  proof (cases "map_of used start")
    case None
    then show ?thesis using less.prems by (auto simp: firstFit_number.simps)
  next
    case (Some u)
    then have step: "firstFit_number used max_num start = firstFit_number used max_num (start + 1)"
      using less.prems(1) by (subst firstFit_number.simps) simp
    note ahead = word_le_plus_one
    show ?thesis
    proof (cases "start = max_num")
      case True
      then have "max_num \<noteq> - 1" using less.prems(2) Some by (metis option.distinct(1) order_antisym)
      then have "\<not> start + 1 \<le> max_num"
        using True word_plus_one_greater[of max_num] by simp
      then have "firstFit_number used max_num (start + 1) = Some None"
        by (subst firstFit_number.simps) simp
      then show ?thesis using True Some step by (metis option.distinct(1) order_antisym)
    next
      case False
      then have lt: "start < max_num" using less.prems(1) by simp
      then have ne: "start \<noteq> - 1" by (metis word_not_simps(3) word_order.extremum_strict)
      have le: "start + 1 \<le> max_num" using lt by (rule inc_le)
      have "unat (start + 1) = unat start + 1"
        using ne by (simp add: eq_neg_iff_add_eq_0 unat_plus_one)
      then have dec: "unat max_num - unat (start + 1) < unat max_num - unat start"
        using lt by (simp add: word_less_nat_alt)
      have "max_num \<noteq> - 1 \<or> (\<exists>n. start + 1 \<le> n \<and> n \<le> max_num \<and> map_of used n = None)"
        using less.prems(2) Some ahead[OF ne] by (metis option.distinct(1))
      from less.hyps[OF dec le this] show ?thesis
        using step Some ahead[OF ne] by (auto simp: less_le)
    qed
  qed
qed

lemma collectUsedNumbers_run:
  assumes "list_claims k s = (Inr cs, s1)" "list_leases k s1 = (Inr ls, s2)"
  shows "collectUsedNumbers k p sc sl s =
           (Inr (usedNumbers_leases p sl ls (usedNumbers_claims p sc cs [])), s2)"
  using assms by (simp add: collectUsedNumbers_def api_bind_def api_try_def Let_def)

lemma collectUsedIPs_run:
  assumes "list_claims k s = (Inr cs, s1)" "list_leases k s1 = (Inr ls, s2)"
  shows "collectUsedIPs k p sc sl s = (Inr (usedPoolIPs p sc sl cs ls), s2)"
  using assms by (simp add: collectUsedIPs_def api_bind_def api_try_def)

text \<open>
  C14. \<open>allocateNumber\<close> returns a number of the pool that no other Allocated claim on the pool and no lease
  of the pool holds, except the claim's own: the requested one, or the lowest free one. It fails only
  when the requested number is outside the pool or taken, or when the whole pool is taken.
\<close>

theorem allocateNumber_fresh:
  assumes lists: "list_claims k s = (Inr cs, s1)" "list_leases k s1 = (Inr ls, s2)"
    and spec: "po_number p = Some spec" "num_min spec \<le> num_max spec" "num_max spec \<noteq> - 1"
  shows "case allocateNumber k p c selfLease s of
           (Inr n, s') \<Rightarrow> s' = s2 \<and> num_min spec \<le> n \<and> n \<le> num_max spec
             \<and> \<not> number_taken (po_name p) (cl_name c) selfLease cs ls n
             \<and> (case cl_requestedNumber c of
                  Some r \<Rightarrow> n = r
                | None \<Rightarrow> \<forall>m. num_min spec \<le> m \<and> m < n
                            \<longrightarrow> number_taken (po_name p) (cl_name c) selfLease cs ls m)
         | (Inl e, s') \<Rightarrow> s' = s2
             \<and> (case cl_requestedNumber c of
                  Some r \<Rightarrow> r < num_min spec \<or> num_max spec < r
                            \<or> number_taken (po_name p) (cl_name c) selfLease cs ls r
                | None \<Rightarrow> e = AllPoolsExhausted
                    \<and> (\<forall>m. num_min spec \<le> m \<and> m \<le> num_max spec
                            \<longrightarrow> number_taken (po_name p) (cl_name c) selfLease cs ls m))"
proof -
  define used where "used = usedNumbers_leases (po_name p) selfLease ls
      (usedNumbers_claims (po_name p) (cl_name c) cs [])"
  have free: "map_of used n = None \<longleftrightarrow> \<not> number_taken (po_name p) (cl_name c) selfLease cs ls n" for n
    by (simp add: used_def usedNumbers_dom)
  have run: "allocateNumber k p c selfLease s =
      (case chooseNumber p spec c used of Inl e \<Rightarrow> (Inl e, s2) | Inr n \<Rightarrow> (Inr n, s2))"
    by (simp add: allocateNumber_def spec(1) api_bind_def collectUsedNumbers_run[OF lists] used_def
          split: sum.split)
  show ?thesis
  proof (cases "cl_requestedNumber c")
    case None
    then show ?thesis
      using firstFit_number_returns[of "num_min spec" "num_max spec" used] spec
      by (auto simp: run chooseNumber_def free)
  next
    case (Some r)
    then show ?thesis
      using free[of r] by (auto simp: run chooseNumber_def split: option.split)
  qed
qed

text \<open>A search past the last 64-bit number starts again at zero.\<close>

lemma firstFit_number_skip:
  assumes "\<forall>m. start \<le> m \<longrightarrow> map_of used m \<noteq> None"
  shows "firstFit_number used (- 1) start = firstFit_number used (- 1) 0"
  using assms
proof (induction "2 ^ 64 - unat start" arbitrary: start rule: less_induct)
  case less
  have step: "firstFit_number used (- 1) start = firstFit_number used (- 1) (start + 1)"
    using less.prems by (subst firstFit_number.simps) auto
  show ?case
  proof (cases "start = - 1")
    case True
    then show ?thesis using step by simp
  next
    case False
    have "unat start < 2 ^ 64" using unsigned_less[of start] by simp
    then have "2 ^ 64 - unat (start + 1) < 2 ^ 64 - unat start"
      by (simp add: unat_plus_one'[OF False])
    moreover have "\<forall>m. start + 1 \<le> m \<longrightarrow> map_of used m \<noteq> None"
      using less.prems word_le_plus_one[OF False] by blast
    ultimately show ?thesis using less.hyps step by simp
  qed
qed

text \<open>
  C19. A pool that ends at the last 64-bit number is the exception: once every number of it is taken, the
  counter of the search wraps and the claim is given the number 0, which is outside the pool and stands
  for no value elsewhere.
\<close>

theorem allocateNumber_wraps:
  assumes lists: "list_claims k s = (Inr cs, s1)" "list_leases k s1 = (Inr ls, s2)"
    and spec: "po_number p = Some spec" "num_max spec = - 1" "cl_requestedNumber c = None"
    and full: "\<forall>m. num_min spec \<le> m \<longrightarrow> number_taken (po_name p) (cl_name c) selfLease cs ls m"
  shows "allocateNumber k p c selfLease s = (Inr 0, s2)"
proof -
  define used where "used = usedNumbers_leases (po_name p) selfLease ls
      (usedNumbers_claims (po_name p) (cl_name c) cs [])"
  have free: "map_of used n = None \<longleftrightarrow> \<not> number_taken (po_name p) (cl_name c) selfLease cs ls n" for n
    by (simp add: used_def usedNumbers_dom)
  have "map_of used 0 = None" by (simp add: free number_taken_def)
  then have "firstFit_number used (- 1) 0 = Some (Some 0)" by (subst firstFit_number.simps) simp
  moreover have "\<forall>m. num_min spec \<le> m \<longrightarrow> map_of used m \<noteq> None" using full free by blast
  ultimately have "firstFit_number used (- 1) (num_min spec) = Some (Some 0)"
    by (simp add: firstFit_number_skip)
  then show ?thesis
    by (simp add: allocateNumber_def spec api_bind_def collectUsedNumbers_run[OF lists] used_def
          chooseNumber_def)
qed

section \<open>Addresses\<close>

lemma firstFit_cases:
  assumes "\<forall>c \<in> set cs. candidate_wf c"
  shows "(\<exists>x c. firstFitCandidate cs used = Some (x, True) \<and> c \<in> set cs
            \<and> lowest_free used (ipRange_addrs (allocatable c)) x)
       \<or> (firstFitCandidate cs used = Some (AddrZero, False)
            \<and> (\<forall>c \<in> set cs. \<forall>y \<in> ipRange_addrs (allocatable c). map_of used y \<noteq> None))"
  using assms
proof (induction cs)
  case Nil
  then show ?case by simp
next
  case (Cons c cs)
  then show ?case
    using firstFit_allocatable[of "allocatable c" used] by (auto simp: candidate_wf_def)
qed


lemma filteredCandidates_cases:
  assumes "filteredCandidates p spec c = Inr cands"
  obtains "parsePoolCandidates spec = Inr cands"
    | pool_cands fs flt where "parsePoolCandidates spec = Inr pool_cands"
        "parsePrefixCandidates fs = Inr flt" "cands = intersectCandidates pool_cands flt"
proof (cases "parsePoolCandidates spec")
  case (Inl e)
  then show ?thesis using assms by (simp add: filteredCandidates_def)
next
  case (Inr pool_cands)
  show ?thesis
  proof (cases "\<exists>f fs. cl_allocationFilter c = Some (f # fs)")
    case True
    then obtain f fs where "cl_allocationFilter c = Some (f # fs)" by blast
    then show ?thesis
      using assms Inr that(2)[of pool_cands "f # fs"]
      by (simp add: filteredCandidates_def Let_def split: sum.splits if_splits)
  next
    case False
    then have "filteredCandidates p spec c = Inr pool_cands"
      by (simp add: filteredCandidates_def Inr split: option.split list.split)
    then show ?thesis using assms that(1) Inr by simp
  qed
qed

lemma filteredCandidates_wf:
  assumes "filteredCandidates p spec c = Inr cands" "ranges_zoneless (Ranges spec)" "d \<in> set cands"
  shows "candidate_wf d"
  using assms(1)
proof (cases rule: filteredCandidates_cases)
  case 1
  then show ?thesis using assms parsePoolCandidates_wf by blast
next
  case (2 pool_cands fs flt)
  then show ?thesis using assms(3) parsePrefixCandidates_wf by (simp add: intersectCandidates_def)
qed

text \<open>Filtering only narrows: what remains lies inside the pool.\<close>

lemma filteredCandidates_inside:
  assumes "filteredCandidates p spec c = Inr cands" "d \<in> set cands" "ipRange_contains (span d) a"
  obtains pool_cands e where "parsePoolCandidates spec = Inr pool_cands" "e \<in> set pool_cands"
    "ipRange_contains (span e) a"
  using assms(1)
proof (cases rule: filteredCandidates_cases)
  case 1
  then show ?thesis using assms that by blast
next
  case (2 pool_cands fs flt)
  then obtain e where "e \<in> set pool_cands" "ipRange_covers (span e) (span d)"
    using assms(2) by (auto simp: intersectCandidates_def)
  moreover from this(2) assms(3) have "ipRange_contains (span e) a"
    by (auto simp: ipRange_covers_def ipRange_contains_def)
  ultimately show ?thesis using 2 that by blast
qed

text \<open>
  C15. \<open>allocateIP\<close> returns the text of an address inside the candidate space of the pool, inside the
  claim's filter when it has one, not excluded and held by no other Allocated claim on the pool and no
  lease of the pool: the requested address, or the first free one. It fails only when the request is
  malformed, outside or taken, or when every allocatable address is taken.
\<close>

theorem allocateIP_fresh:
  assumes lists: "list_claims k s = (Inr cs, s1)" "list_leases k s1 = (Inr ls, s2)"
    and spec: "po_ip p = Some spec" "ranges_zoneless (Ranges spec)"
    and cands: "filteredCandidates p spec c = Inr cands"
  shows "case allocateIP k p c selfLease s of
           (Inr ip, s') \<Rightarrow> s' = s2 \<and>
             (\<exists>a pool_cands e d. ip = addr_string a
                \<and> parsePoolCandidates spec = Inr pool_cands \<and> e \<in> set pool_cands
                \<and> ipRange_contains (span e) a
                \<and> d \<in> set cands \<and> ipRange_contains (span d) a
                \<and> \<not> ip_taken (po_name p) (cl_name c) selfLease cs ls a
                \<and> a \<notin> excluded_addrs (Excluded spec)
                \<and> (\<forall>r. cl_requestedIP c = Some r \<longrightarrow> ParseAddr r = Some a))
         | (Inl e, s') \<Rightarrow> s' = s2 \<and>
             (case cl_requestedIP c of
                Some r \<Rightarrow> (\<forall>a. ParseAddr r = Some a \<longrightarrow>
                    \<not> candidatesContain cands a \<or> a \<in> excluded_addrs (Excluded spec)
                    \<or> ip_taken (po_name p) (cl_name c) selfLease cs ls a)
              | None \<Rightarrow> e = AllPoolsExhausted \<and>
                  (\<forall>d \<in> set cands. \<forall>a \<in> ipRange_addrs (allocatable d).
                     ip_taken (po_name p) (cl_name c) selfLease cs ls a \<or> a \<in> excluded_addrs (Excluded spec)))"
proof -
  define used where "used = mark_excluded (Excluded spec)
      (usedPoolIPs (po_name p) (cl_name c) selfLease cs ls)"
  have free: "map_of used a = None \<longleftrightarrow> \<not> ip_taken (po_name p) (cl_name c) selfLease cs ls a
      \<and> a \<notin> excluded_addrs (Excluded spec)" for a
    by (simp add: used_def mark_excluded_dom usedPoolIPs_dom)
  have run: "allocateIP k p c selfLease s =
      (case chooseIP p c cands used of Inl e \<Rightarrow> (Inl e, s2) | Inr ip \<Rightarrow> (Inr ip, s2))"
    by (simp add: allocateIP_def spec(1) cands api_bind_def collectUsedIPs_run[OF lists] used_def
          split: sum.split)
  have wf: "\<forall>d \<in> set cands. candidate_wf d" using filteredCandidates_wf[OF cands spec(2)] by blast
  have inside: "\<exists>pool_cands e. parsePoolCandidates spec = Inr pool_cands \<and> e \<in> set pool_cands
      \<and> ipRange_contains (span e) a" if "d \<in> set cands" "ipRange_contains (span d) a" for a d
    using filteredCandidates_inside[OF cands that] by metis
  show ?thesis
  proof (cases "cl_requestedIP c")
    case None
    from firstFit_cases[OF wf, of used] show ?thesis
    proof (elim disjE exE conjE)
      fix x d
      assume f: "firstFitCandidate cands used = Some (x, True)" "d \<in> set cands"
        "lowest_free used (ipRange_addrs (allocatable d)) x"
      then have "x \<in> ipRange_addrs (span d)" "map_of used x = None"
        using wf by (auto simp: lowest_free_def candidate_wf_def)
      then have "ipRange_contains (span d) x"
        by (auto simp: ipRange_addrs_def addrs_between_def ipRange_contains_def)
      then show ?thesis
        using None f(1,2) inside[OF f(2), of x] free[of x] \<open>map_of used x = None\<close>
        by (simp add: run chooseIP_def) blast
    qed (use None free in \<open>auto simp: run chooseIP_def\<close>)
  next
    case (Some r)
    show ?thesis
    proof (cases "ParseAddr r")
      case None
      then show ?thesis using Some by (simp add: run chooseIP_def)
    next
      case a: (Some a)
      show ?thesis
      proof (cases "candidatesContain cands a \<and> map_of used a = None")
        case True
        then obtain d where "d \<in> set cands" "ipRange_contains (span d) a"
          by (auto simp: candidatesContain_def)
        then show ?thesis
          using Some a True inside[of d a] free[of a] by (simp add: run chooseIP_def) blast
      next
        case False
        then show ?thesis
          using Some a free[of a] by (auto simp: run chooseIP_def split: option.split)
      qed
    qed
  qed
qed

end
