(* ===== verification/AllocLease.thy ===== *)
theory AllocLease
  imports AllocClaim
begin

text \<open>
  The AllocationLease controller (\<open>allocationlease_controller.go\<close>), which reaps leases after their
  grace period, and the AllocationPool controller (\<open>allocationpool_controller.go\<close>). Times and durations
  are nanoseconds.
\<close>

section \<open>The lease controller\<close>

definition AllocationLeasePhaseActive :: string where "AllocationLeasePhaseActive = ''Active''"
definition AllocationLeasePhaseRetained :: string where "AllocationLeasePhaseRetained = ''Retained''"
definition AllocationLeasePhaseReleased :: string where "AllocationLeasePhaseReleased = ''Released''"
definition AllocationLeasePhaseExpired :: string where "AllocationLeasePhaseExpired = ''Expired''"

definition second :: int where "second = 1000000000"

definition allocationLeaseRetainResyncInterval :: int where
  "allocationLeaseRetainResyncInterval = 5 * 60 * second"

record allocationLeaseStatus =
  als_phase :: string
  als_expiresAt :: "int option"
  als_retainReleasedAt :: "int option"
  als_ready :: bool
  als_reason :: string
  als_message :: cond_message

definition retainedObjectExists :: "'s kube \<Rightarrow> retain_ref \<Rightarrow> ('s, alloc_error, bool) api" where
  "retainedObjectExists k ref =
     api_bind (api_try (retained_get k ref)) (\<lambda>r. case r of
       Inr _ \<Rightarrow> api_return True
     | Inl NotFound \<Rightarrow> api_return False
     | Inl NoMatch \<Rightarrow> api_return False
     | Inl NotRegistered \<Rightarrow> api_return False
     | Inl e \<Rightarrow> api_throw (Kube e))"

definition lease_updateStatus_body ::
  "'s kube \<Rightarrow> lease \<Rightarrow> allocationLeaseStatus \<Rightarrow> ('s, alloc_error, lease) api" where
  "lease_updateStatus_body k resource desired =
     api_bind (kcall (get_lease k (le_name resource))) (\<lambda>fresh. (\<lambda>s.
       let updated = (le_status fresh)
             \<lparr>lst_observedGeneration := le_generation fresh, lst_phase := als_phase desired,
              lst_expiresAt := als_expiresAt desired, lst_retainReleasedAt := als_retainReleasedAt desired,
              lst_conditions := setStatusCondition k s (lst_conditions (le_status fresh))
                \<lparr>cond_type = StatusReady, cond_status = als_ready desired,
                 cond_reason = als_reason desired, cond_message = als_message desired,
                 cond_observedGeneration = le_generation fresh\<rparr>\<rparr>
       in (if le_status fresh = updated then api_return fresh
           else kcall (update_lease_status k (fresh\<lparr>le_status := updated\<rparr>))) s))"

definition lease_updateStatus ::
  "'s kube \<Rightarrow> lease \<Rightarrow> allocationLeaseStatus \<Rightarrow> ('s, alloc_error, lease) api" where
  "lease_updateStatus k resource desired = retry_lease k (lease_updateStatus_body k resource desired)"

definition releasedRequeueAfter :: "lease \<Rightarrow> int \<Rightarrow> int \<Rightarrow> int" where
  "releasedRequeueAfter resource now expiresAt =
     (let untilExpiry = expiresAt - now + second
      in if ls_retainWhile (le_spec resource) \<noteq> None \<and> untilExpiry > allocationLeaseRetainResyncInterval
         then allocationLeaseRetainResyncInterval else untilExpiry)"

text \<open>The grace period; \<open>TTLSeconds\<close> is a signed 32-bit number.\<close>

definition lease_ttl :: "lease_spec \<Rightarrow> int" where
  "lease_ttl spec =
     (case ls_ttlSeconds spec of
        Some t \<Rightarrow> if sint t > 0 then sint t * second else 0
      | None \<Rightarrow> 0)"

text \<open>
  What a pass does once it knows when the grace period starts: delete the lease or wait for the expiry.
  The result is the delay before the next pass, 0 for none.
\<close>

definition reapLease :: "'s kube \<Rightarrow> lease \<Rightarrow> int \<Rightarrow> int \<Rightarrow> int option \<Rightarrow> ('s, alloc_error, int) api" where
  "reapLease k resource now ttlStartsAt retainReleasedAt =
     (let expiresAt = ttlStartsAt + lease_ttl (le_spec resource)
      in if \<not> now < expiresAt then
           api_bind (api_try (lease_updateStatus k resource
               \<lparr>als_phase = AllocationLeasePhaseExpired, als_expiresAt = Some expiresAt,
                als_retainReleasedAt = retainReleasedAt, als_ready = False,
                als_reason = ''Expired'', als_message = Text ''TTL has elapsed''\<rparr>)) (\<lambda>_ :: alloc_error + lease.
             api_bind (api_try (delete_lease_uid k resource)) (\<lambda>r. case r of
               Inr _ \<Rightarrow> api_return 0
             | Inl NotFound \<Rightarrow> api_return 0
             | Inl Conflict \<Rightarrow> api_return 0
             | Inl e \<Rightarrow> api_throw (Kube e)))
         else
           api_bind (lease_updateStatus k resource
               \<lparr>als_phase = AllocationLeasePhaseReleased, als_expiresAt = Some expiresAt,
                als_retainReleasedAt = retainReleasedAt, als_ready = False,
                als_reason = ''Released'', als_message = Text ''claim has been deleted; awaiting TTL''\<rparr>)
             (\<lambda>_. api_return (releasedRequeueAfter resource now expiresAt)))"

definition reconcileReleased :: "'s kube \<Rightarrow> lease \<Rightarrow> int \<Rightarrow> int \<Rightarrow> ('s, alloc_error, int) api" where
  "reconcileReleased k resource now ownerDeleted =
     (case ls_retainWhile (le_spec resource) of
        None \<Rightarrow> reapLease k resource now ownerDeleted None
      | Some ref \<Rightarrow>
          api_bind (api_try (retainedObjectExists k ref)) (\<lambda>r. case r of
            Inl e \<Rightarrow>
              api_bind (api_try (lease_updateStatus k resource
                  \<lparr>als_phase = AllocationLeasePhaseRetained,
                   als_expiresAt = lst_expiresAt (le_status resource),
                   als_retainReleasedAt = lst_retainReleasedAt (le_status resource), als_ready = False,
                   als_reason = ''RetainCheckFailed'', als_message = RetainFailed (retainReferenceKey ref) e\<rparr>))
                (\<lambda>_ :: alloc_error + lease. api_throw e)
          | Inr True \<Rightarrow>
              api_bind (lease_updateStatus k resource
                  \<lparr>als_phase = AllocationLeasePhaseRetained, als_expiresAt = None,
                   als_retainReleasedAt = None, als_ready = False, als_reason = ''Retained'',
                   als_message = StillExists (retainReferenceKey ref)\<rparr>)
                (\<lambda>_. api_return allocationLeaseRetainResyncInterval)
          | Inr False \<Rightarrow>
              (let released = (case lst_retainReleasedAt (le_status resource) of
                                 None \<Rightarrow> now | Some t \<Rightarrow> t)
               in reapLease k resource now released (Some released))))"

definition lease_Reconcile :: "'s kube \<Rightarrow> string \<Rightarrow> ('s, alloc_error, int) api" where
  "lease_Reconcile k name = (\<lambda>s.
     let now = time_now k s
     in api_bind (api_try (get_lease k name)) (\<lambda>r. case r of
          Inl NotFound \<Rightarrow> api_return 0
        | Inl e \<Rightarrow> api_throw (Kube e)
        | Inr resource \<Rightarrow>
            if le_deletionTimestamp resource \<noteq> None then api_return 0
            else case ls_ownerDeletionTimestamp (le_spec resource) of
              None \<Rightarrow>
                api_bind (lease_updateStatus k resource
                    \<lparr>als_phase = AllocationLeasePhaseActive, als_expiresAt = None,
                     als_retainReleasedAt = None, als_ready = True, als_reason = ''Active'',
                     als_message = Text ''lease backs an active claim''\<rparr>)
                  (\<lambda>_. api_return 0)
            | Some t \<Rightarrow> reconcileReleased k resource now t) s)"

definition mapRetainedObjectToLeases :: "string \<Rightarrow> string \<Rightarrow> string \<Rightarrow> string \<Rightarrow> lease list \<Rightarrow> string list" where
  "mapRetainedObjectToLeases apiVersion kind namespace name leases =
     (let key = retainReferenceKey \<lparr>rr_apiVersion = apiVersion, rr_kind = kind,
                  rr_namespace = namespace, rr_name = name\<rparr>
      in [le_name l. l \<leftarrow> leases, map_option retainReferenceKey (ls_retainWhile (le_spec l)) = Some key])"

section \<open>The pool controller\<close>

datatype pool_invalid =
    NumberRequired | MinAboveMax | IPRequired | NoEntries
  | InvalidPoolCIDR string | InvalidPoolRange candidate_error | InvalidExcluded string

definition validateAllocationPoolForStatus :: "pool \<Rightarrow> pool_invalid option" where
  "validateAllocationPoolForStatus p =
     (if po_type p = AllocationTypeNumber then
        (case po_number p of
           None \<Rightarrow> Some NumberRequired
         | Some spec \<Rightarrow> if num_min spec > num_max spec then Some MinAboveMax else None)
      else if po_type p = AllocationTypeIP then
        (case po_ip p of
           None \<Rightarrow> Some IPRequired
         | Some spec \<Rightarrow>
             if CIDRs spec = [] \<and> Ranges spec = [] then Some NoEntries
             else case List.find (\<lambda>raw. ParsePrefix raw = None) (CIDRs spec) of
               Some raw \<Rightarrow> Some (InvalidPoolCIDR raw)
             | None \<Rightarrow>
                 (case parseRangeCandidates (Ranges spec) of
                    Inl e \<Rightarrow> Some (InvalidPoolRange e)
                  | Inr _ \<Rightarrow> map_option InvalidExcluded
                               (List.find (\<lambda>raw. ParseAddr raw = None) (Excluded spec))))
      else None)"

definition pool_updateStatus_body ::
  "'s kube \<Rightarrow> pool \<Rightarrow> bool \<Rightarrow> string \<Rightarrow> cond_message \<Rightarrow> ('s, alloc_error, pool) api" where
  "pool_updateStatus_body k resource ready reason msg =
     api_bind (kcall (get_pool k (po_name resource))) (\<lambda>fresh. (\<lambda>s.
       let updated = (po_status fresh)
             \<lparr>ps_observedGeneration := po_generation fresh,
              ps_conditions := setStatusCondition k s (ps_conditions (po_status fresh))
                \<lparr>cond_type = StatusReady, cond_status = ready, cond_reason = reason,
                 cond_message = msg, cond_observedGeneration = po_generation fresh\<rparr>\<rparr>
       in (if updated = po_status fresh then api_return fresh
           else kcall (update_pool_status k (fresh\<lparr>po_status := updated\<rparr>))) s))"

definition pool_Reconcile :: "'s kube \<Rightarrow> (pool_invalid \<Rightarrow> string) \<Rightarrow> string \<Rightarrow> ('s, alloc_error, unit) api" where
  "pool_Reconcile k render name =
     api_bind (api_try (get_pool k name)) (\<lambda>r. case r of
       Inl NotFound \<Rightarrow> api_return ()
     | Inl e \<Rightarrow> api_throw (Kube e)
     | Inr resource \<Rightarrow>
         (case (if po_deletionTimestamp resource = None
                then validateAllocationPoolForStatus resource else None) of
            Some msg \<Rightarrow>
              api_bind (retry_pool k (pool_updateStatus_body k resource False ''Invalid'' (Text (render msg))))
                (\<lambda>_. api_return ())
          | None \<Rightarrow>
              api_bind (retry_pool k (pool_updateStatus_body k resource True ''ReconcileSucceeded'' NoMessage))
                (\<lambda>_. api_return ())))"

end
