(* ===== verification/AllocStore.thy ===== *)
theory AllocStore
  imports AllocLease
begin

text \<open>
  The allocation controllers over a cluster that keeps what is written to it. \<open>kube_ok\<close> lists what
  the controllers rely on: reads do not write, a successful write is visible, a failed one either
  happened or did not, and the retry loop runs its body in sequence. Under these laws every pass of
  the claim and the lease controller keeps the values of live claims distinct.
\<close>

section \<open>The stored objects\<close>

record store =
  st_claims :: "string \<Rightarrow> claim option"
  st_leases :: "string \<Rightarrow> lease option"
  st_pools :: "string \<Rightarrow> pool option"

definition store_wf :: "store \<Rightarrow> bool" where
  "store_wf st \<longleftrightarrow>
     (\<forall>n c. st_claims st n = Some c \<longrightarrow> cl_name c = n \<and> n \<noteq> [])
   \<and> (\<forall>n l. st_leases st n = Some l \<longrightarrow> le_name l = n \<and> n \<noteq> [])
   \<and> (\<forall>n p. st_pools st n = Some p \<longrightarrow> po_name p = n)"

text \<open>What a call may do to the stored objects, by its kind.\<close>

definition read_ok :: "('s \<Rightarrow> store) \<Rightarrow> ('s, 'e, 'a) api \<Rightarrow> (store \<Rightarrow> 'a \<Rightarrow> bool) \<Rightarrow> (store \<Rightarrow> 'e \<Rightarrow> bool) \<Rightarrow> bool" where
  "read_ok view m found failed \<longleftrightarrow>
     (\<forall>s r s'. m s = (r, s') \<longrightarrow> view s' = view s
        \<and> (case r of Inr x \<Rightarrow> found (view s) x | Inl e \<Rightarrow> failed (view s) e))"

definition write_ok :: "('s \<Rightarrow> store) \<Rightarrow> ('s, 'e, 'a) api \<Rightarrow> (store \<Rightarrow> store \<Rightarrow> bool) \<Rightarrow> (store \<Rightarrow> 'e \<Rightarrow> bool) \<Rightarrow> bool" where
  "write_ok view m applied failed \<longleftrightarrow>
     (\<forall>s r s'. m s = (r, s') \<longrightarrow>
        (case r of
           Inr x \<Rightarrow> applied (view s) (view s')
         | Inl e \<Rightarrow> (view s' = view s \<or> applied (view s) (view s')) \<and> failed (view s) e))"

definition any_error :: "store \<Rightarrow> 'e \<Rightarrow> bool" where
  "any_error st e \<longleftrightarrow> True"

text \<open>The effect of each write.\<close>

definition lease_created :: "lease \<Rightarrow> store \<Rightarrow> store \<Rightarrow> bool" where
  "lease_created l st st' \<longleftrightarrow> st_leases st (le_name l) = None \<and>
     (\<exists>l'. le_name l' = le_name l \<and> le_spec l' = le_spec l
         \<and> st' = st\<lparr>st_leases := (st_leases st)(le_name l \<mapsto> l')\<rparr>)"

definition lease_updated :: "lease \<Rightarrow> store \<Rightarrow> store \<Rightarrow> bool" where
  "lease_updated l st st' \<longleftrightarrow>
     (\<exists>old l'. st_leases st (le_name l) = Some old \<and> le_name l' = le_name l \<and> le_spec l' = le_spec l
         \<and> st' = st\<lparr>st_leases := (st_leases st)(le_name l \<mapsto> l')\<rparr>)"

definition lease_status_updated :: "lease \<Rightarrow> store \<Rightarrow> store \<Rightarrow> bool" where
  "lease_status_updated l st st' \<longleftrightarrow>
     (\<exists>old l'. st_leases st (le_name l) = Some old \<and> le_name l' = le_name l \<and> le_spec l' = le_spec old
         \<and> le_deletionTimestamp l' = le_deletionTimestamp old
         \<and> st' = st\<lparr>st_leases := (st_leases st)(le_name l \<mapsto> l')\<rparr>)"

definition lease_deleted :: "lease \<Rightarrow> store \<Rightarrow> store \<Rightarrow> bool" where
  "lease_deleted l st st' \<longleftrightarrow> st' = st\<lparr>st_leases := (st_leases st)(le_name l := None)\<rparr>"

definition claim_updated :: "claim \<Rightarrow> store \<Rightarrow> store \<Rightarrow> bool" where
  "claim_updated c st st' \<longleftrightarrow>
     (\<exists>old. st_claims st (cl_name c) = Some old \<and>
        (st' = st\<lparr>st_claims := (st_claims st)(cl_name c := None)\<rparr> \<and> cl_deletionTimestamp old \<noteq> None
       \<or> (\<exists>c'. cl_name c' = cl_name c \<and> cl_deletionTimestamp c' = cl_deletionTimestamp old
            \<and> cl_poolRefs c' = cl_poolRefs c \<and> cl_phase c' = cl_phase old \<and> cl_value c' = cl_value old
            \<and> st' = st\<lparr>st_claims := (st_claims st)(cl_name c \<mapsto> c')\<rparr>)))"

definition claim_status_updated :: "claim \<Rightarrow> store \<Rightarrow> store \<Rightarrow> bool" where
  "claim_status_updated c st st' \<longleftrightarrow>
     (\<exists>old c'. st_claims st (cl_name c) = Some old \<and> cl_name c' = cl_name c
         \<and> cl_deletionTimestamp c' = cl_deletionTimestamp old \<and> cl_poolRefs c' = cl_poolRefs old
         \<and> cl_phase c' = cl_phase c \<and> cl_value c' = cl_value c
         \<and> st' = st\<lparr>st_claims := (st_claims st)(cl_name c \<mapsto> c')\<rparr>)"

definition pool_status_updated :: "pool \<Rightarrow> store \<Rightarrow> store \<Rightarrow> bool" where
  "pool_status_updated p st st' \<longleftrightarrow>
     (\<exists>old. st_pools st (po_name p) = Some old
         \<and> st' = st\<lparr>st_pools := (st_pools st)(po_name p \<mapsto> old\<lparr>po_status := po_status p\<rparr>)\<rparr>)"

text \<open>A retry loop with a bounded number of steps.\<close>

fun is_conflict :: "alloc_error \<Rightarrow> bool" where
  "is_conflict (Kube Conflict) = True"
| "is_conflict (ListClaimsFailed _ Conflict) = True"
| "is_conflict (ListLeasesFailed _ Conflict) = True"
| "is_conflict _ = False"

fun retry_steps :: "nat \<Rightarrow> ('s, alloc_error, 'a) api \<Rightarrow> ('s, alloc_error, 'a) api" where
  "retry_steps 0 m = m"
| "retry_steps (Suc n) m = (\<lambda>s. case m s of
     (Inl e, s') \<Rightarrow> if is_conflict e then retry_steps n m s' else (Inl e, s')
   | (Inr x, s') \<Rightarrow> (Inr x, s'))"

definition retry_ok :: "(('s, alloc_error, 'a) api \<Rightarrow> ('s, alloc_error, 'a) api) \<Rightarrow> bool" where
  "retry_ok r \<longleftrightarrow> (\<forall>m s. \<exists>n. r m s = retry_steps n m s)"

section \<open>The laws\<close>

definition reads_ok :: "'s kube \<Rightarrow> ('s \<Rightarrow> store) \<Rightarrow> bool" where
  "reads_ok k view \<longleftrightarrow>
     (\<forall>n. read_ok view (get_claim k n) (\<lambda>st c. st_claims st n = Some c) any_error)
   \<and> (\<forall>n. read_ok view (read_claim k n) (\<lambda>st c. st_claims st n = Some c) any_error)
   \<and> (\<forall>n. read_ok view (get_lease k n) (\<lambda>st l. st_leases st n = Some l)
             (\<lambda>st e. e = NotFound \<longrightarrow> st_leases st n = None))
   \<and> (\<forall>n. read_ok view (read_lease k n) (\<lambda>st l. st_leases st n = Some l)
             (\<lambda>st e. e = NotFound \<longrightarrow> st_leases st n = None))
   \<and> (\<forall>n. read_ok view (get_pool k n) (\<lambda>st p. st_pools st n = Some p) any_error)
   \<and> (\<forall>n. read_ok view (read_pool k n) (\<lambda>st p. st_pools st n = Some p) any_error)
   \<and> read_ok view (list_claims k) (\<lambda>st cs. set cs = ran (st_claims st)) any_error
   \<and> read_ok view (list_leases k) (\<lambda>st ls. set ls = ran (st_leases st)) any_error
   \<and> (\<forall>r. read_ok view (owner_exists k r) (\<lambda>st x. True) any_error)
   \<and> (\<forall>r. read_ok view (retained_get k r) (\<lambda>st x. True) any_error)"

definition writes_ok :: "'s kube \<Rightarrow> ('s \<Rightarrow> store) \<Rightarrow> bool" where
  "writes_ok k view \<longleftrightarrow>
     (\<forall>c. write_ok view (update_claim k c) (claim_updated c) any_error)
   \<and> (\<forall>c. write_ok view (update_claim_status k c) (claim_status_updated c) any_error)
   \<and> (\<forall>l. write_ok view (create_lease k l) (lease_created l)
             (\<lambda>st e. e = AlreadyExists \<longrightarrow> st_leases st (le_name l) \<noteq> None))
   \<and> (\<forall>l. write_ok view (update_lease k l) (lease_updated l) any_error)
   \<and> (\<forall>l. write_ok view (update_lease_status k l) (lease_status_updated l) any_error)
   \<and> (\<forall>l. write_ok view (delete_lease k l) (lease_deleted l) any_error)
   \<and> (\<forall>l. write_ok view (delete_lease_uid k l) (lease_deleted l) any_error)
   \<and> (\<forall>p. write_ok view (update_pool_status k p) (pool_status_updated p) any_error)"

definition helpers_ok :: "'s kube \<Rightarrow> bool" where
  "helpers_ok k \<longleftrightarrow>
     retry_ok (retry_claim k) \<and> retry_ok (retry_lease k) \<and> retry_ok (retry_pool k)
   \<and> (\<forall>p l l'. setControllerReference k p l = Inr l' \<longrightarrow> le_name l' = le_name l \<and> le_spec l' = le_spec l)"

definition kube_ok :: "'s kube \<Rightarrow> ('s \<Rightarrow> store) \<Rightarrow> bool" where
  "kube_ok k view \<longleftrightarrow> reads_ok k view \<and> writes_ok k view \<and> helpers_ok k \<and> (\<forall>s. store_wf (view s))"

section \<open>Distinct values\<close>

definition same_value :: "alloc_value \<Rightarrow> alloc_value \<Rightarrow> bool" where
  "same_value v w \<longleftrightarrow>
     (av_number v \<noteq> 0 \<and> av_number v = av_number w)
   \<or> (av_ip v \<noteq> [] \<and> av_ip w \<noteq> [] \<and> ParseAddr (av_ip v) \<noteq> None \<and> ParseAddr (av_ip v) = ParseAddr (av_ip w))"

text \<open>A live claim that holds a value of its only pool.\<close>

definition holder :: "store \<Rightarrow> string \<Rightarrow> claim \<Rightarrow> bool" where
  "holder st poolName c \<longleftrightarrow> c \<in> ran (st_claims st) \<and> cl_deletionTimestamp c = None
     \<and> cl_phase c = AllocationClaimPhaseAllocated \<and> cl_poolRefs c = [poolName]"

text \<open>Pools of addresses hold IPv4 space, as the admission webhook demands of ranges.\<close>

definition pool_v4 :: "pool \<Rightarrow> bool" where
  "pool_v4 p \<longleftrightarrow> (\<forall>spec. po_ip p = Some spec \<longrightarrow> ranges_zoneless (Ranges spec)
      \<and> (\<forall>cands. parsePoolCandidates spec = Inr cands \<longrightarrow>
           (\<forall>c \<in> set cands. Is4 (lo (span c)) \<and> Is4 (hi (span c)))))"

definition claims_distinct :: "store \<Rightarrow> bool" where
  "claims_distinct st \<longleftrightarrow>
     (\<forall>p c d. holder st p c \<and> holder st p d \<and> same_value (cl_value c) (cl_value d) \<longrightarrow> c = d)"

definition leases_owned :: "store \<Rightarrow> bool" where
  "leases_owned st \<longleftrightarrow>
     (\<forall>c l. holder st (ls_poolRef (le_spec l)) c \<and> l \<in> ran (st_leases st)
        \<and> same_value (ls_value (le_spec l)) (cl_value c) \<longrightarrow>
        leaseOwnedByClaim l c \<and> ls_ownerDeletionTimestamp (le_spec l) = None)"

definition leases_distinct :: "store \<Rightarrow> bool" where
  "leases_distinct st \<longleftrightarrow>
     (\<forall>l m. l \<in> ran (st_leases st) \<and> m \<in> ran (st_leases st)
        \<and> ls_poolRef (le_spec l) = ls_poolRef (le_spec m)
        \<and> same_value (ls_value (le_spec l)) (ls_value (le_spec m)) \<longrightarrow> le_name l = le_name m)"

definition alloc_inv :: "store \<Rightarrow> bool" where
  "alloc_inv st \<longleftrightarrow> store_wf st \<and> claims_distinct st \<and> leases_owned st \<and> leases_distinct st \<and> (\<forall>n p. st_pools st n = Some p \<longrightarrow> pool_v4 p)"

section \<open>Single writes\<close>

lemma same_value_sym: "same_value v w \<longleftrightarrow> same_value w v"
  unfolding same_value_def by metis

lemma leases_ownedD:
  assumes "alloc_inv st" "holder st (ls_poolRef (le_spec l)) c" "l \<in> ran (st_leases st)"
    "same_value (ls_value (le_spec l)) (cl_value c)"
  shows "leaseOwnedByClaim l c \<and> ls_ownerDeletionTimestamp (le_spec l) = None"
  using assms unfolding alloc_inv_def leases_owned_def by blast

lemma ran_put: "x \<in> ran (m(n \<mapsto> y)) \<longleftrightarrow> x = y \<or> (\<exists>k. k \<noteq> n \<and> m k = Some x)"
  by (auto simp: ran_def)

lemma alloc_inv_lease_put:
  assumes inv: "alloc_inv st" and l: "le_name l = n" "n \<noteq> []"
    and others: "\<And>m. m \<in> ran (st_leases st) \<Longrightarrow> le_name m \<noteq> n \<Longrightarrow>
        ls_poolRef (le_spec l) = ls_poolRef (le_spec m) \<Longrightarrow>
        \<not> same_value (ls_value (le_spec l)) (ls_value (le_spec m))"
    and own: "\<And>c. holder st (ls_poolRef (le_spec l)) c \<Longrightarrow>
        same_value (ls_value (le_spec l)) (cl_value c) \<Longrightarrow>
        leaseOwnedByClaim l c \<and> ls_ownerDeletionTimestamp (le_spec l) = None"
  shows "alloc_inv (st\<lparr>st_leases := (st_leases st)(n \<mapsto> l)\<rparr>)"
proof -
  let ?st = "st\<lparr>st_leases := (st_leases st)(n \<mapsto> l)\<rparr>"
  have h: "holder ?st = holder st" by (simp add: holder_def fun_eq_iff)
  have old: "m = l \<or> m \<in> ran (st_leases st) \<and> le_name m \<noteq> n" if "m \<in> ran (st_leases ?st)" for m
    using inv that by (auto simp: alloc_inv_def store_wf_def ran_put intro: ranI)
  have "claims_distinct ?st" using inv unfolding alloc_inv_def claims_distinct_def h by blast
  moreover have "leases_owned ?st"
    unfolding leases_owned_def h
  proof (intro allI impI, elim conjE)
    fix c m
    assume a: "holder st (ls_poolRef (le_spec m)) c" "m \<in> ran (st_leases ?st)"
      "same_value (ls_value (le_spec m)) (cl_value c)"
    from old[OF a(2)] show "leaseOwnedByClaim m c \<and> ls_ownerDeletionTimestamp (le_spec m) = None"
    proof
      assume "m = l"
      then show ?thesis using a own by simp
    next
      assume "m \<in> ran (st_leases st) \<and> le_name m \<noteq> n"
      then show ?thesis using a leases_ownedD[OF inv, of m c] by simp
    qed
  qed
  moreover have "leases_distinct ?st"
    unfolding leases_distinct_def
  proof (intro allI impI, elim conjE)
    fix a b
    assume ab: "a \<in> ran (st_leases ?st)" "b \<in> ran (st_leases ?st)"
      "ls_poolRef (le_spec a) = ls_poolRef (le_spec b)"
      "same_value (ls_value (le_spec a)) (ls_value (le_spec b))"
    from old[OF ab(1)] old[OF ab(2)] ab(3,4) others inv show "le_name a = le_name b"
      unfolding alloc_inv_def leases_distinct_def using same_value_sym by metis
  qed
  ultimately show ?thesis using inv l by (simp add: alloc_inv_def store_wf_def)
qed

lemma alloc_inv_lease_delete:
  assumes "alloc_inv st"
  shows "alloc_inv (st\<lparr>st_leases := (st_leases st)(n := None)\<rparr>)"
proof -
  let ?st = "st\<lparr>st_leases := (st_leases st)(n := None)\<rparr>"
  have h: "holder ?st = holder st" by (simp add: holder_def fun_eq_iff)
  have r: "m \<in> ran (st_leases ?st) \<Longrightarrow> m \<in> ran (st_leases st)" for m
    by (auto simp: ran_def split: if_splits)
  have "leases_owned ?st" using assms r unfolding alloc_inv_def leases_owned_def h by blast
  moreover have "leases_distinct ?st" using assms r unfolding alloc_inv_def leases_distinct_def by blast
  moreover have "claims_distinct ?st" using assms unfolding alloc_inv_def claims_distinct_def h by blast
  ultimately show ?thesis using assms by (simp add: alloc_inv_def store_wf_def)
qed

lemma alloc_inv_claim_delete:
  assumes "alloc_inv st"
  shows "alloc_inv (st\<lparr>st_claims := (st_claims st)(n := None)\<rparr>)"
proof -
  let ?st = "st\<lparr>st_claims := (st_claims st)(n := None)\<rparr>"
  have h: "holder ?st p c \<Longrightarrow> holder st p c" for p c
    by (auto simp: holder_def ran_def split: if_splits)
  have "claims_distinct ?st" using assms h unfolding alloc_inv_def claims_distinct_def by blast
  moreover have "leases_owned ?st" using assms h unfolding alloc_inv_def leases_owned_def by auto
  moreover have "leases_distinct ?st" using assms unfolding alloc_inv_def leases_distinct_def by simp
  ultimately show ?thesis using assms by (simp add: alloc_inv_def store_wf_def)
qed

lemma alloc_inv_claim_put:
  assumes inv: "alloc_inv st" and c: "cl_name c = n" "n \<noteq> []"
    and others: "\<And>p d. cl_deletionTimestamp c = None \<Longrightarrow> cl_phase c = AllocationClaimPhaseAllocated \<Longrightarrow>
        cl_poolRefs c = [p] \<Longrightarrow> holder st p d \<Longrightarrow> cl_name d \<noteq> n \<Longrightarrow>
        \<not> same_value (cl_value c) (cl_value d)"
    and own: "\<And>l. cl_deletionTimestamp c = None \<Longrightarrow> cl_phase c = AllocationClaimPhaseAllocated \<Longrightarrow>
        cl_poolRefs c = [ls_poolRef (le_spec l)] \<Longrightarrow> l \<in> ran (st_leases st) \<Longrightarrow>
        same_value (ls_value (le_spec l)) (cl_value c) \<Longrightarrow>
        leaseOwnedByClaim l c \<and> ls_ownerDeletionTimestamp (le_spec l) = None"
  shows "alloc_inv (st\<lparr>st_claims := (st_claims st)(n \<mapsto> c)\<rparr>)"
proof -
  let ?st = "st\<lparr>st_claims := (st_claims st)(n \<mapsto> c)\<rparr>"
  have h: "d = c \<and> cl_deletionTimestamp c = None \<and> cl_phase c = AllocationClaimPhaseAllocated \<and> cl_poolRefs c = [p]
      \<or> holder st p d \<and> cl_name d \<noteq> n" if "holder ?st p d" for p d
    using that inv by (auto simp: holder_def ran_put alloc_inv_def store_wf_def intro: ranI)
  have "claims_distinct ?st"
    unfolding claims_distinct_def
  proof (intro allI impI, elim conjE)
    fix p a b
    assume ab: "holder ?st p a" "holder ?st p b" "same_value (cl_value a) (cl_value b)"
    from h[OF ab(1)] h[OF ab(2)] ab(3) others inv show "a = b"
      unfolding alloc_inv_def claims_distinct_def using same_value_sym by metis
  qed
  moreover have "leases_owned ?st"
    unfolding leases_owned_def
  proof (intro allI impI, elim conjE)
    fix d m
    assume a: "holder ?st (ls_poolRef (le_spec m)) d" "m \<in> ran (st_leases ?st)"
      "same_value (ls_value (le_spec m)) (cl_value d)"
    from h[OF a(1)] show "leaseOwnedByClaim m d \<and> ls_ownerDeletionTimestamp (le_spec m) = None"
    proof
      assume "d = c \<and> cl_deletionTimestamp c = None \<and> cl_phase c = AllocationClaimPhaseAllocated
        \<and> cl_poolRefs c = [ls_poolRef (le_spec m)]"
      then show ?thesis using a own by simp
    next
      assume "holder st (ls_poolRef (le_spec m)) d \<and> cl_name d \<noteq> n"
      then show ?thesis using a leases_ownedD[OF inv, of m d] by simp
    qed
  qed
  moreover have "leases_distinct ?st" using inv unfolding alloc_inv_def leases_distinct_def by simp
  ultimately show ?thesis using inv c by (simp add: alloc_inv_def store_wf_def)
qed

lemma alloc_inv_pool_status:
  assumes "alloc_inv st" "st_pools st n = Some old"
  shows "alloc_inv (st\<lparr>st_pools := (st_pools st)(n \<mapsto> old\<lparr>po_status := ps\<rparr>)\<rparr>)"
proof -
  let ?st = "st\<lparr>st_pools := (st_pools st)(n \<mapsto> old\<lparr>po_status := ps\<rparr>)\<rparr>"
  have h: "holder ?st = holder st" by (simp add: holder_def fun_eq_iff)
  have "claims_distinct ?st" using assms unfolding alloc_inv_def claims_distinct_def h by blast
  moreover have "leases_owned ?st" using assms unfolding alloc_inv_def leases_owned_def h by auto
  moreover have "leases_distinct ?st" using assms unfolding alloc_inv_def leases_distinct_def by simp
  moreover have "pool_v4 (old\<lparr>po_status := ps\<rparr>)" using assms by (simp add: alloc_inv_def pool_v4_def)
  ultimately show ?thesis using assms by (simp add: alloc_inv_def store_wf_def)
qed

section \<open>Runs that only read\<close>

definition reads :: "('s \<Rightarrow> store) \<Rightarrow> store \<Rightarrow> ('s, 'e, 'a) api \<Rightarrow> ('a \<Rightarrow> bool) \<Rightarrow> ('e \<Rightarrow> bool) \<Rightarrow> bool" where
  "reads view st m Q E \<longleftrightarrow>
     (\<forall>s r s'. view s = st \<longrightarrow> m s = (r, s') \<longrightarrow>
        view s' = st \<and> (case r of Inr x \<Rightarrow> Q x | Inl e \<Rightarrow> E e))"

lemma reads_read_ok: "read_ok view m found failed \<Longrightarrow> reads view st m (found st) (failed st)"
  unfolding reads_def read_ok_def by blast

lemma reads_return: "Q x \<Longrightarrow> reads view st (api_return x) Q E"
  by (simp add: reads_def)

lemma reads_throw: "E e \<Longrightarrow> reads view st (api_throw e) Q E"
  by (simp add: reads_def)

lemma readsD:
  assumes "reads view st m Q E" "view s = st" "m s = (r, s')"
  shows "view s' = st" "r = Inr x \<Longrightarrow> Q x" "r = Inl e \<Longrightarrow> E e"
proof -
  have "view s' = st \<and> (case r of Inr x \<Rightarrow> Q x | Inl e \<Rightarrow> E e)"
    using assms unfolding reads_def by blast
  then show "view s' = st" "r = Inr x \<Longrightarrow> Q x" "r = Inl e \<Longrightarrow> E e" by simp_all
qed

lemma reads_bind:
  assumes m: "reads view st m Q E" and f: "\<And>x. Q x \<Longrightarrow> reads view st (f x) R E"
  shows "reads view st (api_bind m f) R E"
  unfolding reads_def
proof (intro allI impI)
  fix s r s'
  assume s: "view s = st" and b: "api_bind m f s = (r, s')"
  obtain r1 s1 where r1: "m s = (r1, s1)" by (cases "m s")
  note d = readsD[OF m s r1]
  show "view s' = st \<and> (case r of Inr x \<Rightarrow> R x | Inl e \<Rightarrow> E e)"
  proof (cases r1)
    case (Inl e)
    then show ?thesis using b r1 d by (auto simp: api_bind_def)
  next
    case (Inr x)
    then have "f x s1 = (r, s')" using b r1 by (simp add: api_bind_def)
    then show ?thesis using f[OF d(2)[OF Inr]] d(1) unfolding reads_def by blast
  qed
qed

lemma reads_try:
  fixes m :: "('s, 'e, 'a) api" and F :: "'f \<Rightarrow> bool"
  assumes "reads view st m Q E"
  shows "reads view st (api_try m) (\<lambda>r. case r of Inr x \<Rightarrow> Q x | Inl e \<Rightarrow> E e) F"
  unfolding reads_def
proof (intro allI impI)
  fix s r s'
  assume s: "view s = st" and b: "(api_try m :: ('s, 'f, 'e + 'a) api) s = (r, s')"
  obtain r1 s1 where r1: "m s = (r1, s1)" by (cases "m s")
  show "view s' = st \<and> (case r of Inr x \<Rightarrow> (case x of Inr x \<Rightarrow> Q x | Inl e \<Rightarrow> E e) | Inl e \<Rightarrow> F e)"
    using readsD[OF assms s r1] b r1 by (auto simp: api_try_def split: sum.split)
qed

lemma reads_weaken:
  assumes "reads view st m Q E" "\<And>x. Q x \<Longrightarrow> Q' x" "\<And>e. E e \<Longrightarrow> E' e"
  shows "reads view st m Q' E'"
  unfolding reads_def
proof (intro allI impI)
  fix s r s'
  assume s: "view s = st" and r: "m s = (r, s')"
  show "view s' = st \<and> (case r of Inr x \<Rightarrow> Q' x | Inl e \<Rightarrow> E' e)"
    using readsD[OF assms(1) s r] assms(2,3) by (simp split: sum.split)
qed

lemma reads_try_bind:
  assumes "reads view st m Q E" "\<And>x. Q x \<Longrightarrow> reads view st (f (Inr x)) R F"
    and "\<And>e. E e \<Longrightarrow> reads view st (f (Inl e)) R F"
  shows "reads view st (api_bind (api_try m) f) R F"
  by (rule reads_bind[OF reads_try[OF assms(1)]]) (use assms in \<open>auto split: sum.splits\<close>)

abbreviation no_error :: "'e \<Rightarrow> bool" where
  "no_error \<equiv> (\<lambda>_. True)"

lemma kube_reads:
  assumes "kube_ok k view"
  shows "reads view st (get_claim k n) (\<lambda>c. st_claims st n = Some c) no_error"
    and "reads view st (read_claim k n) (\<lambda>c. st_claims st n = Some c) no_error"
    and "reads view st (get_lease k n) (\<lambda>l. st_leases st n = Some l) (\<lambda>e. e = NotFound \<longrightarrow> st_leases st n = None)"
    and "reads view st (read_lease k n) (\<lambda>l. st_leases st n = Some l) (\<lambda>e. e = NotFound \<longrightarrow> st_leases st n = None)"
    and "reads view st (get_pool k n) (\<lambda>p. st_pools st n = Some p) no_error"
    and "reads view st (read_pool k n) (\<lambda>p. st_pools st n = Some p) no_error"
    and "reads view st (list_claims k) (\<lambda>cs. set cs = ran (st_claims st)) no_error"
    and "reads view st (list_leases k) (\<lambda>ls. set ls = ran (st_leases st)) no_error"
    and "reads view st (owner_exists k r) no_error no_error"
    and "reads view st (retained_get k rr) no_error no_error"
  using assms unfolding kube_ok_def reads_ok_def any_error_def
  by (auto intro: reads_weaken[OF reads_read_ok])

subsection \<open>Choosing a value\<close>

lemma firstFit_number_free:
  assumes "firstFit_number used mx n = Some y"
  shows "\<forall>m. y = Some m \<longrightarrow> map_of used m = None"
  by (rule firstFit_number.raw_induct[OF _ assms]) (auto split: if_splits)

definition value_free :: "store \<Rightarrow> string \<Rightarrow> string \<Rightarrow> string \<Rightarrow> alloc_value \<Rightarrow> bool" where
  "value_free st poolName selfClaim selfLease v \<longleftrightarrow>
     (\<forall>d \<in> ran (st_claims st). cl_name d \<noteq> selfClaim \<and> claimReferencesPool d poolName
        \<and> cl_phase d = AllocationClaimPhaseAllocated \<longrightarrow> \<not> same_value v (cl_value d))
   \<and> (\<forall>m \<in> ran (st_leases st). ls_poolRef (le_spec m) = poolName \<and> le_name m \<noteq> selfLease
        \<longrightarrow> \<not> same_value v (ls_value (le_spec m)))"

lemma number_free:
  assumes "\<not> number_taken p sc sl cs ls n" "set cs = ran (st_claims st)" "set ls = ran (st_leases st)"
  shows "value_free st p sc sl \<lparr>av_number = n, av_ip = []\<rparr>"
  using assms by (auto simp: value_free_def number_taken_def same_value_def)

lemma ip_free:
  assumes "\<not> ip_taken p sc sl cs ls (V4 w)" "set cs = ran (st_claims st)" "set ls = ran (st_leases st)"
  shows "value_free st p sc sl \<lparr>av_number = 0, av_ip = string4 w\<rparr>"
proof -
  have "same_value \<lparr>av_number = 0, av_ip = string4 w\<rparr> v \<longleftrightarrow>
      string4 w \<noteq> [] \<and> av_ip v \<noteq> [] \<and> ParseAddr (av_ip v) = Some (V4 w)" for v
    by (auto simp: same_value_def)
  then show ?thesis using assms by (auto simp: value_free_def ip_taken_def)
qed

lemma chooseNumber_free:
  assumes "chooseNumber p spec c used = Inr n"
  shows "map_of used n = None"
  using assms firstFit_number_free[of used "num_max spec" "num_min spec"]
  by (auto simp: chooseNumber_def split: option.splits if_splits)

lemma Is4_between: "Is4 l \<Longrightarrow> Is4 h \<Longrightarrow> l \<le> a \<Longrightarrow> a \<le> h \<Longrightarrow> Is4 a"
  using BitLen_between[of l a h] by (cases l; cases h; cases a) simp_all

lemma chooseIP_v4:
  assumes "filteredCandidates p spec c = Inr cands" "pool_v4 p" "po_ip p = Some spec"
    and "chooseIP p c cands used = Inr ip"
  obtains w where "ip = string4 w" "map_of used (V4 w) = None"
proof -
  have wf: "\<forall>d \<in> set cands. candidate_wf d"
    using filteredCandidates_wf[OF assms(1)] assms(2,3) by (simp add: pool_v4_def)
  obtain a d where a: "ip = addr_string a" "map_of used a = None" "d \<in> set cands" "ipRange_contains (span d) a"
  proof (cases "cl_requestedIP c")
    case None
    from firstFit_cases[OF wf, of used] show ?thesis
    proof (elim disjE exE conjE)
      fix x d
      assume f: "firstFitCandidate cands used = Some (x, True)" "d \<in> set cands"
        "lowest_free used (ipRange_addrs (allocatable d)) x"
      then have "x \<in> ipRange_addrs (span d)" "map_of used x = None"
        using wf by (auto simp: lowest_free_def candidate_wf_def)
      then show ?thesis
        using f None assms(4) that[of x d]
        by (auto simp: chooseIP_def ipRange_addrs_def addrs_between_def ipRange_contains_def)
    qed (use None assms(4) in \<open>simp add: chooseIP_def\<close>)
  next
    case (Some r)
    then show ?thesis
      using assms(4) that by (auto simp: chooseIP_def candidatesContain_def split: option.splits if_splits)
  qed
  obtain pool_cands e where "parsePoolCandidates spec = Inr pool_cands" "e \<in> set pool_cands"
    "ipRange_contains (span e) a"
    using filteredCandidates_inside[OF assms(1) a(3,4)] .
  then have "Is4 a"
    using assms(2,3) Is4_between[of "lo (span e)" "hi (span e)" a]
    by (auto simp: pool_v4_def ipRange_contains_def)
  then obtain w where "a = V4 w" by (cases a) simp_all
  then show ?thesis using a(1,2) that by simp
qed

lemma collectUsedNumbers_reads:
  assumes "kube_ok k view"
  shows "reads view st (collectUsedNumbers k p sc sl)
    (\<lambda>used. \<exists>cs ls. set cs = ran (st_claims st) \<and> set ls = ran (st_leases st)
       \<and> used = usedNumbers_leases p sl ls (usedNumbers_claims p sc cs [])) no_error"
  unfolding collectUsedNumbers_def Let_def
  by (rule reads_try_bind[OF kube_reads(7)[OF assms]], simp,
      rule reads_try_bind[OF kube_reads(8)[OF assms]], simp, rule reads_return)
    (auto intro: reads_throw)

lemma collectUsedIPs_reads:
  assumes "kube_ok k view"
  shows "reads view st (collectUsedIPs k p sc sl)
    (\<lambda>used. \<exists>cs ls. set cs = ran (st_claims st) \<and> set ls = ran (st_leases st)
       \<and> used = usedPoolIPs p sc sl cs ls) no_error"
  unfolding collectUsedIPs_def
  by (rule reads_try_bind[OF kube_reads(7)[OF assms]], simp,
      rule reads_try_bind[OF kube_reads(8)[OF assms]], simp, rule reads_return)
    (auto intro: reads_throw)

lemma allocateNumber_reads:
  assumes "kube_ok k view"
  shows "reads view st (allocateNumber k p c sl)
    (\<lambda>n. value_free st (po_name p) (cl_name c) sl \<lparr>av_number = n, av_ip = []\<rparr>) no_error"
proof (cases "po_number p")
  case None
  then show ?thesis by (simp add: allocateNumber_def reads_throw)
next
  case (Some spec)
  show ?thesis
    unfolding allocateNumber_def Some option.case
  proof (rule reads_bind[OF collectUsedNumbers_reads[OF assms]], elim exE conjE)
    fix used cs ls
    assume *: "set cs = ran (st_claims st)" "set ls = ran (st_leases st)"
      "used = usedNumbers_leases (po_name p) sl ls (usedNumbers_claims (po_name p) (cl_name c) cs [])"
    show "reads view st (case chooseNumber p spec c used of Inl e \<Rightarrow> api_throw e | Inr n \<Rightarrow> api_return n)
        (\<lambda>n. value_free st (po_name p) (cl_name c) sl \<lparr>av_number = n, av_ip = []\<rparr>) no_error"
    proof (cases "chooseNumber p spec c used")
      case (Inr n)
      then have "\<not> number_taken (po_name p) (cl_name c) sl cs ls n"
        using chooseNumber_free[OF Inr] *(3) by (simp add: usedNumbers_dom)
      then show ?thesis using Inr * by (simp add: reads_return number_free)
    qed (simp add: reads_throw)
  qed
qed

lemma allocateIP_reads:
  assumes "kube_ok k view" "pool_v4 p"
  shows "reads view st (allocateIP k p c sl)
    (\<lambda>ip. value_free st (po_name p) (cl_name c) sl \<lparr>av_number = 0, av_ip = ip\<rparr>) no_error"
proof (cases "\<exists>spec cands. po_ip p = Some spec \<and> filteredCandidates p spec c = Inr cands")
  case False
  then show ?thesis by (auto simp: allocateIP_def reads_throw split: option.split sum.split)
next
  case True
  then obtain spec cands where sc: "po_ip p = Some spec" "filteredCandidates p spec c = Inr cands" by blast
  show ?thesis
    unfolding allocateIP_def sc option.case sum.case
  proof (rule reads_bind[OF collectUsedIPs_reads[OF assms(1)]], elim exE conjE)
    fix used cs ls
    assume *: "set cs = ran (st_claims st)" "set ls = ran (st_leases st)"
      "used = usedPoolIPs (po_name p) (cl_name c) sl cs ls"
    show "reads view st (case chooseIP p c cands (mark_excluded (Excluded spec) used) of
          Inl e \<Rightarrow> api_throw e | Inr ip \<Rightarrow> api_return ip)
        (\<lambda>ip. value_free st (po_name p) (cl_name c) sl \<lparr>av_number = 0, av_ip = ip\<rparr>) no_error"
    proof (cases "chooseIP p c cands (mark_excluded (Excluded spec) used)")
      case (Inr ip)
      from chooseIP_v4[OF sc(2) assms(2) sc(1) Inr]
      obtain w where "ip = string4 w" "\<not> ip_taken (po_name p) (cl_name c) sl cs ls (V4 w)"
        using *(3) by (auto simp: mark_excluded_dom usedPoolIPs_dom)
      then show ?thesis using Inr * by (simp add: reads_return ip_free)
    qed (simp add: reads_throw)
  qed
qed

text \<open>The value of a result, and when the claim may be given it.\<close>

abbreviation result_value :: "allocationResult \<Rightarrow> alloc_value" where
  "result_value res \<equiv> \<lparr>av_number = ar_number res, av_ip = ar_ip res\<rparr>"

definition lease_blocked :: "store \<Rightarrow> claim \<Rightarrow> bool" where
  "lease_blocked st c \<longleftrightarrow> (\<exists>l. st_leases st (leaseNameFor c) = Some l \<and> leaseHeldByOtherClaim l c)"

definition alloc_good :: "store \<Rightarrow> claim \<Rightarrow> allocationResult \<Rightarrow> pool \<Rightarrow> bool" where
  "alloc_good st c res p \<longleftrightarrow>
     st_pools st (po_name p) = Some p \<and> po_name p \<in> set (cl_poolRefs c)
   \<and> (value_free st (po_name p) (cl_name c) (if lease_blocked st c then [] else leaseNameFor c) (result_value res)
    \<or> (\<exists>l. st_leases st (leaseNameFor c) = Some l \<and> \<not> leaseHeldByOtherClaim l c
         \<and> ls_poolRef (le_spec l) = po_name p \<and> ls_value (le_spec l) = result_value res))"

lemma allocate_pools_reads:
  assumes k: "kube_ok k view" and inv: "alloc_inv st"
  shows "reads view st (allocate_pools k c sl missing refs)
    (\<lambda>(res, p). st_pools st (po_name p) = Some p \<and> po_name p \<in> set refs
       \<and> value_free st (po_name p) (cl_name c) sl (result_value res)) no_error"
proof (induction refs arbitrary: missing)
  case Nil
  then show ?case by (simp add: reads_throw)
next
  case (Cons ref refs)
  have IH: "reads view st (allocate_pools k c sl m refs)
    (\<lambda>(res, p). st_pools st (po_name p) = Some p \<and> po_name p \<in> set (ref # refs)
       \<and> value_free st (po_name p) (cl_name c) sl (result_value res)) no_error" for m
    using Cons.IH[of m] by (rule reads_weaken) auto
  show ?case
    unfolding allocate_pools.simps
  proof (rule reads_try_bind[OF kube_reads(6)[OF k]], goal_cases)
    case (1 p)
    then have n: "po_name p = ref" "pool_v4 p" using inv by (auto simp: alloc_inv_def store_wf_def)
    note num = reads_try_bind[OF allocateNumber_reads[OF k, of st p c sl]]
    note ip = reads_try_bind[OF allocateIP_reads[OF k n(2), of st c sl]]
    show ?case
      using 1 n IH by (auto intro!: num ip reads_return reads_throw split: alloc_error.split)
  next
    case (2 e)
    show ?case using IH by (cases e) (simp_all add: reads_throw)
  qed
qed

lemma getLease_reads:
  assumes "kube_ok k view"
  shows "reads view st (getLease k n) (\<lambda>r. st_leases st n = r) no_error"
  unfolding getLease_def
  by (rule reads_try_bind[OF kube_reads(4)[OF assms]])
    (auto intro: reads_return reads_throw split: kube_error.split)

lemma reuseLease_reads:
  assumes "kube_ok k view" "alloc_inv st"
  shows "reads view st (reuseLease k c l)
    (\<lambda>r. \<forall>res p. r = Some (res, p) \<longrightarrow> claimReferencesPool c (ls_poolRef (le_spec l))
       \<and> st_pools st (po_name p) = Some p \<and> po_name p = ls_poolRef (le_spec l)
       \<and> result_value res = ls_value (le_spec l)) no_error"
proof -
  have n: "po_name p = m" if "st_pools st m = Some p" for m p
    using assms(2) that by (simp add: alloc_inv_def store_wf_def)
  show ?thesis
    unfolding reuseLease_def
    by (auto intro!: reads_try_bind[OF kube_reads(6)[OF assms(1)]] reads_return reads_throw
        simp: n[of "ls_poolRef (le_spec l)"] split: kube_error.split)
qed

lemma allocate_reads:
  assumes k: "kube_ok k view" and inv: "alloc_inv st"
  shows "reads view st (allocate k c) (\<lambda>(res, p). alloc_good st c res p) no_error"
  unfolding allocate_def
proof (rule reads_bind[OF getLease_reads[OF k]], goal_cases)
  case (1 held0)
  define blocked where "blocked = (case held0 of Some l \<Rightarrow> leaseHeldByOtherClaim l c | None \<Rightarrow> False)"
  have b: "blocked = lease_blocked st c"
    using 1 by (auto simp: blocked_def lease_blocked_def split: option.split)
  have pools: "reads view st (allocate_pools k c (if blocked then [] else leaseNameFor c) [] (cl_poolRefs c))
      (\<lambda>(res, p). alloc_good st c res p) no_error"
    by (rule reads_weaken[OF allocate_pools_reads[OF k inv]]) (auto simp: alloc_good_def b)
  show ?case
  proof (cases "if blocked then None else held0")
    case None
    then show ?thesis using pools by (simp add: Let_def blocked_def[symmetric])
  next
    case (Some l)
    then have l: "\<not> blocked" "held0 = Some l" by (auto split: if_splits)
    have "reads view st (api_bind (reuseLease k c l) (\<lambda>r. case r of
        Some reused \<Rightarrow> api_return reused
      | None \<Rightarrow> allocate_pools k c (leaseNameFor c) [] (cl_poolRefs c)))
      (\<lambda>(res, p). alloc_good st c res p) no_error"
    proof (rule reads_bind[OF reuseLease_reads[OF k inv]], goal_cases)
      case (1 r)
      show ?case
      proof (cases r)
        case None
        then show ?thesis using pools l by simp
      next
        case (Some rp)
        then show ?thesis
          using 1 l \<open>st_leases st (leaseNameFor c) = held0\<close>
          by (cases rp) (auto intro!: reads_return
              simp: alloc_good_def claimReferencesPool_def blocked_def)
      qed
    qed
    then show ?thesis using l by (simp add: Let_def blocked_def)
  qed
qed

end
