(* ===== verification/AllocSafety.thy ===== *)
theory AllocSafety
  imports AllocStore
begin

text \<open>
  Every pass of the claim, lease and pool controllers keeps the allocation invariant: a small program
  logic over the stored objects, one triple per function of the controllers, and the reachability
  theorem.
\<close>

section \<open>Triples over the stored objects\<close>

definition runs ::
  "('s \<Rightarrow> store) \<Rightarrow> (store \<Rightarrow> bool) \<Rightarrow> ('s, 'e, 'a) api \<Rightarrow> ('a \<Rightarrow> store \<Rightarrow> bool) \<Rightarrow> ('e \<Rightarrow> store \<Rightarrow> bool) \<Rightarrow> bool" where
  "runs view P m Q E \<longleftrightarrow> api_valid (\<lambda>s. P (view s)) m (\<lambda>x s. Q x (view s)) (\<lambda>e s. E e (view s))"

lemma runsI:
  assumes "\<And>s r s'. P (view s) \<Longrightarrow> m s = (r, s') \<Longrightarrow> (case r of Inr x \<Rightarrow> Q x (view s') | Inl e \<Rightarrow> E e (view s'))"
  shows "runs view P m Q E"
  unfolding runs_def
proof (rule api_validI)
  fix s e s'
  assume "P (view s)" "m s = (Inl e, s')"
  from assms[OF this] show "E e (view s')" by simp
next
  fix s x s'
  assume "P (view s)" "m s = (Inr x, s')"
  from assms[OF this] show "Q x (view s')" by simp
qed

lemma runs_reads:
  assumes "\<And>st. P st \<Longrightarrow> reads view st m (R st) (F st)" and "\<And>x st. P st \<Longrightarrow> R st x \<Longrightarrow> Q x st"
    and "\<And>e st. P st \<Longrightarrow> F st e \<Longrightarrow> E e st"
  shows "runs view P m Q E"
proof (rule runsI)
  fix s r s'
  assume p: "P (view s)" and m: "m s = (r, s')"
  note d = readsD[OF assms(1)[OF p] refl m]
  show "case r of Inr x \<Rightarrow> Q x (view s') | Inl e \<Rightarrow> E e (view s')"
    using d assms(2,3) p by (cases r) auto
qed

lemma runs_return: "(\<And>st. P st \<Longrightarrow> Q x st) \<Longrightarrow> runs view P (api_return x) Q E"
  unfolding runs_def by (rule api_valid_return)

lemma runs_throw: "(\<And>st. P st \<Longrightarrow> E e st) \<Longrightarrow> runs view P (api_throw e) Q E"
  unfolding runs_def by (rule api_valid_throw)

lemma runs_bind: "runs view P m R E \<Longrightarrow> (\<And>x. runs view (R x) (f x) Q E) \<Longrightarrow> runs view P (api_bind m f) Q E"
  unfolding runs_def by (rule api_valid_bind)

lemma runs_try_bind:
  assumes "runs view P m R F" "\<And>x. runs view (R x) (f (Inr x)) Q E" "\<And>e. runs view (F e) (f (Inl e)) Q E"
  shows "runs view P (api_bind (api_try m) f) Q E"
proof -
  have "runs view P (api_try m) (\<lambda>r st. case r of Inr x \<Rightarrow> R x st | Inl e \<Rightarrow> F e st) E"
    using assms(1) unfolding runs_def by (intro api_valid_try) simp
  then show ?thesis
  proof (rule runs_bind)
    fix r show "runs view (\<lambda>st. case r of Inr x \<Rightarrow> R x st | Inl e \<Rightarrow> F e st) (f r) Q E"
      using assms(2,3) by (cases r) simp_all
  qed
qed

lemma runs_weaken:
  assumes "runs view P' m Q' E'" "\<And>st. P st \<Longrightarrow> P' st" "\<And>x st. Q' x st \<Longrightarrow> Q x st"
    "\<And>e st. E' e st \<Longrightarrow> E e st"
  shows "runs view P m Q E"
  using assms unfolding runs_def by (rule api_valid_weaken)

lemma runs_kcall: "runs view P m Q (\<lambda>e. E (Kube e)) \<Longrightarrow> runs view P (kcall m) Q E"
proof (rule runsI)
  fix s r s'
  assume a: "runs view P m Q (\<lambda>e. E (Kube e))" "P (view s)" "kcall m s = (r, s')"
  then show "case r of Inr x \<Rightarrow> Q x (view s') | Inl e \<Rightarrow> E e (view s')"
    using api_validE_Inr[OF a(1)[unfolded runs_def]] api_validE_Inl[OF a(1)[unfolded runs_def]]
    by (auto simp: kcall_def split: prod.splits sum.splits)
qed

lemma runs_write:
  assumes "write_ok view m applied failed" "\<And>st st'. P st \<Longrightarrow> applied st st' \<Longrightarrow> Q st'"
    and "\<And>e st. P st \<Longrightarrow> failed st e \<Longrightarrow> E e st" "\<And>e st st'. P st \<Longrightarrow> applied st st' \<Longrightarrow> failed st e \<Longrightarrow> E e st'"
  shows "runs view P m (\<lambda>_. Q) E"
proof (rule runsI)
  fix s r s'
  assume p: "P (view s)" and m: "m s = (r, s')"
  from assms(1) m have w: "case r of Inr x \<Rightarrow> applied (view s) (view s')
      | Inl e \<Rightarrow> (view s' = view s \<or> applied (view s) (view s')) \<and> failed (view s) e"
    unfolding write_ok_def by blast
  show "case r of Inr x \<Rightarrow> Q (view s') | Inl e \<Rightarrow> E e (view s')"
  proof (cases r)
    case (Inl e)
    then show ?thesis using w assms(3,4) p by auto
  next
    case (Inr x)
    then show ?thesis using w assms(2)[OF p] by simp
  qed
qed

lemma runs_retry_steps:
  assumes "runs view P m Q (\<lambda>_. P)"
  shows "runs view P (retry_steps n m) Q (\<lambda>_. P)"
proof (induction n)
  case 0
  then show ?case using assms by simp
next
  case (Suc n)
  show ?case
  proof (rule runsI)
    fix s r s'
    assume p: "P (view s)" and m: "retry_steps (Suc n) m s = (r, s')"
    obtain r1 s1 where m1: "m s = (r1, s1)" by (cases "m s")
    show "case r of Inr x \<Rightarrow> Q x (view s') | Inl e \<Rightarrow> P (view s')"
    proof (cases r1)
      case (Inr x)
      then show ?thesis
        using m m1 api_validE_Inr[OF assms[unfolded runs_def]] p by auto
    next
      case (Inl e)
      then have "P (view s1)" using m1 api_validE_Inl[OF assms[unfolded runs_def]] p by auto
      then show ?thesis
        using m m1 Inl api_validE_Inr[OF Suc.IH[unfolded runs_def]]
          api_validE_Inl[OF Suc.IH[unfolded runs_def]]
        by (cases r) (auto split: if_splits)
    qed
  qed
qed

lemma runs_retry:
  assumes "retry_ok r" "runs view P m Q (\<lambda>_. P)"
  shows "runs view P (r m) Q (\<lambda>_. P)"
proof (rule runsI)
  fix s res s'
  assume p: "P (view s)" and m: "r m s = (res, s')"
  obtain n where "r m s = retry_steps n m s" using assms(1) unfolding retry_ok_def by blast
  then have "retry_steps n m s = (res, s')" using m by simp
  then show "case res of Inr x \<Rightarrow> Q x (view s') | Inl e \<Rightarrow> P (view s')"
    using runs_retry_steps[OF assms(2), of n] p
      api_validE_Inr[OF runs_retry_steps[OF assms(2), of n, unfolded runs_def]]
      api_validE_Inl[OF runs_retry_steps[OF assms(2), of n, unfolded runs_def]]
    by (cases res) auto
qed

section \<open>The lease behind a claim\<close>

text \<open>A value that may be recorded in the status of the claim \<open>n\<close> with the pool references \<open>refs\<close>.\<close>

definition status_ok :: "store \<Rightarrow> string \<Rightarrow> string list \<Rightarrow> alloc_value \<Rightarrow> bool" where
  "status_ok st n refs v \<longleftrightarrow>
     (\<forall>p. refs = [p] \<longrightarrow>
        (\<forall>d. holder st p d \<and> cl_name d \<noteq> n \<longrightarrow> \<not> same_value v (cl_value d))
      \<and> (\<forall>l \<in> ran (st_leases st). ls_poolRef (le_spec l) = p \<and> same_value (ls_value (le_spec l)) v \<longrightarrow>
           cr_name (ls_claimRef (le_spec l)) = n \<and> ls_ownerDeletionTimestamp (le_spec l) = None))"

definition stored :: "store \<Rightarrow> claim \<Rightarrow> bool" where
  "stored st c \<longleftrightarrow> st_claims st (cl_name c) = Some c"

lemma stored_ran:
  assumes "alloc_inv st" "c \<in> ran (st_claims st)"
  shows "stored st c"
proof -
  obtain n where n: "st_claims st n = Some c" using assms(2) by (auto simp: ran_def)
  then have "cl_name c = n" using assms(1) by (simp add: alloc_inv_def store_wf_def)
  then show ?thesis using n by (simp add: stored_def)
qed

lemma stored_unique:
  assumes "alloc_inv st" "stored st c" "holder st p d" "cl_name d = cl_name c"
  shows "d = c"
proof -
  have "stored st d" using assms(3) by (intro stored_ran[OF assms(1)]) (simp add: holder_def)
  then show ?thesis using assms(2,4) by (simp add: stored_def)
qed

lemma leaseNameFor_nonempty:
  assumes "alloc_inv st" "stored st c"
  shows "leaseNameFor c \<noteq> []"
proof -
  have "cl_name c \<noteq> []" using assms unfolding alloc_inv_def store_wf_def stored_def by blast
  then show ?thesis by (simp add: leaseNameFor_def)
qed

lemma lease_name_ran:
  assumes "alloc_inv st" "m \<in> ran (st_leases st)"
  shows "le_name m \<noteq> []" "st_leases st (le_name m) = Some m"
proof -
  obtain n where n: "st_leases st n = Some m" using assms(2) by (auto simp: ran_def)
  then have "le_name m = n" "n \<noteq> []"
    using assms(1) unfolding alloc_inv_def store_wf_def by blast+
  then show "le_name m \<noteq> []" "st_leases st (le_name m) = Some m" using n by simp_all
qed

lemma alloc_good_claims:
  assumes inv: "alloc_inv st" and good: "alloc_good st c res p"
    and d: "holder st (po_name p) d" "cl_name d \<noteq> cl_name c"
  shows "\<not> same_value (result_value res) (cl_value d)"
proof
  assume sv: "same_value (result_value res) (cl_value d)"
  consider sl where "value_free st (po_name p) (cl_name c) sl (result_value res)"
    | l where "st_leases st (leaseNameFor c) = Some l" "\<not> leaseHeldByOtherClaim l c"
        "ls_poolRef (le_spec l) = po_name p" "ls_value (le_spec l) = result_value res"
    using good by (auto simp: alloc_good_def)
  then show False
  proof cases
    case 1
    then show ?thesis
      using d sv by (auto simp: value_free_def holder_def claimReferencesPool_def)
  next
    case 2
    then have "leaseOwnedByClaim l d \<and> ls_ownerDeletionTimestamp (le_spec l) = None"
      using leases_ownedD[OF inv, of l d] d(1) sv by (auto intro: ranI)
    then show ?thesis
      using 2(2) d(2) by (auto simp: leaseHeldByOtherClaim_def leaseOwnedByClaim_def)
  qed
qed

lemma alloc_good_leases:
  assumes inv: "alloc_inv st" and good: "alloc_good st c res p"
    and m: "m \<in> ran (st_leases st)" "ls_poolRef (le_spec m) = po_name p"
    and own: "\<not> lease_blocked st c \<Longrightarrow> le_name m \<noteq> leaseNameFor c"
  shows "\<not> same_value (result_value res) (ls_value (le_spec m))"
proof
  assume sv: "same_value (result_value res) (ls_value (le_spec m))"
  have ne: "le_name m \<noteq> []" using lease_name_ran[OF inv m(1)] by simp
  consider "value_free st (po_name p) (cl_name c) (if lease_blocked st c then [] else leaseNameFor c) (result_value res)"
    | l where "st_leases st (leaseNameFor c) = Some l" "\<not> leaseHeldByOtherClaim l c"
        "ls_poolRef (le_spec l) = po_name p" "ls_value (le_spec l) = result_value res"
    using good by (auto simp: alloc_good_def)
  then show False
  proof cases
    case 1
    then show ?thesis using m sv own ne by (auto simp: value_free_def)
  next
    case 2
    then have l: "l \<in> ran (st_leases st)" "le_name l = leaseNameFor c" "\<not> lease_blocked st c"
      using inv by (simp_all add: alloc_inv_def store_wf_def lease_blocked_def ranI)
    then have "le_name l = le_name m"
      using inv m 2 sv unfolding alloc_inv_def leases_distinct_def by metis
    then show ?thesis using own l by simp
  qed
qed

text \<open>Writing the claim's own lease.\<close>

lemma own_lease_put:
  assumes inv: "alloc_inv st" and st: "stored st c" and good: "alloc_good st c res p"
    and nb: "\<not> lease_blocked st c"
    and l: "le_name l = leaseNameFor c" "ls_poolRef (le_spec l) = po_name p"
      "ls_value (le_spec l) = result_value res" "cr_name (ls_claimRef (le_spec l)) = cl_name c"
      "ls_ownerDeletionTimestamp (le_spec l) = None"
  shows "alloc_inv (st\<lparr>st_leases := (st_leases st)(leaseNameFor c \<mapsto> l)\<rparr>)"
    and "status_ok (st\<lparr>st_leases := (st_leases st)(leaseNameFor c \<mapsto> l)\<rparr>) (cl_name c) (cl_poolRefs c) (result_value res)"
proof -
  let ?st = "st\<lparr>st_leases := (st_leases st)(leaseNameFor c \<mapsto> l)\<rparr>"
  have ne: "leaseNameFor c \<noteq> []" using leaseNameFor_nonempty[OF inv st] .
  show "alloc_inv ?st"
  proof (rule alloc_inv_lease_put[OF inv l(1) ne])
    fix m
    assume "m \<in> ran (st_leases st)" "le_name m \<noteq> leaseNameFor c"
      "ls_poolRef (le_spec l) = ls_poolRef (le_spec m)"
    then show "\<not> same_value (ls_value (le_spec l)) (ls_value (le_spec m))"
      using alloc_good_leases[OF inv good, of m] l by simp
  next
    fix d
    assume d: "holder st (ls_poolRef (le_spec l)) d" "same_value (ls_value (le_spec l)) (cl_value d)"
    then have "cl_name d = cl_name c" using alloc_good_claims[OF inv good, of d] l by auto
    then show "leaseOwnedByClaim l d \<and> ls_ownerDeletionTimestamp (le_spec l) = None"
      using l by (simp add: leaseOwnedByClaim_def)
  qed
  have h: "holder ?st = holder st" by (simp add: holder_def fun_eq_iff)
  have other: "m = l \<or> m \<in> ran (st_leases st) \<and> le_name m \<noteq> leaseNameFor c" if "m \<in> ran (st_leases ?st)" for m
    using inv that lease_name_ran[OF inv] by (auto simp: alloc_inv_def store_wf_def ran_put intro: ranI)
  show "status_ok ?st (cl_name c) (cl_poolRefs c) (result_value res)"
    unfolding status_ok_def h
  proof (intro allI impI conjI ballI, goal_cases)
    case (1 q d)
    then have "q = po_name p" using good by (simp add: alloc_good_def)
    then show ?case using 1 alloc_good_claims[OF inv good, of d] by blast
  next
    case (2 q m)
    then show ?case using other[OF 2(2)] alloc_good_leases[OF inv good, of m] good l
      by (auto simp: alloc_good_def same_value_sym[of "ls_value (le_spec m)"])
  next
    case (3 q m)
    then show ?case using other[OF 3(2)] alloc_good_leases[OF inv good, of m] good l
      by (auto simp: alloc_good_def same_value_sym[of "ls_value (le_spec m)"])
  qed
qed

lemma blocked_status_ok:
  assumes inv: "alloc_inv st" and good: "alloc_good st c res p" and b: "lease_blocked st c"
  shows "status_ok st (cl_name c) (cl_poolRefs c) (result_value res)"
  unfolding status_ok_def
proof (intro allI impI conjI ballI, goal_cases)
  case (1 q d)
  then have "q = po_name p" using good by (simp add: alloc_good_def)
  then show ?case using 1 alloc_good_claims[OF inv good, of d] by blast
next
  case (2 q m)
  then show ?case
    using alloc_good_leases[OF inv good, of m] good b same_value_sym by (auto simp: alloc_good_def)
next
  case (3 q m)
  then show ?case
    using alloc_good_leases[OF inv good, of m] good b same_value_sym by (auto simp: alloc_good_def)
qed

lemma kube_writes:
  assumes "kube_ok k view"
  shows "write_ok view (update_claim k c) (claim_updated c) any_error"
    and "write_ok view (update_claim_status k c) (claim_status_updated c) any_error"
    and "write_ok view (create_lease k l) (lease_created l)
           (\<lambda>st e. e = AlreadyExists \<longrightarrow> st_leases st (le_name l) \<noteq> None)"
    and "write_ok view (update_lease k l) (lease_updated l) any_error"
    and "write_ok view (update_lease_status k l) (lease_status_updated l) any_error"
    and "write_ok view (delete_lease k l) (lease_deleted l) any_error"
    and "write_ok view (delete_lease_uid k l) (lease_deleted l) any_error"
    and "write_ok view (update_pool_status k p) (pool_status_updated p) any_error"
    and "retry_ok (retry_claim k)" "retry_ok (retry_lease k)" "retry_ok (retry_pool k)"
  using assms unfolding kube_ok_def writes_ok_def helpers_ok_def by blast+

abbreviation inv_error :: "'e \<Rightarrow> store \<Rightarrow> bool" where
  "inv_error \<equiv> (\<lambda>_. alloc_inv)"

text \<open>The state while a claim is being given a value, and once the value may be recorded.\<close>

definition granting :: "claim \<Rightarrow> allocationResult \<Rightarrow> pool \<Rightarrow> store \<Rightarrow> bool" where
  "granting c res p st \<longleftrightarrow> alloc_inv st \<and> stored st c \<and> alloc_good st c res p"

definition recording :: "string \<Rightarrow> string list \<Rightarrow> alloc_value \<Rightarrow> store \<Rightarrow> bool" where
  "recording n refs v st \<longleftrightarrow> alloc_inv st \<and> status_ok st n refs v
     \<and> (\<forall>c. st_claims st n = Some c \<longrightarrow> cl_poolRefs c = refs)"

lemma recording_inv: "recording n refs v st \<Longrightarrow> alloc_inv st"
  by (simp add: recording_def)

lemma granting_inv: "granting c res p st \<Longrightarrow> alloc_inv st"
  by (simp add: granting_def)

lemma granting_put:
  assumes "granting c res p st" "\<not> lease_blocked st c"
    and "le_name l = leaseNameFor c" "ls_poolRef (le_spec l) = po_name p"
      "ls_value (le_spec l) = result_value res" "cr_name (ls_claimRef (le_spec l)) = cl_name c"
      "ls_ownerDeletionTimestamp (le_spec l) = None"
  shows "recording (cl_name c) (cl_poolRefs c) (result_value res)
           (st\<lparr>st_leases := (st_leases st)(leaseNameFor c \<mapsto> l)\<rparr>)"
  using own_lease_put[of st c res p l] assms by (simp add: recording_def granting_def stored_def)

lemma granting_keep:
  assumes "granting c res p st" "\<not> lease_blocked st c" "st_leases st (leaseNameFor c) = Some l"
    and "ls_poolRef (le_spec l) = po_name p"
      "ls_value (le_spec l) = result_value res" "cr_name (ls_claimRef (le_spec l)) = cl_name c"
      "ls_ownerDeletionTimestamp (le_spec l) = None"
  shows "recording (cl_name c) (cl_poolRefs c) (result_value res) st"
proof -
  have "le_name l = leaseNameFor c"
    using assms(1,3) by (simp add: granting_def alloc_inv_def store_wf_def)
  then show ?thesis using granting_put[of c res p st l] assms by (simp add: fun_upd_idem)
qed

lemma granting_blocked:
  assumes "granting c res p st" "lease_blocked st c"
  shows "recording (cl_name c) (cl_poolRefs c) (result_value res) st"
  using assms blocked_status_ok[of st c res p] by (simp add: recording_def granting_def stored_def)

lemma adopt_fields [simp]:
  "ls_poolRef (adoptNetworkInterfaceIdentity s c) = ls_poolRef s"
  "ls_value (adoptNetworkInterfaceIdentity s c) = ls_value s"
  "ls_claimRef (adoptNetworkInterfaceIdentity s c) = ls_claimRef s"
  "ls_ownerDeletionTimestamp (adoptNetworkInterfaceIdentity s c) = ls_ownerDeletionTimestamp s"
  by (simp_all add: adoptNetworkInterfaceIdentity_def)

lemma create_own_lease:
  assumes k: "kube_ok k view" and l: "le_name l = leaseNameFor c" "ls_poolRef (le_spec l) = po_name p"
      "ls_value (le_spec l) = result_value res" "cr_name (ls_claimRef (le_spec l)) = cl_name c"
      "ls_ownerDeletionTimestamp (le_spec l) = None"
  shows "runs view (\<lambda>st. granting c res p st \<and> st_leases st (leaseNameFor c) = None) (create_lease k l)
    (\<lambda>_. recording (cl_name c) (cl_poolRefs c) (result_value res))
    (\<lambda>e st. alloc_inv st \<and> e \<noteq> AlreadyExists)"
proof -
  have put: "recording (cl_name c) (cl_poolRefs c) (result_value res) st'"
    if g: "granting c res p st" and n: "st_leases st (leaseNameFor c) = None" and w: "lease_created l st st'" for st st'
  proof -
    obtain l' where l': "le_name l' = le_name l" "le_spec l' = le_spec l"
      "st' = st\<lparr>st_leases := (st_leases st)(le_name l \<mapsto> l')\<rparr>"
      using w by (auto simp: lease_created_def)
    have "\<not> lease_blocked st c" using n by (simp add: lease_blocked_def)
    then show ?thesis using granting_put[OF g, of l'] l l' by simp
  qed
  show ?thesis
    by (rule runs_write[OF kube_writes(3)[OF k]]) (auto simp: l intro: put recording_inv[OF put] granting_inv)
qed

lemma update_own_lease:
  assumes k: "kube_ok k view" and l: "le_name l = leaseNameFor c" "ls_poolRef (le_spec l) = po_name p"
      "ls_value (le_spec l) = result_value res" "cr_name (ls_claimRef (le_spec l)) = cl_name c"
      "ls_ownerDeletionTimestamp (le_spec l) = None"
  shows "runs view (\<lambda>st. granting c res p st \<and> \<not> lease_blocked st c) (update_lease k l)
    (\<lambda>_. recording (cl_name c) (cl_poolRefs c) (result_value res)) inv_error"
proof -
  have put: "recording (cl_name c) (cl_poolRefs c) (result_value res) st'"
    if g: "granting c res p st" "\<not> lease_blocked st c" and w: "lease_updated l st st'" for st st'
  proof -
    obtain l' where l': "le_name l' = le_name l" "le_spec l' = le_spec l"
      "st' = st\<lparr>st_leases := (st_leases st)(le_name l \<mapsto> l')\<rparr>"
      using w by (auto simp: lease_updated_def)
    then show ?thesis using granting_put[OF g, of l'] l by simp
  qed
  show ?thesis
    by (rule runs_write[OF kube_writes(4)[OF k]]) (auto intro: put recording_inv[OF put] granting_inv)
qed

lemma runs_split: "(\<And>st0. P st0 \<Longrightarrow> runs view (\<lambda>st. st = st0) m Q E) \<Longrightarrow> runs view P m Q E"
  unfolding runs_def api_valid_def by simp

lemma desiredLeaseSpec_fields [simp]:
  "ls_poolRef (desiredLeaseSpec c p res sp) = po_name p"
  "ls_value (desiredLeaseSpec c p res sp) = result_value res"
  "cr_name (ls_claimRef (desiredLeaseSpec c p res sp)) = cl_name c"
  "ls_ownerDeletionTimestamp (desiredLeaseSpec c p res sp) = None"
  by (simp_all add: desiredLeaseSpec_def)

lemma createLease_runs:
  assumes k: "kube_ok k view" and l: "le_name l = le_name (newLease c p res)" "le_spec l = le_spec (newLease c p res)"
  shows "runs view (\<lambda>st. granting c res p st \<and> st_leases st (leaseNameFor c) = None) (createLease k l)
    (\<lambda>_. recording (cl_name c) (cl_poolRefs c) (result_value res)) inv_error"
  unfolding createLease_def
proof (rule runs_try_bind[OF create_own_lease[OF k]], goal_cases)
  case (7 e)
  show ?case by (cases "e = AlreadyExists") (auto intro!: runs_throw runs_return)
qed (use l in \<open>auto simp: newLease_def intro!: runs_return\<close>)

lemma ensureLease_runs:
  assumes k: "kube_ok k view"
  shows "runs view (granting c res p) (ensureLease k c p res)
    (\<lambda>_. recording (cl_name c) (cl_poolRefs c) (result_value res)) inv_error"
proof -
  have 1: "runs view (granting c res p) (get_lease k (leaseNameFor c))
      (\<lambda>l st. granting c res p st \<and> st_leases st (leaseNameFor c) = Some l)
      (\<lambda>e st. granting c res p st \<and> (e = NotFound \<longrightarrow> st_leases st (leaseNameFor c) = None))"
    by (rule runs_reads[OF kube_reads(3)[OF k]]) auto
  show ?thesis
    unfolding ensureLease_def
  proof (rule runs_try_bind[OF 1], goal_cases)
    case (1 l)
    show ?case
    proof (cases "leaseHeldByOtherClaim l c")
      case True
      then show ?thesis by (auto intro!: runs_return granting_blocked simp: lease_blocked_def)
    next
      case nb: False
      show ?thesis
      proof (cases "le_spec l = desiredLeaseSpec c p res (le_spec l)")
        case True
        have "recording (cl_name c) (cl_poolRefs c) (result_value res) st"
          if "granting c res p st" "st_leases st (leaseNameFor c) = Some l" for st
          using granting_keep[OF that(1) _ that(2)] nb that(2) True desiredLeaseSpec_fields
          by (metis lease_blocked_def option.inject)
        then show ?thesis using nb True by (auto intro!: runs_return)
      next
        case False
        have "runs view (\<lambda>st. granting c res p st \<and> st_leases st (leaseNameFor c) = Some l)
            (kcall (update_lease k (l\<lparr>le_spec := desiredLeaseSpec c p res (le_spec l)\<rparr>)))
            (\<lambda>_. recording (cl_name c) (cl_poolRefs c) (result_value res)) inv_error"
        proof (rule runs_split, elim conjE, goal_cases)
          case (1 st0)
          then have n: "le_name l = leaseNameFor c" "\<not> lease_blocked st0 c"
            using nb by (simp_all add: granting_def alloc_inv_def store_wf_def lease_blocked_def)
          show ?case
            by (rule runs_weaken[OF runs_kcall[OF update_own_lease[OF k, of _ c p res]]])
              (use 1 n in auto)
        qed
        then show ?thesis using nb False by simp
      qed
    qed
  next
    case (2 e)
    have sc: "setControllerReference k p (newLease c p res) = Inr l \<Longrightarrow>
        le_name l = le_name (newLease c p res) \<and> le_spec l = le_spec (newLease c p res)" for l
      using k by (simp add: kube_ok_def helpers_ok_def)
    show ?case
    proof (cases "e = NotFound")
      case False
      then show ?thesis by (auto intro!: runs_throw intro: granting_inv)
    next
      case True
      show ?thesis
      proof (cases "setControllerReference k p (newLease c p res)")
        case (Inl e')
        then show ?thesis using True by (auto intro!: runs_throw intro: granting_inv)
      next
        case (Inr l)
        then show ?thesis using createLease_runs[OF k, of l c p res] sc[OF Inr] True by simp
      qed
    qed
  qed
qed

section \<open>Status\<close>

lemma runs_state: "(\<And>s0. runs view P (m s0) Q E) \<Longrightarrow> runs view P (\<lambda>s. m s s) Q E"
  unfolding runs_def api_valid_def by simp

text \<open>What must hold to write the phase and the value of a claim.\<close>

definition may_write :: "string \<Rightarrow> string list \<Rightarrow> string \<Rightarrow> alloc_value \<Rightarrow> store \<Rightarrow> bool" where
  "may_write n refs phase v st \<longleftrightarrow> alloc_inv st \<and> (phase = AllocationClaimPhaseAllocated \<longrightarrow> recording n refs v st)"

lemma may_write_inv: "may_write n refs phase v st \<Longrightarrow> alloc_inv st"
  by (simp add: may_write_def)

lemma claim_status_put:
  assumes mw: "may_write n refs phase v st" and w: "claim_status_updated c st st'"
    and c: "cl_name c = n" "cl_phase c = phase" "phase = AllocationClaimPhaseAllocated \<Longrightarrow> cl_value c = v"
  shows "may_write n refs phase v st'"
proof -
  obtain old c' where o: "st_claims st n = Some old" and c': "cl_name c' = n"
      "cl_deletionTimestamp c' = cl_deletionTimestamp old" "cl_poolRefs c' = cl_poolRefs old"
      "cl_phase c' = phase" "cl_value c' = cl_value c"
    and st': "st' = st\<lparr>st_claims := (st_claims st)(n \<mapsto> c')\<rparr>"
    using w c unfolding claim_status_updated_def by auto
  have inv: "alloc_inv st" using mw by (rule may_write_inv)
  then have ne: "n \<noteq> []" using o unfolding alloc_inv_def store_wf_def by blast
  have rec: "recording n refs v st" "cl_value c' = v" if "phase = AllocationClaimPhaseAllocated"
    using that mw c c' by (auto simp: may_write_def)
  have refs: "cl_poolRefs c' = refs" if "phase = AllocationClaimPhaseAllocated"
    using rec(1)[OF that] o c' by (simp add: recording_def)
  have inv': "alloc_inv st'"
    unfolding st'
  proof (rule alloc_inv_claim_put[OF inv c'(1) ne], goal_cases)
    case (1 p d)
    then have a: "phase = AllocationClaimPhaseAllocated" "refs = [p]" using c' refs by auto
    then show ?case using rec[OF a(1)] 1 by (auto simp: recording_def status_ok_def)
  next
    case (2 l)
    then have a: "phase = AllocationClaimPhaseAllocated" "refs = [ls_poolRef (le_spec l)]"
      using c' refs by auto
    then show ?case
      using rec[OF a(1)] 2 c' by (auto simp: recording_def status_ok_def leaseOwnedByClaim_def)
  qed
  have "recording n refs v st'" if a: "phase = AllocationClaimPhaseAllocated"
  proof -
    have "holder st p d" if "holder st' p d" "cl_name d \<noteq> n" for p d
      using that c' by (auto simp: holder_def st' ran_put intro: ranI)
    then have "status_ok st' n refs v"
      using rec(1)[OF a] unfolding recording_def status_ok_def by (auto simp: st')
    then show ?thesis using inv' refs[OF a] by (simp add: recording_def st')
  qed
  then show ?thesis using inv' by (simp add: may_write_def)
qed

lemma get_claim_runs:
  assumes k: "kube_ok k view" and "\<And>st. P st \<Longrightarrow> alloc_inv st"
  shows "runs view P (kcall (get_claim k n)) (\<lambda>c st. P st \<and> st_claims st n = Some c \<and> cl_name c = n) (\<lambda>_. P)"
    and "runs view P (kcall (read_claim k n)) (\<lambda>c st. P st \<and> st_claims st n = Some c \<and> cl_name c = n) (\<lambda>_. P)"
proof -
  have n: "cl_name c = n" if "P st" "st_claims st n = Some c" for st c
    using assms(2)[OF that(1)] that(2) by (simp add: alloc_inv_def store_wf_def)
  show "runs view P (kcall (get_claim k n)) (\<lambda>c st. P st \<and> st_claims st n = Some c \<and> cl_name c = n) (\<lambda>_. P)"
    by (rule runs_kcall, rule runs_reads[OF kube_reads(1)[OF k]]) (use n in auto)
  show "runs view P (kcall (read_claim k n)) (\<lambda>c st. P st \<and> st_claims st n = Some c \<and> cl_name c = n) (\<lambda>_. P)"
    by (rule runs_kcall, rule runs_reads[OF kube_reads(2)[OF k]]) (use n in auto)
qed

lemma updateStatus_runs:
  assumes k: "kube_ok k view"
  shows "runs view (may_write (cl_name c) refs phase v) (updateStatus k c phase v ready reason msg)
    (\<lambda>_. may_write (cl_name c) refs phase v) (\<lambda>_. may_write (cl_name c) refs phase v)"
  unfolding updateStatus_def
proof (rule runs_retry[OF kube_writes(9)[OF k]])
  let ?P = "may_write (cl_name c) refs phase v"
  have g: "runs view ?P (kcall (get_claim k (cl_name c)))
      (\<lambda>fresh st. ?P st \<and> st_claims st (cl_name c) = Some fresh \<and> cl_name fresh = cl_name c) (\<lambda>_. ?P)"
    by (rule get_claim_runs(1)[OF k]) (rule may_write_inv)
  show "runs view ?P (updateStatus_body k c phase v ready reason msg) (\<lambda>_. ?P) (\<lambda>_. ?P)"
    unfolding updateStatus_body_def
  proof (rule runs_bind[OF g], goal_cases)
    case (1 fresh)
    show ?case
    proof (cases "allocationClaimReady k fresh \<and> phase \<noteq> AllocationClaimPhaseAllocated")
      case True
      then show ?thesis by (auto intro!: runs_return)
    next
      case False
      have wr: "runs view (\<lambda>st. ?P st \<and> st_claims st (cl_name c) = Some fresh \<and> cl_name fresh = cl_name c)
          (if c' = fresh then api_return c' else kcall (update_claim_status k c')) (\<lambda>_. ?P) (\<lambda>_. ?P)"
        if c': "cl_name c' = cl_name fresh" "cl_phase c' = phase"
          "phase = AllocationClaimPhaseAllocated \<Longrightarrow> cl_value c' = v" for c'
      proof (rule runs_split, elim conjE, goal_cases)
        case (1 st0)
        have "runs view ?P (kcall (update_claim_status k c')) (\<lambda>_. ?P) (\<lambda>_. ?P)"
          by (rule runs_kcall, rule runs_write[OF kube_writes(2)[OF k]])
            (use c' 1 in \<open>auto intro: claim_status_put\<close>)
        then show ?case
          using 1 by (auto intro!: runs_return elim!: runs_weaken)
      qed
      show ?thesis
        unfolding if_not_P[OF False] Let_def by (rule runs_state, rule wr) simp_all
    qed
  qed
qed

lemma updateStatus_other_runs:
  assumes k: "kube_ok k view"
  shows "runs view alloc_inv (updateStatusPending k c msg) (\<lambda>_. alloc_inv) inv_error"
    and "runs view alloc_inv (updateStatusFailed k c msg) (\<lambda>_. alloc_inv) inv_error"
  unfolding updateStatusPending_def updateStatusFailed_def
  by (rule runs_weaken[OF updateStatus_runs[OF k]];
      simp add: may_write_def AllocationClaimPhasePending_def AllocationClaimPhaseAllocated_def)+

lemma updateStatusAllocated_runs:
  assumes k: "kube_ok k view"
  shows "runs view (recording (cl_name c) (cl_poolRefs c) (result_value res)) (updateStatusAllocated k c res)
    (\<lambda>_. alloc_inv) inv_error"
  unfolding updateStatusAllocated_def
  by (rule runs_weaken[OF updateStatus_runs[OF k, where refs = "cl_poolRefs c"]])
    (auto simp: may_write_def recording_def)

section \<open>The passes\<close>

lemma pool_status_runs:
  assumes k: "kube_ok k view"
  shows "runs view (recording n refs v) (update_pool_status k p) (\<lambda>_. recording n refs v) inv_error"
    and "runs view alloc_inv (update_pool_status k p) (\<lambda>_. alloc_inv) inv_error"
proof -
  have inv: "alloc_inv st'" if "alloc_inv st" "pool_status_updated p st st'" for st st'
    using that alloc_inv_pool_status by (auto simp: pool_status_updated_def)
  have rec: "recording n refs v st'" if "recording n refs v st" "pool_status_updated p st st'" for st st'
  proof -
    have "holder st' = holder st" "st_leases st' = st_leases st" "st_claims st' = st_claims st"
      using that(2) by (auto simp: pool_status_updated_def holder_def fun_eq_iff)
    then show ?thesis
      using that inv[of st st'] by (simp add: recording_def status_ok_def)
  qed
  show "runs view (recording n refs v) (update_pool_status k p) (\<lambda>_. recording n refs v) inv_error"
    by (rule runs_write[OF kube_writes(8)[OF k]]) (auto intro: rec recording_inv recording_inv[OF rec])
  show "runs view alloc_inv (update_pool_status k p) (\<lambda>_. alloc_inv) inv_error"
    by (rule runs_write[OF kube_writes(8)[OF k]]) (auto intro: inv)
qed

lemma allocateClaim_body_runs:
  assumes k: "kube_ok k view"
  shows "runs view alloc_inv (allocateClaim_body k n) (\<lambda>_. alloc_inv) inv_error"
  unfolding allocateClaim_body_def
proof (rule runs_bind[OF get_claim_runs(2)[OF k]], goal_cases)
  case (2 fresh)
  let ?P = "\<lambda>st. alloc_inv st \<and> st_claims st n = Some fresh \<and> cl_name fresh = n"
  have a: "runs view ?P (allocate k fresh) (\<lambda>(res, p). granting fresh res p) inv_error"
    by (rule runs_reads[OF allocate_reads[OF k]]) (auto simp: granting_def stored_def)
  have grant: "runs view (granting fresh res p)
      (api_bind (ensureLease k fresh p res) (\<lambda>_.
         api_bind (kcall (update_pool_status k p')) (\<lambda>_. updateStatusAllocated k fresh res)))
      (\<lambda>_. alloc_inv) inv_error" for res p p'
    by (rule runs_bind[OF ensureLease_runs[OF k]],
        rule runs_bind[OF runs_kcall[OF pool_status_runs(1)[OF k]]], rule updateStatusAllocated_runs[OF k])
  show ?case
  proof (cases "allocationClaimReady k fresh")
    case True
    then show ?thesis by (auto intro!: runs_return)
  next
    case False
    show ?thesis
      unfolding if_not_P[OF False]
    proof (rule runs_try_bind[OF a], goal_cases)
      case (1 rp)
      then show ?case using grant by (cases rp) simp
    next
      case (2 e)
      then show ?case using updateStatus_other_runs[OF k] by (cases e) simp_all
    qed
  qed
qed simp

lemma reconcileLease_runs:
  assumes k: "kube_ok k view"
  shows "runs view alloc_inv (reconcileLease k c) (\<lambda>_. alloc_inv) inv_error"
proof -
  have g: "runs view alloc_inv (getLease k (leaseNameFor c))
      (\<lambda>r st. alloc_inv st \<and> st_leases st (leaseNameFor c) = r) inv_error"
    by (rule runs_reads[OF getLease_reads[OF k]]) auto
  have put: "alloc_inv st'"
    if inv: "alloc_inv st" and l: "st_leases st (leaseNameFor c) = Some l"
      and owner: "cr_name (ls_claimRef (le_spec l)) = [] \<or> leaseOwnedByClaim l c"
      and spec: "ls_poolRef sp = ls_poolRef (le_spec l)" "ls_value sp = ls_value (le_spec l)"
        "cr_name (ls_claimRef sp) = cl_name c"
        "ls_ownerDeletionTimestamp sp = ls_ownerDeletionTimestamp (le_spec l)"
      and w: "lease_updated (l\<lparr>le_spec := sp\<rparr>) st st'" for st st' l sp
  proof -
    have n: "le_name l = leaseNameFor c" "leaseNameFor c \<noteq> []" "l \<in> ran (st_leases st)"
      using inv l unfolding alloc_inv_def store_wf_def by (blast intro: ranI)+
    obtain l' where l': "le_name l' = leaseNameFor c" "le_spec l' = sp"
      "st' = st\<lparr>st_leases := (st_leases st)(leaseNameFor c \<mapsto> l')\<rparr>"
      using w n by (auto simp: lease_updated_def)
    show ?thesis
      unfolding l'(3)
    proof (rule alloc_inv_lease_put[OF inv l'(1) n(2)], goal_cases)
      case (1 m)
      then show ?case
        using inv n l' spec unfolding alloc_inv_def leases_distinct_def by metis
    next
      case (2 d)
      then have o: "leaseOwnedByClaim l d \<and> ls_ownerDeletionTimestamp (le_spec l) = None"
        using leases_ownedD[OF inv, of l d] n(3) l' spec by simp
      have "cl_name d \<noteq> []" using 2 stored_ran[OF inv, of d] inv
        unfolding holder_def stored_def alloc_inv_def store_wf_def by blast
      then show ?case using o owner l' spec by (auto simp: leaseOwnedByClaim_def)
    qed
  qed
  show ?thesis
    unfolding reconcileLease_def
  proof (rule runs_bind[OF g], goal_cases)
    case (1 r)
    show ?case
    proof (cases r)
      case None
      then show ?thesis by (auto intro!: runs_return)
    next
      case (Some l)
      let ?sp = "adoptNetworkInterfaceIdentity
          ((le_spec l)\<lparr>ls_claimRef := \<lparr>cr_name = cl_name c, cr_uid = cl_uid c\<rparr>\<rparr>) c"
      show ?thesis
      proof (cases "(cr_name (ls_claimRef (le_spec l)) \<noteq> [] \<and> \<not> leaseOwnedByClaim l c) \<or> le_spec l = ?sp")
        case True
        then show ?thesis using Some by (auto intro!: runs_return simp: Let_def)
      next
        case False
        have "runs view (\<lambda>st. alloc_inv st \<and> st_leases st (leaseNameFor c) = Some l)
            (kcall (update_lease k (l\<lparr>le_spec := ?sp\<rparr>))) (\<lambda>_. alloc_inv) inv_error"
          by (rule runs_kcall, rule runs_write[OF kube_writes(4)[OF k]])
            (use False in \<open>auto intro: put[of _ l ?sp]\<close>)
        then show ?thesis using Some False by (auto simp: Let_def)
      qed
    qed
  qed
qed

lemma runs_if: "runs view P m Q E \<Longrightarrow> runs view P m' Q E \<Longrightarrow> runs view P (if b then m else m') Q E"
  by simp

text \<open>A lease written with the spec it has, or deleted.\<close>

lemma alloc_inv_lease_same:
  assumes inv: "alloc_inv st" and l: "st_leases st n = Some l" "le_name l' = n"
    and spec: "ls_poolRef (le_spec l') = ls_poolRef (le_spec l)" "ls_value (le_spec l') = ls_value (le_spec l)"
      "ls_claimRef (le_spec l') = ls_claimRef (le_spec l)"
    and odt: "\<And>d. holder st (ls_poolRef (le_spec l)) d \<Longrightarrow> leaseOwnedByClaim l d \<Longrightarrow>
        ls_ownerDeletionTimestamp (le_spec l') = ls_ownerDeletionTimestamp (le_spec l)"
  shows "alloc_inv (st\<lparr>st_leases := (st_leases st)(n \<mapsto> l')\<rparr>)"
proof -
  have n: "le_name l = n" "n \<noteq> []" "l \<in> ran (st_leases st)"
    using inv l unfolding alloc_inv_def store_wf_def by (blast intro: ranI)+
  show ?thesis
  proof (rule alloc_inv_lease_put[OF inv l(2) n(2)], goal_cases)
    case (1 m)
    then show ?case using inv n spec unfolding alloc_inv_def leases_distinct_def by metis
  next
    case (2 d)
    then have "leaseOwnedByClaim l d \<and> ls_ownerDeletionTimestamp (le_spec l) = None"
      using leases_ownedD[OF inv, of l d] n(3) spec by simp
    then show ?case using odt[of d] 2 spec by (simp add: leaseOwnedByClaim_def)
  qed
qed

lemma delete_runs:
  assumes k: "kube_ok k view" and P: "\<And>st n. P st \<Longrightarrow> P (st\<lparr>st_leases := (st_leases st)(n := None)\<rparr>)"
  shows "runs view P (delete_lease k l) (\<lambda>_. P) (\<lambda>_. P)"
    and "runs view P (delete_lease_uid k l) (\<lambda>_. P) (\<lambda>_. P)"
  by (rule runs_write[OF kube_writes(6)[OF k]]; auto simp: lease_deleted_def intro: P)
    (rule runs_write[OF kube_writes(7)[OF k]]; auto simp: lease_deleted_def intro: P)

subsection \<open>Deletion of a claim\<close>

definition deleting :: "claim \<Rightarrow> store \<Rightarrow> bool" where
  "deleting c st \<longleftrightarrow> alloc_inv st \<and> stored st c \<and> cl_deletionTimestamp c \<noteq> None"

lemma deleting_inv: "deleting c st \<Longrightarrow> alloc_inv st"
  by (simp add: deleting_def)

lemma deleting_delete: "deleting c st \<Longrightarrow> deleting c (st\<lparr>st_leases := (st_leases st)(n := None)\<rparr>)"
  by (simp add: deleting_def stored_def alloc_inv_lease_delete)

lemma releaseLease_runs:
  assumes k: "kube_ok k view" and own: "leaseOwnedByClaim l c"
  shows "runs view (\<lambda>st. deleting c st \<and> st_leases st (leaseNameFor c) = Some l) (releaseLease k c l)
    (\<lambda>_. deleting c) (\<lambda>_. deleting c)"
proof -
  have del: "runs view (\<lambda>st. deleting c st \<and> st_leases st (leaseNameFor c) = Some l)
      (api_bind (api_try (delete_lease k l)) (\<lambda>r. case r of
         Inl NotFound \<Rightarrow> api_return () | Inl e \<Rightarrow> api_throw (Kube e) | Inr _ \<Rightarrow> api_return ()))
      (\<lambda>_. deleting c) (\<lambda>_. deleting c)"
  proof -
    have d: "runs view (deleting c) (delete_lease k l) (\<lambda>_. deleting c) (\<lambda>_. deleting c)"
      by (rule delete_runs(1)[OF k]) (rule deleting_delete)
    have "runs view (deleting c)
      (api_bind (api_try (delete_lease k l)) (\<lambda>r. case r of
         Inl NotFound \<Rightarrow> api_return () | Inl e \<Rightarrow> api_throw (Kube e) | Inr _ \<Rightarrow> api_return ()))
      (\<lambda>_. deleting c) (\<lambda>_. deleting c)"
    proof (rule runs_try_bind[OF d], goal_cases)
      case (1 x)
      show ?case by (auto intro!: runs_return)
    next
      case (2 e)
      show ?case by (cases e) (auto intro!: runs_return runs_throw)
    qed
    then show ?thesis by (rule runs_weaken) auto
  qed
  have put: "deleting c st'"
    if d: "deleting c st" and l: "st_leases st (leaseNameFor c) = Some l"
      and w: "lease_updated (l\<lparr>le_spec := (le_spec l)\<lparr>ls_ownerDeletionTimestamp := o1, ls_ttlSeconds := o2\<rparr>\<rparr>) st st'"
    for st st' o1 o2
  proof -
    have inv: "alloc_inv st" using d by (rule deleting_inv)
    then have n: "le_name l = leaseNameFor c" using l by (simp add: alloc_inv_def store_wf_def)
    obtain l' where l': "le_name l' = leaseNameFor c"
      "le_spec l' = (le_spec l)\<lparr>ls_ownerDeletionTimestamp := o1, ls_ttlSeconds := o2\<rparr>"
      "st' = st\<lparr>st_leases := (st_leases st)(leaseNameFor c \<mapsto> l')\<rparr>"
      using w n by (auto simp: lease_updated_def)
    have "\<not> (holder st p e \<and> leaseOwnedByClaim l e)" for p e
      using stored_unique[OF inv, of c p e] own d
      by (auto simp: deleting_def leaseOwnedByClaim_def holder_def)
    then have "alloc_inv st'"
      unfolding l'(3) by (intro alloc_inv_lease_same[OF inv l l'(1)]) (auto simp: l')
    then show ?thesis using d by (simp add: deleting_def stored_def l'(3))
  qed
  have upd: "runs view (\<lambda>st. deleting c st \<and> st_leases st (leaseNameFor c) = Some l)
      (kcall (update_lease k (l\<lparr>le_spec := (le_spec l)\<lparr>ls_ownerDeletionTimestamp := o1, ls_ttlSeconds := o2\<rparr>\<rparr>)))
      (\<lambda>_. deleting c) (\<lambda>_. deleting c)" for o1 o2
    by (rule runs_kcall, rule runs_write[OF kube_writes(4)[OF k]]) (auto intro: put)
  show ?thesis
  proof (cases "\<exists>d. cl_releaseAfter c = Some d \<and> d > 0")
    case True
    then obtain d where d: "cl_releaseAfter c = Some d" "d > 0" by blast
    have "runs view (\<lambda>st. deleting c st \<and> st_leases st (leaseNameFor c) = Some l)
        (if ls_ownerDeletionTimestamp (le_spec l) = None \<or> ls_ttlSeconds (le_spec l) \<noteq> Some (releaseAfter_seconds d)
         then kcall (update_lease k (l\<lparr>le_spec := (le_spec l)\<lparr>ls_ownerDeletionTimestamp := Some (time_now k s),
           ls_ttlSeconds := Some (releaseAfter_seconds d)\<rparr>\<rparr>))
         else api_return ()) (\<lambda>_. deleting c) (\<lambda>_. deleting c)" for s
      by (rule runs_if[OF upd]) (rule runs_return, simp)
    from runs_state[OF this] show ?thesis
      unfolding releaseLease_def d(1) option.case if_P[OF d(2)] Let_def .
  next
    case False
    then have "releaseLease k c l = api_bind (api_try (delete_lease k l)) (\<lambda>r. case r of
         Inl NotFound \<Rightarrow> api_return () | Inl e \<Rightarrow> api_throw (Kube e) | Inr _ \<Rightarrow> api_return ())"
      by (auto simp: releaseLease_def split: option.split)
    then show ?thesis using del by simp
  qed
qed

lemma handleDeletion_runs:
  assumes k: "kube_ok k view"
  shows "runs view (deleting c) (handleDeletion k c) (\<lambda>_. alloc_inv) inv_error"
proof -
  have g: "runs view (deleting c) (get_lease k (leaseNameFor c))
      (\<lambda>l st. deleting c st \<and> st_leases st (leaseNameFor c) = Some l) (\<lambda>_. deleting c)"
    by (rule runs_reads[OF kube_reads(3)[OF k]]) auto
  have fin: "runs view (deleting c) (api_bind (kcall (update_claim k (c\<lparr>cl_finalizers := fs\<rparr>))) (\<lambda>_. api_return ()))
      (\<lambda>_. alloc_inv) inv_error" for fs
  proof -
    have "alloc_inv st'" if d: "deleting c st" and w: "claim_updated (c\<lparr>cl_finalizers := fs\<rparr>) st st'" for st st'
    proof -
      have inv: "alloc_inv st" and o: "st_claims st (cl_name c) = Some c" and dt: "cl_deletionTimestamp c \<noteq> None"
        using d by (simp_all add: deleting_def stored_def)
      then have ne: "cl_name c \<noteq> []" unfolding alloc_inv_def store_wf_def by blast
      from w o consider "st' = st\<lparr>st_claims := (st_claims st)(cl_name c := None)\<rparr>"
        | c' where "cl_name c' = cl_name c" "cl_deletionTimestamp c' = cl_deletionTimestamp c"
          "st' = st\<lparr>st_claims := (st_claims st)(cl_name c \<mapsto> c')\<rparr>"
        by (auto simp: claim_updated_def)
      then show ?thesis
      proof cases
        case 1
        then show ?thesis using alloc_inv_claim_delete[OF inv] by simp
      next
        case 2
        then show ?thesis using dt by (auto intro!: alloc_inv_claim_put[OF inv _ ne])
      qed
    qed
    then have "runs view (deleting c) (kcall (update_claim k (c\<lparr>cl_finalizers := fs\<rparr>))) (\<lambda>_. alloc_inv) inv_error"
      by (intro runs_kcall runs_write[OF kube_writes(1)[OF k]]) (auto intro: deleting_inv)
    then show ?thesis by (rule runs_bind) (auto intro!: runs_return)
  qed
  show ?thesis
  proof (cases "containsFinalizer k (cl_finalizers c) allocationClaimFinalizer")
    case False
    then show ?thesis by (auto simp: handleDeletion_def intro!: runs_return intro: deleting_inv)
  next
    case True
    then have "\<not> \<not> containsFinalizer k (cl_finalizers c) allocationClaimFinalizer" by simp
    note nf = if_not_P[OF this]
    show ?thesis
      unfolding handleDeletion_def nf
    proof (rule runs_try_bind[OF g], goal_cases)
      case (1 l)
      show ?case
      proof (rule runs_bind[OF _ fin], goal_cases)
        case 1
        have "runs view (\<lambda>st. deleting c st \<and> st_leases st (leaseNameFor c) = Some l)
            (if leaseOwnedByClaim l c then releaseLease k c l else api_return ()) (\<lambda>_. deleting c) inv_error"
        proof (cases "leaseOwnedByClaim l c")
          case True
          show ?thesis
            unfolding if_P[OF True] by (rule runs_weaken[OF releaseLease_runs[OF k True]]) (auto intro: deleting_inv)
        next
          case False
          then show ?thesis by (auto intro!: runs_return)
        qed
        then show ?case by simp
      qed
    next
      case (2 e)
      show ?case
      proof (rule runs_bind[OF _ fin], goal_cases)
        case 1
        show ?case by (cases e) (auto intro!: runs_return runs_throw intro: deleting_inv)
      qed
    qed
  qed
qed

subsection \<open>Live claims\<close>

lemma alloc_inv_claim_same:
  assumes inv: "alloc_inv st" and c: "st_claims st n = Some c" "cl_name c' = n"
    "cl_deletionTimestamp c' = cl_deletionTimestamp c" "cl_poolRefs c' = cl_poolRefs c"
    "cl_phase c' = cl_phase c" "cl_value c' = cl_value c"
  shows "alloc_inv (st\<lparr>st_claims := (st_claims st)(n \<mapsto> c')\<rparr>)"
proof -
  have n: "cl_name c = n" "n \<noteq> []" using inv c unfolding alloc_inv_def store_wf_def by blast+
  have h: "holder st p c" if "cl_deletionTimestamp c' = None" "cl_phase c' = AllocationClaimPhaseAllocated"
    "cl_poolRefs c' = [p]" for p
    using that c by (auto simp: holder_def intro: ranI)
  show ?thesis
  proof (rule alloc_inv_claim_put[OF inv c(2) n(2)], goal_cases)
    case (1 p d)
    show ?case
    proof
      assume "same_value (cl_value c') (cl_value d)"
      then have "c = d" using inv h[OF 1(1-3)] 1(4) c(6) unfolding alloc_inv_def claims_distinct_def by metis
      then show False using 1(5) n by simp
    qed
  next
    case (2 l)
    from leases_ownedD[OF inv h[OF 2(1-3)] 2(4)] 2(5) show ?case
      using c n by (simp add: leaseOwnedByClaim_def)
  qed
qed

lemma update_finalizers_runs:
  assumes k: "kube_ok k view"
  shows "runs view (\<lambda>st. alloc_inv st \<and> st_claims st n = Some c \<and> cl_name c = n)
    (kcall (update_claim k (c\<lparr>cl_finalizers := fs\<rparr>))) (\<lambda>_. alloc_inv) inv_error"
proof -
  have put: "alloc_inv st'" if inv: "alloc_inv st" and c: "stored st c"
      and w: "claim_updated (c\<lparr>cl_finalizers := fs\<rparr>) st st'" for st st'
  proof -
    have o: "st_claims st (cl_name c) = Some c" using c by (simp add: stored_def)
    then have ne: "cl_name c \<noteq> []" using inv unfolding alloc_inv_def store_wf_def by blast
    from w o show ?thesis
      using alloc_inv_claim_delete[OF inv] alloc_inv_claim_same[OF inv o] by (auto simp: claim_updated_def)
  qed
  show ?thesis
    by (rule runs_kcall, rule runs_write[OF kube_writes(1)[OF k]]) (auto simp: stored_def intro: put)
qed

lemma ensureFinalizer_body_runs:
  assumes k: "kube_ok k view"
  shows "runs view alloc_inv (ensureFinalizer_body k n) (\<lambda>_. alloc_inv) inv_error"
  unfolding ensureFinalizer_body_def
  by (rule runs_bind[OF get_claim_runs(1)[OF k]])
    (auto intro!: runs_if update_finalizers_runs[OF k] runs_return)

lemma runs_then_unit: "runs view P m (\<lambda>_. Q) E \<Longrightarrow> runs view P (api_bind m (\<lambda>_. api_return x)) (\<lambda>_. Q) E"
  by (erule runs_bind) (rule runs_return)

lemma reconcileLive_runs:
  assumes k: "kube_ok k view"
  shows "runs view alloc_inv (reconcileLive k n c) (\<lambda>_. alloc_inv) inv_error"
proof -
  have oe: "runs view alloc_inv (owner_exists k r) (\<lambda>_. alloc_inv) inv_error" for r
    by (rule runs_reads[OF kube_reads(9)[OF k]]) auto
  have "runs view alloc_inv (api_bind (api_try (owner_exists k (cl_resourceRef c))) (\<lambda>r. case r of
             Inl e \<Rightarrow> api_bind (updateStatusFailed k c (ErrorText e)) (\<lambda>_. api_return ())
           | Inr _ \<Rightarrow> api_bind (retry_claim k (allocateClaim_body k n)) (\<lambda>_. api_return ())))
      (\<lambda>_. alloc_inv) inv_error"
    by (rule runs_try_bind[OF oe])
      (simp_all add: runs_then_unit updateStatus_other_runs[OF k]
        runs_retry[OF kube_writes(9)[OF k] allocateClaim_body_runs[OF k]])
  then show ?thesis
    unfolding reconcileLive_def
    by (intro runs_if reconcileLease_runs[OF k] runs_then_unit updateStatus_other_runs[OF k])
qed

lemma Reconcile_runs:
  assumes k: "kube_ok k view"
  shows "runs view alloc_inv (Reconcile k n) (\<lambda>_. alloc_inv) inv_error"
proof -
  have g: "runs view alloc_inv (get_claim k n)
      (\<lambda>c st. alloc_inv st \<and> stored st c) inv_error"
    by (rule runs_reads[OF kube_reads(1)[OF k]]) (auto intro: stored_ran ranI)
  have live: "runs view (\<lambda>st. alloc_inv st \<and> stored st c) (reconcileLive k n c) (\<lambda>_. alloc_inv) inv_error" for c
    by (rule runs_weaken[OF reconcileLive_runs[OF k]]) auto
  let ?fin = "api_bind (api_try (retry_claim k (ensureFinalizer_body k n))) (\<lambda>rf. case rf of
                Inl (Kube NotFound) \<Rightarrow> api_return ()
              | Inl e \<Rightarrow> api_throw e
              | Inr resource \<Rightarrow> reconcileLive k n resource)"
  have "runs view alloc_inv ?fin (\<lambda>_. alloc_inv) inv_error"
  proof (rule runs_try_bind[OF runs_retry[OF kube_writes(9)[OF k] ensureFinalizer_body_runs[OF k]]], goal_cases)
    case (1 x)
    then show ?case by (simp add: reconcileLive_runs[OF k])
  next
    case (2 e)
    show ?case by (auto split: alloc_error.split kube_error.split intro!: runs_return runs_throw)
  qed
  then have fin: "runs view (\<lambda>st. alloc_inv st \<and> stored st c) ?fin (\<lambda>_. alloc_inv) inv_error" for c
    by (rule runs_weaken) auto
  show ?thesis
    unfolding Reconcile_def
  proof (rule runs_try_bind[OF g], goal_cases)
    case (1 c)
    show ?case
    proof (cases "cl_deletionTimestamp c = None")
      case True
      then show ?thesis using live fin by (simp add: runs_if)
    next
      case False
      then show ?thesis
        using runs_weaken[OF handleDeletion_runs[OF k, of c]] by (simp add: deleting_def)
    qed
  next
    case (2 e)
    show ?case by (auto split: kube_error.split intro!: runs_return runs_throw)
  qed
qed

subsection \<open>The lease and the pool controller\<close>

definition lease_stable :: "(store \<Rightarrow> bool) \<Rightarrow> bool" where
  "lease_stable P \<longleftrightarrow> (\<forall>st n l l'. P st \<and> st_leases st n = Some l \<and> le_name l' = n \<and> le_spec l' = le_spec l \<longrightarrow>
      P (st\<lparr>st_leases := (st_leases st)(n \<mapsto> l')\<rparr>))"

definition reapable :: "(store \<Rightarrow> bool) \<Rightarrow> string \<Rightarrow> bool" where
  "reapable P n \<longleftrightarrow> (\<forall>st. P st \<longrightarrow> P (st\<lparr>st_leases := (st_leases st)(n := None)\<rparr>))"

lemma lease_status_runs:
  assumes k: "kube_ok k view"
    and P: "lease_stable P"
  shows "runs view P (lease_updateStatus k l d) (\<lambda>_. P) (\<lambda>_. P)"
proof -
  have g: "runs view P (kcall (get_lease k n)) (\<lambda>_. P) (\<lambda>_. P)" for n
    by (rule runs_kcall, rule runs_reads[OF kube_reads(3)[OF k]]) auto
  have upd: "P st'" if p: "P st" and u: "lease_status_updated m st st'" for st st' m
  proof -
    obtain old l' where "st_leases st (le_name m) = Some old" "le_name l' = le_name m" "le_spec l' = le_spec old"
      "st' = st\<lparr>st_leases := (st_leases st)(le_name m \<mapsto> l')\<rparr>"
      using u unfolding lease_status_updated_def by blast
    then show ?thesis using P p unfolding lease_stable_def by blast
  qed
  have w: "runs view P (kcall (update_lease_status k m)) (\<lambda>_. P) (\<lambda>_. P)" for m
    by (rule runs_kcall, rule runs_write[OF kube_writes(5)[OF k]]) (auto intro: upd)
  have "runs view P (lease_updateStatus_body k l d) (\<lambda>_. P) (\<lambda>_. P)"
    unfolding lease_updateStatus_body_def Let_def
    by (rule runs_bind[OF g], rule runs_state, rule runs_if[OF runs_return w]) simp
  then show ?thesis
    unfolding lease_updateStatus_def by (rule runs_retry[OF kube_writes(10)[OF k]])
qed

lemma reapLease_runs:
  assumes k: "kube_ok k view"
    and P: "lease_stable P"
    and D: "\<not> now < t + lease_ttl (le_spec l) \<Longrightarrow> reapable P (le_name l)"
  shows "runs view P (reapLease k l now t ret) (\<lambda>_. P) (\<lambda>_. P)"
proof (cases "now < t + lease_ttl (le_spec l)")
  case True
  then have nn: "\<not> \<not> now < t + lease_ttl (le_spec l)" by simp
  show ?thesis
    unfolding reapLease_def Let_def if_not_P[OF nn]
    by (rule runs_then_unit) (rule lease_status_runs[OF k P])
next
  case False
  have del: "runs view P (delete_lease_uid k l) (\<lambda>_. P) (\<lambda>_. P)"
    by (rule runs_write[OF kube_writes(7)[OF k]]) (use D[OF False] in \<open>auto simp: lease_deleted_def reapable_def\<close>)
  have "runs view P (api_bind (api_try (delete_lease_uid k l)) (\<lambda>r. case r of
       Inr _ \<Rightarrow> api_return 0 | Inl NotFound \<Rightarrow> api_return 0 | Inl Conflict \<Rightarrow> api_return 0
     | Inl e \<Rightarrow> api_throw (Kube e))) (\<lambda>_. P) (\<lambda>_. P)"
  proof (rule runs_try_bind[OF del], goal_cases)
    case (1 x)
    then show ?case by (simp add: runs_return)
  next
    case (2 e)
    show ?case by (auto split: kube_error.split intro!: runs_return runs_throw)
  qed
  then show ?thesis
    unfolding reapLease_def Let_def if_P[OF False]
    by (intro runs_try_bind[OF lease_status_runs[OF k P]])
qed

lemma retained_runs:
  assumes k: "kube_ok k view"
  shows "runs view P (retainedObjectExists k ref) (\<lambda>_. P) (\<lambda>_. P)"
proof -
  have g: "runs view P (retained_get k ref) (\<lambda>_. P) (\<lambda>_. P)"
    by (rule runs_reads[OF kube_reads(10)[OF k]]) auto
  show ?thesis
    unfolding retainedObjectExists_def
  proof (rule runs_try_bind[OF g], goal_cases)
    case (2 e)
    show ?case by (auto split: kube_error.split intro!: runs_return runs_throw)
  qed (simp add: runs_return)
qed

lemma reconcileReleased_runs:
  assumes k: "kube_ok k view"
    and P: "lease_stable P"
    and D: "\<And>n. reapable P n"
  shows "runs view P (reconcileReleased k l now t) (\<lambda>_. P) (\<lambda>_. P)"
proof -
  have reap: "runs view P (reapLease k l now t' ret) (\<lambda>_. P) (\<lambda>_. P)" for t' ret
    by (rule reapLease_runs[OF k P D])
  have st: "runs view P (lease_updateStatus k l d) (\<lambda>_. P) (\<lambda>_. P)" for d
    by (rule lease_status_runs[OF k P])
  have fail: "runs view P (api_bind (api_try (lease_updateStatus k l d))
      (\<lambda>_ :: alloc_error + lease. api_throw e)) (\<lambda>_. P) (\<lambda>_. P)" for d and e :: alloc_error
    by (rule runs_try_bind[OF st]) (rule runs_throw, assumption)+
  show ?thesis
  proof (cases "ls_retainWhile (le_spec l)")
    case None
    then show ?thesis by (simp add: reconcileReleased_def reap)
  next
    case (Some ref)
    show ?thesis
      unfolding reconcileReleased_def Some option.case
    proof (rule runs_try_bind[OF retained_runs[OF k]], goal_cases)
      case (1 x)
      show ?case
        by (cases x) (auto simp: Let_def intro!: runs_then_unit st reap)
    next
      case (2 e)
      show ?case by (simp add: fail)
    qed
  qed
qed

lemma lease_Reconcile_runs:
  assumes k: "kube_ok k view"
  shows "runs view alloc_inv (lease_Reconcile k n) (\<lambda>_. alloc_inv) inv_error"
proof -
  have P: "lease_stable alloc_inv"
    unfolding lease_stable_def by (auto intro: alloc_inv_lease_same)
  have D: "reapable alloc_inv m" for m
    by (simp add: reapable_def alloc_inv_lease_delete)
  have g: "runs view alloc_inv (get_lease k n) (\<lambda>_. alloc_inv) inv_error"
    by (rule runs_reads[OF kube_reads(3)[OF k]]) auto
  note st = lease_status_runs[OF k P]
  note rel = reconcileReleased_runs[OF k P D]
  show ?thesis
    unfolding lease_Reconcile_def Let_def
  proof (rule runs_state, rule runs_try_bind[OF g], goal_cases)
    case (1 s l)
    show ?case
      by (auto split: option.split intro!: runs_return runs_then_unit st rel)
  next
    case (2 s e)
    show ?case by (auto split: kube_error.split intro!: runs_return runs_throw)
  qed
qed

lemma pool_Reconcile_runs:
  assumes k: "kube_ok k view"
  shows "runs view alloc_inv (pool_Reconcile k render n) (\<lambda>_. alloc_inv) inv_error"
proof -
  have g: "runs view alloc_inv (get_pool k m) (\<lambda>_. alloc_inv) inv_error" for m
    by (rule runs_reads[OF kube_reads(5)[OF k]]) auto
  have "runs view alloc_inv (pool_updateStatus_body k p b reason msg) (\<lambda>_. alloc_inv) inv_error" for p b reason msg
    unfolding pool_updateStatus_body_def Let_def
    by (rule runs_bind[OF runs_kcall[OF g]], rule runs_state,
        rule runs_if[OF runs_return runs_kcall[OF pool_status_runs(2)[OF k]]])
  note upd = runs_then_unit[OF runs_retry[OF kube_writes(11)[OF k] this]]
  show ?thesis
    unfolding pool_Reconcile_def
  proof (rule runs_try_bind[OF g], goal_cases)
    case (1 p)
    show ?case by (auto split: option.split intro!: upd)
  next
    case (2 e)
    show ?case by (auto split: kube_error.split intro!: runs_return runs_throw)
  qed
qed

lemma runs_inv:
  assumes "runs view alloc_inv m (\<lambda>_. alloc_inv) inv_error" "alloc_inv (view s)" "m s = (r, s')"
  shows "alloc_inv (view s')"
proof (cases r)
  case (Inl e)
  show ?thesis by (rule api_validE_Inl[OF assms(1)[unfolded runs_def] assms(2) assms(3)[unfolded Inl]])
next
  case (Inr x)
  show ?thesis by (rule api_validE_Inr[OF assms(1)[unfolded runs_def] assms(2) assms(3)[unfolded Inr]])
qed

section \<open>The system\<close>

text \<open>
  What others do to the stored objects between two passes: claims are created without a value, marked
  for deletion, removed, or changed outside their pool references and status (which admission keeps
  immutable); pools with IPv4 space appear, change and go; a lease may be garbage-collected.
\<close>

inductive others_step :: "store \<Rightarrow> store \<Rightarrow> bool" where
  claim_created: "st_claims st n = None \<Longrightarrow> n \<noteq> [] \<Longrightarrow> cl_name c = n \<Longrightarrow> cl_phase c \<noteq> AllocationClaimPhaseAllocated \<Longrightarrow>
    others_step st (st\<lparr>st_claims := (st_claims st)(n \<mapsto> c)\<rparr>)"
| claim_marked: "st_claims st n = Some c \<Longrightarrow>
    others_step st (st\<lparr>st_claims := (st_claims st)(n \<mapsto> c\<lparr>cl_deletionTimestamp := Some t\<rparr>)\<rparr>)"
| claim_changed: "st_claims st n = Some c \<Longrightarrow> cl_name c' = n \<Longrightarrow>
    cl_deletionTimestamp c' = cl_deletionTimestamp c \<Longrightarrow> cl_poolRefs c' = cl_poolRefs c \<Longrightarrow>
    cl_phase c' = cl_phase c \<Longrightarrow> cl_value c' = cl_value c \<Longrightarrow>
    others_step st (st\<lparr>st_claims := (st_claims st)(n \<mapsto> c')\<rparr>)"
| claim_removed: "others_step st (st\<lparr>st_claims := (st_claims st)(n := None)\<rparr>)"
| lease_removed: "others_step st (st\<lparr>st_leases := (st_leases st)(n := None)\<rparr>)"
| pool_put: "po_name p = n \<Longrightarrow> pool_v4 p \<Longrightarrow> others_step st (st\<lparr>st_pools := (st_pools st)(n \<mapsto> p)\<rparr>)"
| pool_removed: "others_step st (st\<lparr>st_pools := (st_pools st)(n := None)\<rparr>)"

text \<open>The passes of the three controllers run one at a time, interleaved with the steps of others.\<close>

inductive alloc_step :: "'s kube \<Rightarrow> ('s \<Rightarrow> store) \<Rightarrow> (pool_invalid \<Rightarrow> string) \<Rightarrow> 's \<Rightarrow> 's \<Rightarrow> bool"
  for k :: "'s kube" and view :: "'s \<Rightarrow> store" and render :: "pool_invalid \<Rightarrow> string" where
  claim_pass: "Reconcile k n s = (r, s') \<Longrightarrow> alloc_step k view render s s'"
| lease_pass: "lease_Reconcile k n s = (r, s') \<Longrightarrow> alloc_step k view render s s'"
| pool_pass: "pool_Reconcile k render n s = (r, s') \<Longrightarrow> alloc_step k view render s s'"
| by_others: "others_step (view s) (view s') \<Longrightarrow> alloc_step k view render s s'"

inductive alloc_reachable :: "'s kube \<Rightarrow> ('s \<Rightarrow> store) \<Rightarrow> (pool_invalid \<Rightarrow> string) \<Rightarrow> 's \<Rightarrow> bool"
  for k :: "'s kube" and view :: "'s \<Rightarrow> store" and render :: "pool_invalid \<Rightarrow> string" where
  fresh_cluster: "st_claims (view s) = Map.empty \<Longrightarrow> st_leases (view s) = Map.empty \<Longrightarrow>
     st_pools (view s) = Map.empty \<Longrightarrow> alloc_reachable k view render s"
| step: "alloc_reachable k view render s \<Longrightarrow> alloc_step k view render s s' \<Longrightarrow> alloc_reachable k view render s'"

lemma alloc_inv_pool_set:
  assumes inv: "alloc_inv st" and p: "\<And>q. x = Some q \<Longrightarrow> po_name q = n \<and> pool_v4 q"
  shows "alloc_inv (st\<lparr>st_pools := (st_pools st)(n := x)\<rparr>)"
proof -
  let ?st = "st\<lparr>st_pools := (st_pools st)(n := x)\<rparr>"
  have h: "holder ?st = holder st" by (simp add: holder_def fun_eq_iff)
  have "claims_distinct ?st" using inv unfolding alloc_inv_def claims_distinct_def h by blast
  moreover have "leases_owned ?st" using inv unfolding alloc_inv_def leases_owned_def h by auto
  moreover have "leases_distinct ?st" using inv unfolding alloc_inv_def leases_distinct_def by simp
  ultimately show ?thesis using inv p by (auto simp: alloc_inv_def store_wf_def)
qed

lemma others_step_inv: "others_step st st' \<Longrightarrow> alloc_inv st \<Longrightarrow> alloc_inv st'"
proof (induction rule: others_step.induct)
  case (claim_created st n c)
  then show ?case by (intro alloc_inv_claim_put) auto
next
  case (claim_marked st n c t)
  then have "cl_name c = n" "n \<noteq> []" unfolding alloc_inv_def store_wf_def by blast+
  then show ?case using claim_marked by (intro alloc_inv_claim_put) auto
next
  case (claim_changed st n c c')
  then show ?case by (intro alloc_inv_claim_same)
qed (auto intro: alloc_inv_claim_delete alloc_inv_lease_delete alloc_inv_pool_set)

lemma alloc_step_inv:
  assumes "kube_ok k view" "alloc_step k view render s s'" "alloc_inv (view s)"
  shows "alloc_inv (view s')"
  using assms(2)
proof cases
  case by_others
  then show ?thesis using others_step_inv assms(3) by blast
qed (auto intro: runs_inv[OF Reconcile_runs[OF assms(1)] assms(3)]
      runs_inv[OF lease_Reconcile_runs[OF assms(1)] assms(3)] runs_inv[OF pool_Reconcile_runs[OF assms(1)] assms(3)])

lemma alloc_reachable_inv:
  assumes "kube_ok k view" "alloc_reachable k view render s"
  shows "alloc_inv (view s)"
  using assms(2)
proof (induction rule: alloc_reachable.induct)
  case (fresh_cluster s)
  then show ?case
    by (simp add: alloc_inv_def store_wf_def claims_distinct_def leases_owned_def leases_distinct_def holder_def)
next
  case (step s s')
  then show ?case using alloc_step_inv[OF assms(1)] by blast
qed


end
