(* ===== verification/AllocMem.thy ===== *)
theory AllocMem
  imports AllocSafety
begin

text \<open>
  A cluster in memory: the client the controllers are written against, with objects kept in lists. It
  satisfies the laws of \<open>kube_ok\<close>, so the theorems about the controllers are about something, and
  their witnesses run the controllers on it.
\<close>

record mem =
  m_claims :: "claim list"
  m_leases :: "lease list"
  m_pools :: "pool list"
  m_present :: "retain_ref list"
  m_now :: int

definition mem_find :: "('a \<Rightarrow> string) \<Rightarrow> 'a list \<Rightarrow> string \<Rightarrow> 'a option" where
  "mem_find name xs n = (if n = [] then None else List.find (\<lambda>x. name x = n) xs)"

definition mem_list :: "('a \<Rightarrow> string) \<Rightarrow> 'a list \<Rightarrow> 'a list" where
  "mem_list name xs = [x \<leftarrow> xs. mem_find name xs (name x) = Some x]"

definition mem_del :: "('a \<Rightarrow> string) \<Rightarrow> string \<Rightarrow> 'a list \<Rightarrow> 'a list" where
  "mem_del name n xs = [x \<leftarrow> xs. name x \<noteq> n]"

definition mem_put :: "('a \<Rightarrow> string) \<Rightarrow> 'a \<Rightarrow> 'a list \<Rightarrow> 'a list" where
  "mem_put name x xs = x # mem_del name (name x) xs"

definition mem_view :: "mem \<Rightarrow> store" where
  "mem_view s = \<lparr>st_claims = mem_find cl_name (m_claims s), st_leases = mem_find le_name (m_leases s),
     st_pools = mem_find po_name (m_pools s)\<rparr>"

lemma mem_find_name: "mem_find name xs n = Some x \<Longrightarrow> name x = n \<and> n \<noteq> []"
  by (auto simp: mem_find_def find_Some_iff split: if_splits)

lemma mem_list_ran: "set (mem_list name xs) = ran (mem_find name xs)"
proof (intro set_eqI iffI)
  fix x assume "x \<in> ran (mem_find name xs)"
  then obtain n where n: "mem_find name xs n = Some x" by (auto simp: ran_def)
  then have "x \<in> set xs" by (auto simp: mem_find_def find_Some_iff split: if_splits)
  then show "x \<in> set (mem_list name xs)" using n mem_find_name[OF n] by (simp add: mem_list_def)
qed (auto simp: mem_list_def intro: ranI)

lemma find_filter_ne: "List.find (\<lambda>x. name x = m) [x \<leftarrow> xs. name x \<noteq> n] = (if m = n then None else List.find (\<lambda>x. name x = m) xs)"
  by (induction xs) auto

lemma mem_find_del: "mem_find name (mem_del name n xs) = (mem_find name xs)(n := None)"
  by (auto simp: mem_find_def mem_del_def find_filter_ne fun_eq_iff)

lemma mem_find_put: "name x \<noteq> [] \<Longrightarrow> mem_find name (mem_put name x xs) = (mem_find name xs)(name x \<mapsto> x)"
  by (auto simp: mem_find_def mem_put_def mem_del_def find_filter_ne fun_eq_iff)

lemma mem_find_empty [simp]: "mem_find name xs [] = None"
  by (simp add: mem_find_def)

section \<open>The client\<close>

definition mem_get :: "(mem \<Rightarrow> 'a list) \<Rightarrow> ('a \<Rightarrow> string) \<Rightarrow> string \<Rightarrow> (mem, kube_error, 'a) api" where
  "mem_get sel name n s = ((case mem_find name (sel s) n of None \<Rightarrow> Inl NotFound | Some x \<Rightarrow> Inr x), s)"

definition mem_update_claim :: "claim \<Rightarrow> (mem, kube_error, claim) api" where
  "mem_update_claim c s = (case mem_find cl_name (m_claims s) (cl_name c) of
     None \<Rightarrow> (Inl NotFound, s)
   | Some old \<Rightarrow>
       if cl_deletionTimestamp old \<noteq> None \<and> cl_finalizers c = []
       then (Inr c, s\<lparr>m_claims := mem_del cl_name (cl_name c) (m_claims s)\<rparr>)
       else let c' = c\<lparr>cl_deletionTimestamp := cl_deletionTimestamp old, cl_phase := cl_phase old,
              cl_value := cl_value old, cl_conditions := cl_conditions old,
              cl_observedGeneration := cl_observedGeneration old\<rparr>
            in (Inr c', s\<lparr>m_claims := mem_put cl_name c' (m_claims s)\<rparr>))"

definition mem_update_claim_status :: "claim \<Rightarrow> (mem, kube_error, claim) api" where
  "mem_update_claim_status c s = (case mem_find cl_name (m_claims s) (cl_name c) of
     None \<Rightarrow> (Inl NotFound, s)
   | Some old \<Rightarrow> let c' = old\<lparr>cl_phase := cl_phase c, cl_value := cl_value c, cl_conditions := cl_conditions c,
                    cl_observedGeneration := cl_observedGeneration c\<rparr>
                 in (Inr c', s\<lparr>m_claims := mem_put cl_name c' (m_claims s)\<rparr>))"

definition mem_create_lease :: "lease \<Rightarrow> (mem, kube_error, unit) api" where
  "mem_create_lease l s =
     (if le_name l = [] then (Inl (ApiError ''name is required''), s)
      else case mem_find le_name (m_leases s) (le_name l) of
        Some _ \<Rightarrow> (Inl AlreadyExists, s)
      | None \<Rightarrow> (Inr (), s\<lparr>m_leases := mem_put le_name l (m_leases s)\<rparr>))"

definition mem_update_lease :: "lease \<Rightarrow> (mem, kube_error, unit) api" where
  "mem_update_lease l s = (case mem_find le_name (m_leases s) (le_name l) of
     None \<Rightarrow> (Inl NotFound, s)
   | Some old \<Rightarrow> (Inr (), s\<lparr>m_leases := mem_put le_name (l\<lparr>le_status := le_status old\<rparr>) (m_leases s)\<rparr>))"

definition mem_update_lease_status :: "lease \<Rightarrow> (mem, kube_error, lease) api" where
  "mem_update_lease_status l s = (case mem_find le_name (m_leases s) (le_name l) of
     None \<Rightarrow> (Inl NotFound, s)
   | Some old \<Rightarrow> let l' = old\<lparr>le_status := le_status l\<rparr>
                 in (Inr l', s\<lparr>m_leases := mem_put le_name l' (m_leases s)\<rparr>))"

definition mem_delete_lease :: "lease \<Rightarrow> (mem, kube_error, unit) api" where
  "mem_delete_lease l s = (case mem_find le_name (m_leases s) (le_name l) of
     None \<Rightarrow> (Inl NotFound, s)
   | Some _ \<Rightarrow> (Inr (), s\<lparr>m_leases := mem_del le_name (le_name l) (m_leases s)\<rparr>))"

definition mem_update_pool_status :: "pool \<Rightarrow> (mem, kube_error, pool) api" where
  "mem_update_pool_status p s = (case mem_find po_name (m_pools s) (po_name p) of
     None \<Rightarrow> (Inl NotFound, s)
   | Some old \<Rightarrow> let p' = old\<lparr>po_status := po_status p\<rparr>
                 in (Inr p', s\<lparr>m_pools := mem_put po_name p' (m_pools s)\<rparr>))"

definition mem_kube :: "mem kube" where
  "mem_kube =
     \<lparr>time_now = m_now,
      get_claim = mem_get m_claims cl_name, read_claim = mem_get m_claims cl_name,
      get_lease = mem_get m_leases le_name, read_lease = mem_get m_leases le_name,
      get_pool = mem_get m_pools po_name, read_pool = mem_get m_pools po_name,
      list_claims = (\<lambda>s. (Inr (mem_list cl_name (m_claims s)), s)),
      list_leases = (\<lambda>s. (Inr (mem_list le_name (m_leases s)), s)),
      update_claim = mem_update_claim, update_claim_status = mem_update_claim_status,
      create_lease = mem_create_lease, update_lease = mem_update_lease,
      update_lease_status = mem_update_lease_status,
      delete_lease = mem_delete_lease, delete_lease_uid = mem_delete_lease,
      update_pool_status = mem_update_pool_status,
      owner_exists = (\<lambda>r s. (Inr (), s)),
      retained_get = (\<lambda>r s. (if r \<in> set (m_present s) then Inr () else Inl NotFound, s)),
      setControllerReference = (\<lambda>p l. Inr (l\<lparr>le_ownerRef := Some (po_name p)\<rparr>)),
      containsFinalizer = (\<lambda>fs f. f \<in> set fs),
      addFinalizer = (\<lambda>fs f. if f \<in> set fs then fs else fs @ [f]),
      removeFinalizer = (\<lambda>fs f. [g \<leftarrow> fs. g \<noteq> f]),
      setStatusCondition = (\<lambda>s cs c. [d \<leftarrow> cs. cond_type d \<noteq> cond_type c] @ [c]),
      findStatusCondition = (\<lambda>cs t. List.find (\<lambda>d. cond_type d = t) cs),
      retry_claim = retry_steps 4, retry_lease = retry_steps 4, retry_pool = retry_steps 4\<rparr>"

lemma mem_reads_ok: "reads_ok mem_kube mem_view"
  by (auto simp: reads_ok_def read_ok_def mem_kube_def mem_view_def mem_get_def mem_list_ran any_error_def
      split: option.splits)

lemma mem_put_claim: "mem_find cl_name xs n = Some old \<Longrightarrow> cl_name c = n \<Longrightarrow>
    mem_find cl_name (mem_put cl_name c xs) = (mem_find cl_name xs)(n \<mapsto> c)"
  using mem_find_name[of cl_name xs n old] mem_find_put[of cl_name c xs] by simp

lemma mem_put_lease: "mem_find le_name xs n = Some old \<Longrightarrow> le_name c = n \<Longrightarrow>
    mem_find le_name (mem_put le_name c xs) = (mem_find le_name xs)(n \<mapsto> c)"
  using mem_find_name[of le_name xs n old] mem_find_put[of le_name c xs] by simp

lemma mem_put_pool: "mem_find po_name xs n = Some old \<Longrightarrow> po_name c = n \<Longrightarrow>
    mem_find po_name (mem_put po_name c xs) = (mem_find po_name xs)(n \<mapsto> c)"
  using mem_find_name[of po_name xs n old] mem_find_put[of po_name c xs] by simp

lemma mem_claim_writes:
  "write_ok mem_view (mem_update_claim c) (claim_updated c) any_error"
  "write_ok mem_view (mem_update_claim_status c) (claim_status_updated c) any_error"
proof -
  have u: "claim_updated c st (st\<lparr>st_claims := (st_claims st)(cl_name c \<mapsto> c')\<rparr>)"
    if "st_claims st (cl_name c) = Some old" "cl_name c' = cl_name c"
      "cl_deletionTimestamp c' = cl_deletionTimestamp old" "cl_poolRefs c' = cl_poolRefs c"
      "cl_phase c' = cl_phase old" "cl_value c' = cl_value old" for st old c'
    using that unfolding claim_updated_def by blast
  have v: "claim_status_updated c st (st\<lparr>st_claims := (st_claims st)(cl_name c \<mapsto> c')\<rparr>)"
    if "st_claims st (cl_name c) = Some old" "cl_name c' = cl_name c"
      "cl_deletionTimestamp c' = cl_deletionTimestamp old" "cl_poolRefs c' = cl_poolRefs old"
      "cl_phase c' = cl_phase c" "cl_value c' = cl_value c" for st old c'
    using that unfolding claim_status_updated_def by blast
  show "write_ok mem_view (mem_update_claim c) (claim_updated c) any_error"
  proof (unfold write_ok_def, intro allI impI, goal_cases)
    case (1 s r s')
    show ?case
    proof (cases "mem_find cl_name (m_claims s) (cl_name c)")
      case None
      then show ?thesis using 1 by (auto simp: mem_update_claim_def any_error_def)
    next
      case (Some old)
      then show ?thesis
        using 1 u[of "mem_view s" old] mem_put_claim[OF Some]
        by (auto simp: mem_update_claim_def mem_view_def Let_def claim_updated_def mem_find_del split: if_splits)
    qed
  qed
  show "write_ok mem_view (mem_update_claim_status c) (claim_status_updated c) any_error"
  proof (unfold write_ok_def, intro allI impI, goal_cases)
    case (1 s r s')
    show ?case
    proof (cases "mem_find cl_name (m_claims s) (cl_name c)")
      case None
      then show ?thesis using 1 by (auto simp: mem_update_claim_status_def any_error_def)
    next
      case (Some old)
      then show ?thesis
        using 1 v[of "mem_view s" old] mem_put_claim[OF Some] mem_find_name[OF Some]
        by (auto simp: mem_update_claim_status_def mem_view_def Let_def)
    qed
  qed
qed

lemma mem_lease_writes:
  "write_ok mem_view (mem_create_lease l) (lease_created l)
     (\<lambda>st e. e = AlreadyExists \<longrightarrow> st_leases st (le_name l) \<noteq> None)"
  "write_ok mem_view (mem_update_lease l) (lease_updated l) any_error"
  "write_ok mem_view (mem_update_lease_status l) (lease_status_updated l) any_error"
  "write_ok mem_view (mem_delete_lease l) (lease_deleted l) any_error"
proof -
  have c: "lease_created l st (st\<lparr>st_leases := (st_leases st)(le_name l \<mapsto> l)\<rparr>)"
    if "st_leases st (le_name l) = None" for st
    using that unfolding lease_created_def by blast
  have u: "lease_updated l st (st\<lparr>st_leases := (st_leases st)(le_name l \<mapsto> l')\<rparr>)"
    if "st_leases st (le_name l) = Some old" "le_name l' = le_name l" "le_spec l' = le_spec l" for st old l'
    using that unfolding lease_updated_def by blast
  have v: "lease_status_updated l st (st\<lparr>st_leases := (st_leases st)(le_name l \<mapsto> l')\<rparr>)"
    if "st_leases st (le_name l) = Some old" "le_name l' = le_name l" "le_spec l' = le_spec old"
      "le_deletionTimestamp l' = le_deletionTimestamp old" for st old l'
    using that unfolding lease_status_updated_def by blast
  show "write_ok mem_view (mem_create_lease l) (lease_created l)
     (\<lambda>st e. e = AlreadyExists \<longrightarrow> st_leases st (le_name l) \<noteq> None)"
  proof (unfold write_ok_def, intro allI impI, goal_cases)
    case (1 s r s')
    then show ?case
      using c[of "mem_view s"] mem_find_put[of le_name l "m_leases s"]
      by (auto simp: mem_create_lease_def mem_view_def split: if_splits option.splits)
  qed
  show "write_ok mem_view (mem_update_lease l) (lease_updated l) any_error"
  proof (unfold write_ok_def, intro allI impI, goal_cases)
    case (1 s r s')
    then show ?case
      using u[of "mem_view s"] mem_put_lease[of "m_leases s" "le_name l"]
      by (auto simp: mem_update_lease_def mem_view_def any_error_def split: option.splits)
  qed
  show "write_ok mem_view (mem_update_lease_status l) (lease_status_updated l) any_error"
  proof (unfold write_ok_def, intro allI impI, goal_cases)
    case (1 s r s')
    show ?case
    proof (cases "mem_find le_name (m_leases s) (le_name l)")
      case None
      then show ?thesis using 1 by (auto simp: mem_update_lease_status_def any_error_def)
    next
      case (Some old)
      then show ?thesis
        using 1 v[of "mem_view s" old] mem_put_lease[OF Some] mem_find_name[OF Some]
        by (auto simp: mem_update_lease_status_def mem_view_def Let_def)
    qed
  qed
  show "write_ok mem_view (mem_delete_lease l) (lease_deleted l) any_error"
    by (auto simp: write_ok_def mem_delete_lease_def lease_deleted_def mem_view_def any_error_def mem_find_del
        split: option.splits)
qed

lemma mem_pool_write: "write_ok mem_view (mem_update_pool_status p) (pool_status_updated p) any_error"
proof (unfold write_ok_def, intro allI impI, goal_cases)
  case (1 s r s')
  show ?case
  proof (cases "mem_find po_name (m_pools s) (po_name p)")
    case None
    then show ?thesis using 1 by (auto simp: mem_update_pool_status_def any_error_def)
  next
    case (Some old)
    then show ?thesis
      using 1 mem_put_pool[OF Some] mem_find_name[OF Some]
      by (auto simp: mem_update_pool_status_def pool_status_updated_def mem_view_def Let_def)
  qed
qed

lemma mem_kube_ok: "kube_ok mem_kube mem_view"
proof -
  have "writes_ok mem_kube mem_view"
    unfolding writes_ok_def mem_kube_def
    by (simp add: mem_claim_writes mem_lease_writes mem_pool_write del: not_None_eq)
  moreover have "helpers_ok mem_kube"
    by (auto simp: helpers_ok_def retry_ok_def mem_kube_def)
  moreover have "store_wf (mem_view s)" for s
    by (auto simp: store_wf_def mem_view_def dest: mem_find_name)
  ultimately show ?thesis by (simp add: kube_ok_def mem_reads_ok)
qed

section \<open>A run\<close>

definition ex_claim :: "string \<Rightarrow> claim" where
  "ex_claim n = \<lparr>cl_name = n, cl_uid = n, cl_generation = 1, cl_deletionTimestamp = None, cl_finalizers = [],
     cl_poolRefs = [''p''],
     cl_resourceRef = \<lparr>res_apiVersion = ''v1'', res_kind = ''Pod'', res_namespace = ''ns'', res_name = n\<rparr>,
     cl_attribute = ''vni'', cl_requestedNumber = None, cl_requestedIP = None, cl_allocationFilter = None,
     cl_releaseAfter = None, cl_reuseKey = [], cl_retainWhile = None, cl_networkInterface = None,
     cl_observedGeneration = 0, cl_conditions = [], cl_phase = [], cl_value = empty_value\<rparr>"

definition ex_pool_status :: pool_status where
  "ex_pool_status = \<lparr>ps_observedGeneration = 0, ps_allocationVersion = 0, ps_lastAllocatedNumber = 0,
     ps_lastAllocatedIP = [], ps_conditions = []\<rparr>"

definition ex_pool :: "number_spec option \<Rightarrow> alloc_pool_ip_spec option \<Rightarrow> pool" where
  "ex_pool number ip = \<lparr>po_name = ''p'', po_generation = 1, po_deletionTimestamp = None,
     po_type = (if number = None then AllocationTypeIP else AllocationTypeNumber), po_strategy = ''FirstFit'',
     po_number = number, po_ip = ip, po_status = ex_pool_status\<rparr>"

definition ex_empty :: mem where
  "ex_empty = \<lparr>m_claims = [], m_leases = [], m_pools = [], m_present = [], m_now = 0\<rparr>"

definition ex_start :: mem where
  "ex_start = ex_empty\<lparr>m_claims := [ex_claim ''b'', ex_claim ''a''],
     m_pools := [ex_pool (Some \<lparr>num_min = 5, num_max = 9\<rparr>) None]\<rparr>"

definition ex_run :: mem where
  "ex_run = snd (Reconcile mem_kube ''b'' (snd (Reconcile mem_kube ''a'' ex_start)))"

lemma mem_claim_created:
  assumes "alloc_reachable mem_kube mem_view render s" "mem_find cl_name (m_claims s) (cl_name c) = None"
    "cl_name c \<noteq> []" "cl_phase c \<noteq> AllocationClaimPhaseAllocated"
  shows "alloc_reachable mem_kube mem_view render (s\<lparr>m_claims := mem_put cl_name c (m_claims s)\<rparr>)"
proof (rule alloc_reachable.step[OF assms(1) alloc_step.by_others])
  show "others_step (mem_view s) (mem_view (s\<lparr>m_claims := mem_put cl_name c (m_claims s)\<rparr>))"
    using others_step.claim_created[of "mem_view s" "cl_name c" c] assms(2-4)
    by (simp add: mem_view_def mem_find_put)
qed

lemma mem_pool_created:
  assumes "alloc_reachable mem_kube mem_view render s" "po_name p \<noteq> []" "pool_v4 p"
  shows "alloc_reachable mem_kube mem_view render (s\<lparr>m_pools := mem_put po_name p (m_pools s)\<rparr>)"
proof (rule alloc_reachable.step[OF assms(1) alloc_step.by_others])
  show "others_step (mem_view s) (mem_view (s\<lparr>m_pools := mem_put po_name p (m_pools s)\<rparr>))"
    using others_step.pool_put[of p "po_name p" "mem_view s"] assms(2,3)
    by (simp add: mem_view_def mem_find_put)
qed

lemma mem_claim_pass:
  "alloc_reachable mem_kube mem_view render s \<Longrightarrow>
   alloc_reachable mem_kube mem_view render (snd (Reconcile mem_kube n s))"
  by (rule alloc_reachable.step, assumption) (rule alloc_step.claim_pass, rule prod.collapse[symmetric])

lemma ex_start_reachable: "alloc_reachable mem_kube mem_view render ex_start"
proof -
  have "alloc_reachable mem_kube mem_view render ex_empty"
    by (rule fresh_cluster) (simp_all add: ex_empty_def mem_view_def mem_find_def fun_eq_iff)
  from mem_claim_created[OF mem_claim_created[OF mem_pool_created[OF this,
      of "ex_pool (Some \<lparr>num_min = 5, num_max = 9\<rparr>) None"], of "ex_claim ''a''"], of "ex_claim ''b''"]
  show ?thesis
    by (simp add: ex_start_def ex_empty_def ex_pool_def pool_v4_def ex_claim_def mem_put_def mem_del_def mem_find_def
        AllocationClaimPhaseAllocated_def)
qed

lemma ex_run_claims:
  "list_all (\<lambda>c. c \<in> set (mem_list cl_name (m_claims ex_run)) \<and> cl_deletionTimestamp c = None
      \<and> cl_phase c = AllocationClaimPhaseAllocated \<and> cl_poolRefs c = [''p'']) (m_claims ex_run)
   \<and> map (\<lambda>c. (cl_name c, av_number (cl_value c))) (m_claims ex_run) = [(''b'', 6), (''a'', 5)]"
  by code_simp

lemma ex_run_holder: "c \<in> set (m_claims ex_run) \<Longrightarrow> holder (mem_view ex_run) ''p'' c"
  using ex_run_claims by (auto simp: list_all_iff holder_def mem_view_def mem_list_ran)


text \<open>The theorems about one allocation, on the cluster after the run.\<close>

definition ex_number_pool :: "u64 \<Rightarrow> u64 \<Rightarrow> pool" where
  "ex_number_pool mn mx = ex_pool (Some \<lparr>num_min = mn, num_max = mx\<rparr>) None"

lemma mem_lists:
  "list_claims mem_kube s = (Inr (mem_list cl_name (m_claims s)), s)"
  "list_leases mem_kube s = (Inr (mem_list le_name (m_leases s)), s)"
  by (simp_all add: mem_kube_def)

theorem allocateNumber_fresh_witness:
  "allocateNumber mem_kube (ex_number_pool 5 9) (ex_claim ''c'') [] ex_run = (Inr 7, ex_run)
   \<and> \<not> number_taken ''p'' ''c'' [] (mem_list cl_name (m_claims ex_run)) (mem_list le_name (m_leases ex_run)) 7
   \<and> number_taken ''p'' ''c'' [] (mem_list cl_name (m_claims ex_run)) (mem_list le_name (m_leases ex_run)) 5
   \<and> number_taken ''p'' ''c'' [] (mem_list cl_name (m_claims ex_run)) (mem_list le_name (m_leases ex_run)) 6"
proof -
  have run: "allocateNumber mem_kube (ex_number_pool 5 9) (ex_claim ''c'') [] ex_run = (Inr 7, ex_run)"
    by code_simp
  have spec: "po_number (ex_number_pool 5 9) = Some \<lparr>num_min = 5, num_max = 9\<rparr>"
    "num_min \<lparr>num_min = 5, num_max = 9\<rparr> \<le> num_max \<lparr>num_min = 5, num_max = 9\<rparr>"
    "num_max \<lparr>num_min = 5, num_max = 9\<rparr> \<noteq> - 1"
    by (simp_all add: ex_number_pool_def ex_pool_def)
  have n: "po_name (ex_number_pool 5 9) = ''p''" "cl_name (ex_claim ''c'') = ''c''"
    "cl_requestedNumber (ex_claim ''c'') = None"
    by (simp_all add: ex_number_pool_def ex_pool_def ex_claim_def)
  show ?thesis
    using allocateNumber_fresh[where s = ex_run and c = "ex_claim ''c''" and selfLease = "[]", OF mem_lists spec] run
    unfolding run by (simp add: n)
qed

definition ex_full :: mem where
  "ex_full = ex_empty\<lparr>m_claims := [(ex_claim ''a'')\<lparr>cl_phase := AllocationClaimPhaseAllocated,
     cl_value := \<lparr>av_number = - 1, av_ip = []\<rparr>\<rparr>]\<rparr>"

theorem allocateNumber_wraps_witness:
  "number_taken ''p'' ''b'' [] (mem_list cl_name (m_claims ex_full)) (mem_list le_name (m_leases ex_full)) (- 1)
   \<and> allocateNumber mem_kube (ex_number_pool (- 1) (- 1)) (ex_claim ''b'') [] ex_full = (Inr 0, ex_full)"
proof -
  have taken: "number_taken ''p'' ''b'' [] (mem_list cl_name (m_claims ex_full))
      (mem_list le_name (m_leases ex_full)) (- 1)"
    by (simp add: number_taken_def ex_full_def ex_empty_def mem_list_def mem_find_def ex_claim_def
        claimReferencesPool_def)
  have f: "po_number (ex_number_pool (- 1) (- 1)) = Some \<lparr>num_min = - 1, num_max = - 1\<rparr>"
    "num_max \<lparr>num_min = - 1, num_max = - 1\<rparr> = - 1" "cl_requestedNumber (ex_claim ''b'') = None"
    by (simp_all add: ex_number_pool_def ex_pool_def ex_claim_def)
  have full: "\<forall>m. num_min \<lparr>num_min = - 1, num_max = - 1\<rparr> \<le> m \<longrightarrow>
      number_taken (po_name (ex_number_pool (- 1) (- 1))) (cl_name (ex_claim ''b'')) []
        (mem_list cl_name (m_claims ex_full)) (mem_list le_name (m_leases ex_full)) m"
    using taken by (simp add: ex_number_pool_def ex_pool_def ex_claim_def word_order.extremum_unique)
  show ?thesis
    using taken allocateNumber_wraps[OF mem_lists f full] by blast
qed

definition ex_ip_spec :: alloc_pool_ip_spec where
  "ex_ip_spec = \<lparr>CIDRs = [''10.0.0.0/29''], Ranges = [], Excluded = [''10.0.0.1'']\<rparr>"

theorem allocateIP_fresh_witness:
  "allocateIP mem_kube (ex_pool None (Some ex_ip_spec)) (ex_claim ''a'') [] ex_empty = (Inr ''10.0.0.2'', ex_empty)
   \<and> (\<exists>a. ''10.0.0.2'' = addr_string a \<and> \<not> ip_taken ''p'' ''a'' [] [] [] a
         \<and> a \<notin> excluded_addrs [''10.0.0.1''])"
proof -
  have run: "allocateIP mem_kube (ex_pool None (Some ex_ip_spec)) (ex_claim ''a'') [] ex_empty =
      (Inr ''10.0.0.2'', ex_empty)"
    by code_simp
  have c: "filteredCandidates (ex_pool None (Some ex_ip_spec)) ex_ip_spec (ex_claim ''a'') =
      Inr (projr (parsePoolCandidates ex_ip_spec))"
    by code_simp
  have spec: "po_ip (ex_pool None (Some ex_ip_spec)) = Some ex_ip_spec" "ranges_zoneless (Ranges ex_ip_spec)"
    "po_name (ex_pool None (Some ex_ip_spec)) = ''p''" "cl_name (ex_claim ''a'') = ''a''"
    by (simp_all add: ex_pool_def ex_ip_spec_def ranges_zoneless_def ex_claim_def)
  have e: "mem_list cl_name (m_claims ex_empty) = []" "mem_list le_name (m_leases ex_empty) = []"
    "Excluded ex_ip_spec = [''10.0.0.1'']"
    by (simp_all add: mem_list_def ex_empty_def ex_ip_spec_def)
  show ?thesis
    using allocateIP_fresh[where s = ex_empty and selfLease = "[]", OF mem_lists spec(1,2) c] run
    unfolding run by (simp add: spec e) blast
qed

end
