(* ===== verification/AllocReap.thy ===== *)
theory AllocReap
  imports AllocMem
begin

text \<open>
  When the lease controller deletes a lease: never while its claim is alive, its grace period runs, or
  the object it is retained for exists or cannot be read.
\<close>

definition keeps :: "string set \<Rightarrow> store \<Rightarrow> bool" where
  "keeps D st \<longleftrightarrow> D \<subseteq> dom (st_leases st)"

lemma keeps_stable: "lease_stable (keeps D)"
  by (auto simp: lease_stable_def keeps_def)

lemma keeps_reapable: "n \<notin> D \<Longrightarrow> reapable (keeps D) n"
  by (auto simp: reapable_def keeps_def)

lemma runs_keeps:
  assumes "runs view P m (\<lambda>_. P) (\<lambda>_. P)" "P (view s)" "m s = (r, s')"
  shows "P (view s')"
proof (cases r)
  case (Inl e)
  show ?thesis by (rule api_validE_Inl[OF assms(1)[unfolded runs_def] assms(2) assms(3)[unfolded Inl]])
next
  case (Inr x)
  show ?thesis by (rule api_validE_Inr[OF assms(1)[unfolded runs_def] assms(2) assms(3)[unfolded Inr]])
qed

text \<open>A lease is due when nothing retains it and its grace period is over.\<close>

definition lease_due :: "('s \<Rightarrow> store) \<Rightarrow> 's kube \<Rightarrow> 's \<Rightarrow> lease \<Rightarrow> int \<Rightarrow> bool" where
  "lease_due view k s l t \<longleftrightarrow>
     (case ls_retainWhile (le_spec l) of
        None \<Rightarrow> t + lease_ttl (le_spec l) \<le> time_now k s
      | Some ref \<Rightarrow>
          (\<exists>s1 e. view s1 = view s \<and> fst (retained_get k ref s1) = Inl e
             \<and> e \<in> {NotFound, NoMatch, NotRegistered})
        \<and> (case lst_retainReleasedAt (le_status l) of
             None \<Rightarrow> lease_ttl (le_spec l) = 0
           | Some t1 \<Rightarrow> t1 + lease_ttl (le_spec l) \<le> time_now k s))"

lemma lease_ttl_nonneg: "0 \<le> lease_ttl spec"
  by (simp add: lease_ttl_def second_def split: option.split)

lemma reapLease_keeps:
  assumes k: "kube_ok k view" and m: "reapLease k l now t ret s = (r, s')"
    and d: "le_name l \<notin> D \<or> now < t + lease_ttl (le_spec l)" and D: "keeps D (view s)"
  shows "keeps D (view s')"
proof -
  have "runs view (keeps D) (reapLease k l now t ret) (\<lambda>_. keeps D) (\<lambda>_. keeps D)"
    by (rule reapLease_runs[OF k keeps_stable]) (use d in \<open>auto intro: keeps_reapable\<close>)
  from runs_keeps[OF this D m] show ?thesis .
qed

lemma status_keeps:
  assumes "kube_ok k view"
  shows "runs view (keeps D) (lease_updateStatus k l d) (\<lambda>_. keeps D) (\<lambda>_. keeps D)"
  by (rule lease_status_runs[OF assms keeps_stable])

lemma retainedObjectExists_cases:
  assumes "kube_ok k view" "retainedObjectExists k ref s = (r, s')"
  shows "view s' = view s \<and> (r = Inr False \<longrightarrow>
    (\<exists>e. fst (retained_get k ref s) = Inl e \<and> e \<in> {NotFound, NoMatch, NotRegistered}))"
proof -
  obtain r1 s1 where g: "retained_get k ref s = (r1, s1)" by (cases "retained_get k ref s")
  have "view s1 = view s" using readsD[OF kube_reads(10)[OF assms(1)] refl g] by simp
  then show ?thesis
    using assms(2) g
    by (auto simp: retainedObjectExists_def api_bind_def api_try_def split: sum.splits kube_error.splits)
qed

lemma reconcileReleased_keeps:
  assumes k: "kube_ok k view" and m: "reconcileReleased k l (time_now k s0) t s = (r, s')"
    and s: "view s = view s0"
    and d: "le_name l \<notin> D \<or> \<not> lease_due view k s0 l t" and D: "keeps D (view s)"
  shows "keeps D (view s')"
proof (cases "ls_retainWhile (le_spec l)")
  case None
  then have "le_name l \<notin> D \<or> time_now k s0 < t + lease_ttl (le_spec l)"
    using d by (auto simp: lease_due_def)
  then show ?thesis
    using reapLease_keeps[OF k _ _ D] m None by (simp add: reconcileReleased_def)
next
  case (Some ref)
  obtain r1 s1 where g: "retainedObjectExists k ref s = (r1, s1)" by (cases "retainedObjectExists k ref s")
  note re = retainedObjectExists_cases[OF k g]
  then have D1: "keeps D (view s1)" using D by simp
  have st: "runs view (keeps D) (api_bind (api_try (lease_updateStatus k l d))
      (\<lambda>_ :: alloc_error + lease. api_throw e)) (\<lambda>_. keeps D) (\<lambda>_. keeps D)"
    "runs view (keeps D) (api_bind (lease_updateStatus k l d) (\<lambda>_. api_return i)) (\<lambda>_. keeps D) (\<lambda>_. keeps D)"
    for d and e :: alloc_error and i :: int
    by (auto intro!: runs_try_bind[OF status_keeps[OF k]] runs_throw runs_then_unit status_keeps[OF k])
  show ?thesis
  proof (cases r1)
    case (Inl e)
    then show ?thesis
      using m Some g runs_keeps[OF st(1) D1] by (simp add: reconcileReleased_def api_bind_def api_try_def)
  next
    case (Inr b)
    show ?thesis
    proof (cases b)
      case True
      then show ?thesis
        using m Some g Inr runs_keeps[OF st(2) D1] by (simp add: reconcileReleased_def api_bind_def api_try_def)
    next
      case False
      define t1 where "t1 = (case lst_retainReleasedAt (le_status l) of None \<Rightarrow> time_now k s0 | Some t \<Rightarrow> t)"
      have "le_name l \<notin> D \<or> time_now k s0 < t1 + lease_ttl (le_spec l)"
        using d re s Some Inr False lease_ttl_nonneg[of "le_spec l"]
        by (auto simp: lease_due_def t1_def split: option.splits)
      moreover have "reapLease k l (time_now k s0) t1 (Some t1) s1 = (r, s')"
        using m Some g Inr False by (simp add: reconcileReleased_def api_bind_def api_try_def t1_def Let_def)
      ultimately show ?thesis using reapLease_keeps[OF k _ _ D1] by blast
    qed
  qed
qed

lemma api_try_bind: "m s = (r, s') \<Longrightarrow> api_bind (api_try m) f s = f r s'"
  by (simp add: api_bind_def api_try_def)

lemma kube_store_wf: "kube_ok k view \<Longrightarrow> store_wf (view s)"
  by (simp add: kube_ok_def)

text \<open>
  C16. A pass of the lease controller deletes at most the lease it was called for, and only when that
  lease is due: the lease is not already being deleted, its claim is gone (an owner deletion time is
  recorded), the object it is retained for (if any) was looked up and is gone or of an unknown kind,
  and the grace period, counted from the owner's deletion or from the end of the retention recorded by an
  earlier pass, is over. In particular a lookup error never frees a value.
\<close>

theorem lease_reaped_only_when_due:
  assumes k: "kube_ok k view" and m: "lease_Reconcile k n s = (r, s')"
    and l: "st_leases (view s) n' = Some l" and gone: "st_leases (view s') n' = None"
  shows "n' = n \<and> le_deletionTimestamp l = None
    \<and> (\<exists>t. ls_ownerDeletionTimestamp (le_spec l) = Some t \<and> lease_due view k s l t)"
proof -
  obtain r1 s1 where g: "get_lease k n s = (r1, s1)" by (cases "get_lease k n s")
  note rd = readsD[OF kube_reads(3)[OF k] refl g]
  have v: "view s1 = view s" using rd by simp
  let ?D = "{n'}"
  have D: "keeps ?D (view s)" "keeps ?D (view s1)" and nD: "\<not> keeps ?D (view s')"
    using l gone v by (auto simp: keeps_def)
  have st: "runs view (keeps ?D) (api_bind (lease_updateStatus k x d) (\<lambda>_. api_return i))
      (\<lambda>_. keeps ?D) (\<lambda>_. keeps ?D)" for x d and i :: int
    by (rule runs_then_unit[OF status_keeps[OF k]])
  obtain x where x: "r1 = Inr x"
    using m g D(2) nD v by (cases r1) (auto simp: lease_Reconcile_def api_bind_def api_try_def split: kube_error.splits)
  have nx: "st_leases (view s) n = Some x" "le_name x = n"
    using rd x kube_store_wf[OF k, of s] by (auto simp: store_wf_def)
  have nd: "le_deletionTimestamp x = None"
    using m g x D(2) nD v by (auto simp: lease_Reconcile_def api_bind_def api_try_def split: if_splits)
  obtain t where t: "ls_ownerDeletionTimestamp (le_spec x) = Some t"
    using m g x nd runs_keeps[OF st D(2)] nD
    by (cases "ls_ownerDeletionTimestamp (le_spec x)") (auto simp: lease_Reconcile_def api_try_bind[where m = "get_lease k n", OF g])
  have rel: "reconcileReleased k x (time_now k s) t s1 = (r, s')"
    using m g x nd t by (simp add: lease_Reconcile_def api_bind_def api_try_def)
  have "le_name x \<in> ?D \<and> lease_due view k s x t"
    using reconcileReleased_keeps[OF k rel v _ D(2)] nD by blast
  then show ?thesis using nx l nd t by auto
qed

definition ex_lease :: lease where
  "ex_lease = \<lparr>le_name = ''a-lease'', le_uid = ''u'', le_generation = 1, le_deletionTimestamp = None, le_ownerRef = None,
     le_spec = \<lparr>ls_poolRef = ''p'', ls_value = \<lparr>av_number = 5, av_ip = []\<rparr>,
       ls_claimRef = \<lparr>cr_name = ''a'', cr_uid = ''a''\<rparr>, ls_ownerDeletionTimestamp = Some 0, ls_ttlSeconds = Some 10,
       ls_retainWhile = Some \<lparr>rr_apiVersion = ''v1'', rr_kind = ''Pod'', rr_namespace = ''ns'', rr_name = ''x''\<rparr>,
       ls_networkInterface = None\<rparr>,
     le_status = \<lparr>lst_observedGeneration = 0, lst_phase = [], lst_expiresAt = None,
       lst_retainReleasedAt = Some second, lst_conditions = []\<rparr>\<rparr>"

definition ex_released :: mem where
  "ex_released = ex_empty\<lparr>m_leases := [ex_lease], m_now := 11 * second\<rparr>"

theorem lease_reaped_only_when_due_witness:
  "fst (lease_Reconcile mem_kube ''a-lease'' ex_released) = Inr 0
   \<and> st_leases (mem_view (snd (lease_Reconcile mem_kube ''a-lease'' ex_released))) ''a-lease'' = None
   \<and> lease_due mem_view mem_kube ex_released ex_lease 0"
proof -
  have run: "fst (lease_Reconcile mem_kube ''a-lease'' ex_released) = Inr 0"
    "m_leases (snd (lease_Reconcile mem_kube ''a-lease'' ex_released)) = []"
    by code_simp+
  have l: "st_leases (mem_view ex_released) ''a-lease'' = Some ex_lease"
    by (simp add: mem_view_def ex_released_def ex_empty_def mem_find_def ex_lease_def)
  have gone: "st_leases (mem_view (snd (lease_Reconcile mem_kube ''a-lease'' ex_released))) ''a-lease'' = None"
    by (simp add: mem_view_def run mem_find_def)
  have m: "lease_Reconcile mem_kube ''a-lease'' ex_released =
      (fst (lease_Reconcile mem_kube ''a-lease'' ex_released), snd (lease_Reconcile mem_kube ''a-lease'' ex_released))"
    by (rule prod.collapse[symmetric])
  have odt: "ls_ownerDeletionTimestamp (le_spec ex_lease) = Some 0" by (simp add: ex_lease_def)
  obtain t where t: "ls_ownerDeletionTimestamp (le_spec ex_lease) = Some t"
    "lease_due mem_view mem_kube ex_released ex_lease t"
    using lease_reaped_only_when_due[where view = mem_view, OF mem_kube_ok m l gone] by (elim conjE exE)
  then have "t = 0" unfolding odt by (simp only: option.inject)
  then show ?thesis using t(2) run(1) gone by blast
qed



end
