(* ===== verification/IPProtocol.thy ===== *)
theory IPProtocol
  imports GoStrings
begin

text \<open>
  IP protocols as users write them and as the data plane matches them
  (\<open>controller/api/v1alpha1/protocol.go\<close>).
\<close>

text \<open>\<open>intstr.IntOrString\<close>: a 32-bit integer or a string, with an open type tag.\<close>

datatype int_or_string = IntVal "32 word" | StrVal string | OtherVal int

definition IPProtocolAny :: u16 where "IPProtocolAny = 0xFFFF"
definition IPProtocolICMP :: u16 where "IPProtocolICMP = 1"
definition IPProtocolTCP :: u16 where "IPProtocolTCP = 6"
definition IPProtocolUDP :: u16 where "IPProtocolUDP = 17"
definition IPProtocolGRE :: u16 where "IPProtocolGRE = 47"
definition IPProtocolESP :: u16 where "IPProtocolESP = 50"
definition IPProtocolAH :: u16 where "IPProtocolAH = 51"
definition IPProtocolSCTP :: u16 where "IPProtocolSCTP = 132"

lemmas ip_protocol_defs = IPProtocolAny_def IPProtocolICMP_def IPProtocolTCP_def IPProtocolUDP_def
  IPProtocolGRE_def IPProtocolESP_def IPProtocolAH_def IPProtocolSCTP_def

definition ipProtocolMaxNumber :: int where "ipProtocolMaxNumber = 255"

definition ipProtocolKeywords :: "(string \<times> u16) list" where
  "ipProtocolKeywords =
     [(''icmp'', IPProtocolICMP), (''tcp'', IPProtocolTCP), (''udp'', IPProtocolUDP), (''gre'', IPProtocolGRE),
      (''esp'', IPProtocolESP), (''ah'', IPProtocolAH), (''sctp'', IPProtocolSCTP), (''all'', IPProtocolAny)]"

text \<open>Go maps filled by ranging over the table: a later entry replaces an earlier one.\<close>

definition buildIPProtocolByKeyword :: "(string, u16) gomap" where
  "buildIPProtocolByKeyword = fold (\<lambda>(name, proto) m. AList.update name proto m) ipProtocolKeywords []"

definition buildIPProtocolNames :: "(u16, string) gomap" where
  "buildIPProtocolNames = fold (\<lambda>(name, proto) m. AList.update proto name m) ipProtocolKeywords []"

datatype protocol_error = ProtocolNotSet | ProtocolOutOfRange int | NotAKeyword string | UnsupportedValueType int

definition ResolveIPProtocol :: "int_or_string option \<Rightarrow> protocol_error + u16" where
  "ResolveIPProtocol p =
     (case p of
        None \<Rightarrow> Inl ProtocolNotSet
      | Some (IntVal i) \<Rightarrow>
          (let number = sint i
           in if number < 0 \<or> number > ipProtocolMaxNumber then Inl (ProtocolOutOfRange number)
              else Inr (word_of_int number))
      | Some (StrVal s) \<Rightarrow>
          (case map_of buildIPProtocolByKeyword s of
             Some proto \<Rightarrow> Inr proto
           | None \<Rightarrow> Inl (NotAKeyword s))
      | Some (OtherVal t) \<Rightarrow> Inl (UnsupportedValueType t))"

definition IPProtocolHasPorts :: "u16 \<Rightarrow> bool" where
  "IPProtocolHasPorts proto \<longleftrightarrow> proto = IPProtocolTCP \<or> proto = IPProtocolUDP"

definition FormatIPProtocol :: "u16 \<Rightarrow> string" where
  "FormatIPProtocol proto =
     (case map_of buildIPProtocolNames proto of Some name \<Rightarrow> name | None \<Rightarrow> itoa (unat proto))"

section \<open>What resolution means\<close>

lemma keyword_table:
  "map_of buildIPProtocolByKeyword s = map_of ipProtocolKeywords s"
  by (simp add: buildIPProtocolByKeyword_def ipProtocolKeywords_def)

lemma resolved_range:
  assumes "ResolveIPProtocol p = Inr proto"
  shows "proto = IPProtocolAny \<or> unat proto \<le> 255"
proof (cases "\<exists>i. p = Some (IntVal i)")
  case True
  then obtain i where p: "p = Some (IntVal i)" by blast
  then have b: "0 \<le> sint i" "sint i \<le> 255" "proto = word_of_int (sint i)"
    using assms by (auto simp: ResolveIPProtocol_def Let_def ipProtocolMaxNumber_def split: if_splits)
  then have "proto = of_nat (nat (sint i))" "nat (sint i) < 2 ^ LENGTH(16)" by simp_all
  then have "unat proto = nat (sint i)" by (simp add: unat_of_nat)
  then show ?thesis using b by linarith
next
  case False
  then show ?thesis
    using assms
    by (auto simp: ResolveIPProtocol_def keyword_table ipProtocolKeywords_def ip_protocol_defs
        split: option.splits int_or_string.splits if_splits)
qed

text \<open>What a user may write back for a printed protocol: a number as an integer, else a keyword.\<close>

definition reread_protocol :: "string \<Rightarrow> int_or_string" where
  "reread_protocol s = (case atoi s of Some n \<Rightarrow> IntVal (of_nat n) | None \<Rightarrow> StrVal s)"

lemma names_table:
  "map_of buildIPProtocolNames proto = map_of (map (\<lambda>(n, p). (p, n)) ipProtocolKeywords) proto"
  by (simp add: buildIPProtocolNames_def ipProtocolKeywords_def ip_protocol_defs)

lemma keyword_reread:
  "list_all (\<lambda>(n, p). ResolveIPProtocol (Some (reread_protocol n)) = Inr p) ipProtocolKeywords"
  by code_simp

lemma sint_small: "n \<le> 255 \<Longrightarrow> sint (word_of_int (int n) :: 32 word) = int n"
  unfolding int_word_sint by simp

lemma number_reread:
  assumes "unat proto \<le> 255"
  shows "ResolveIPProtocol (Some (reread_protocol (itoa (unat proto)))) = Inr proto"
proof -
  have "sint (word_of_int (int (unat proto)) :: 32 word) = int (unat proto)"
    using assms by (rule sint_small)
  then have "sint (of_nat (unat proto) :: 32 word) = int (unat proto)" by simp
  moreover have "(word_of_int (int (unat proto)) :: u16) = proto" by simp
  moreover have "int (unat proto) \<le> int 255" using assms by (simp only: of_nat_le_iff)
  ultimately show ?thesis
    by (simp add: reread_protocol_def ResolveIPProtocol_def ipProtocolMaxNumber_def Let_def)
qed



end
