(* ===== verification/PolicyRules.thy ===== *)
theory PolicyRules
  imports IPProtocol AddressRange
begin

text \<open>
  NetworkACL and SecurityGroup rules, their cost in data plane entries
  (\<open>controller/api/v1alpha1/policy_capacity.go\<close>) and their expansion into flat rules
  (\<open>daemon/internal/daemon/dataplane/policy/rule.go\<close>, \<open>expand.go\<close>). The 32-bit integers of a spec are
  integers; converting one to 16 bits keeps its low bits.
\<close>

section \<open>Specs\<close>

record port_range_spec =
  prs_from :: int
  prs_to :: int

text \<open>\<open>NetworkACLPort\<close> and \<open>SecurityGroupPort\<close> have the same fields.\<close>

record policy_port =
  pp_port :: "int option"
  pp_portRange :: "port_range_spec option"

record network_acl_rule =
  nr_priority :: int
  nr_action :: string
  nr_protocol :: "int_or_string option"
  nr_cidr :: string
  nr_ports :: "policy_port list"

record network_acl =
  na_name :: string
  na_deletionTimestamp :: "int option"
  na_vpc :: string
  na_ingress :: "network_acl_rule list option"
  na_egress :: "network_acl_rule list option"
  na_aclID :: u32
  na_rulesetVersion :: u64

definition NetworkACLActionAllow :: string where "NetworkACLActionAllow = ''allow''"
definition NetworkACLActionDeny :: string where "NetworkACLActionDeny = ''deny''"

record sg_peer =
  sp_cidr :: string
  sp_securityGroupRef :: "string option"

text \<open>\<open>SecurityGroupIngressRule\<close> (peers in \<open>From\<close>) and \<open>SecurityGroupEgressRule\<close> (peers in \<open>To\<close>).\<close>

record sg_rule_spec =
  sr_peers :: "sg_peer list"
  sr_protocol :: "int_or_string option"
  sr_ports :: "policy_port list"

record security_group =
  sg_name :: string
  sg_deletionTimestamp :: "int option"
  sg_vpc :: string
  sg_ingress :: "sg_rule_spec list"
  sg_egress :: "sg_rule_spec list option"
  sg_groupID :: u32
  sg_rulesetVersion :: u64

section \<open>Cost in entries (policy\_capacity.go)\<close>

definition NetworkACLMaxEntriesPerDirection :: nat where "NetworkACLMaxEntriesPerDirection = 16"
definition SecurityGroupMaxEntriesPerDirection :: nat where "SecurityGroupMaxEntriesPerDirection = 8"

definition atLeastOne :: "nat \<Rightarrow> nat" where
  "atLeastOne n = (if n < 1 then 1 else n)"

definition sumEntryCount :: "'r list \<Rightarrow> ('r \<Rightarrow> nat) \<Rightarrow> nat" where
  "sumEntryCount rules entryCount = fold (\<lambda>rule total. total + entryCount rule) rules 0"

definition NetworkACLRuleEntryCount :: "network_acl_rule \<Rightarrow> nat" where
  "NetworkACLRuleEntryCount rule = atLeastOne (length (nr_ports rule))"

definition NetworkACLDirectionEntryCount :: "network_acl_rule list \<Rightarrow> nat" where
  "NetworkACLDirectionEntryCount rules = sumEntryCount rules NetworkACLRuleEntryCount"

definition securityGroupRuleEntryCount :: "nat \<Rightarrow> nat \<Rightarrow> nat" where
  "securityGroupRuleEntryCount peers ports = atLeastOne peers * atLeastOne ports"

definition SecurityGroupRuleEntryCount :: "sg_rule_spec \<Rightarrow> nat" where
  "SecurityGroupRuleEntryCount rule = securityGroupRuleEntryCount (length (sr_peers rule)) (length (sr_ports rule))"

definition SecurityGroupEntryCount :: "sg_rule_spec list \<Rightarrow> nat" where
  "SecurityGroupEntryCount rules = sumEntryCount rules SecurityGroupRuleEntryCount"

section \<open>Flat rules (rule.go)\<close>

datatype direction = DirIngress | DirEgress
datatype peer_kind = PeerKindCIDR | PeerKindSG
datatype verdict = VerdictDeny | VerdictAllow

definition ProtoAny :: u16 where "ProtoAny = 0xFFFF"
definition PortAnyLo :: u16 where "PortAnyLo = 0"
definition PortAnyHi :: u16 where "PortAnyHi = 0xFFFF"

record rule =
  ru_direction :: direction
  ru_proto :: u16
  ru_portLo :: u16
  ru_portHi :: u16
  ru_peerKind :: peer_kind
  ru_peerV4 :: u32
  ru_peerPrefixlen :: u8
  ru_verdict :: verdict
  ru_priority :: u16

definition zero_rule :: rule where
  "zero_rule = \<lparr>ru_direction = DirIngress, ru_proto = 0, ru_portLo = 0, ru_portHi = 0, ru_peerKind = PeerKindCIDR,
     ru_peerV4 = 0, ru_peerPrefixlen = 0, ru_verdict = VerdictDeny, ru_priority = 0\<rparr>"

record rule_set =
  rs_groupID :: u32
  rs_ingress :: "rule list"
  rs_egress :: "rule list"
  rs_hasIngressRules :: bool
  rs_hasEgressRules :: bool
  rs_rulesetVersion :: u64

record rule_window =
  rw_direction :: direction
  rw_base :: u32
  rw_rules :: "rule list"

definition windows :: "rule_set \<Rightarrow> nat \<Rightarrow> rule_window list" where
  "windows rs perDirection =
     [\<lparr>rw_direction = DirIngress, rw_base = 0, rw_rules = rs_ingress rs\<rparr>,
      \<lparr>rw_direction = DirEgress, rw_base = of_nat perDirection, rw_rules = rs_egress rs\<rparr>]"

section \<open>Expansion (expand.go)\<close>

datatype expand_error =
    NoGroupID string
  | BadProtocol protocol_error
  | BadCIDR int string
  | NotIPv4CIDR int string
  | BadRuleProtocol int protocol_error
  | InDirection direction expand_error

text \<open>A resolver of SecurityGroup names; \<open>None\<close> is \<open>ok = false\<close>.\<close>

type_synonym peer_resolver = "string \<Rightarrow> u32 option"

definition MapPeerResolver :: "(string, u32) gomap \<Rightarrow> peer_resolver" where
  "MapPeerResolver m name = (case map_of m name of None \<Rightarrow> None | Some gid \<Rightarrow> if gid = 0 then None else Some gid)"

text \<open>The two port expansions of the source, with its two cases per port.\<close>

definition port_range_of :: "policy_port \<Rightarrow> (u16 \<times> u16) list" where
  "port_range_of p =
     (case pp_port p of
        Some n \<Rightarrow> [(word_of_int n, word_of_int n)]
      | None \<Rightarrow> (case pp_portRange p of
                   Some r \<Rightarrow> [(word_of_int (prs_from r), word_of_int (prs_to r))]
                 | None \<Rightarrow> []))"

definition portsToRanges :: "policy_port list \<Rightarrow> (u16 \<times> u16) list" where
  "portsToRanges ports = (if ports = [] then [(PortAnyLo, PortAnyHi)] else concat (map port_range_of ports))"

definition networkACLPortsToRanges :: "policy_port list \<Rightarrow> (u16 \<times> u16) list" where
  "networkACLPortsToRanges ports =
     (if ports = [] then [(PortAnyLo, PortAnyHi)] else concat (map port_range_of ports))"

definition networkACLActionToVerdict :: "string \<Rightarrow> verdict" where
  "networkACLActionToVerdict a = (if a = NetworkACLActionDeny then VerdictDeny else VerdictAllow)"

definition buildPeer :: "sg_peer \<Rightarrow> peer_resolver \<Rightarrow> rule option" where
  "buildPeer peer resolver =
     (if sp_cidr peer \<noteq> [] then
        (case ParsePrefix (sp_cidr peer) of
           None \<Rightarrow> None
         | Some prefix \<Rightarrow>
             if \<not> Is4 (pfx_ip prefix) then None
             else Some (zero_rule\<lparr>ru_peerKind := PeerKindCIDR, ru_peerV4 := le_word (As4 (pfx_ip (Masked prefix))),
                          ru_peerPrefixlen := word_of_int (pfx_bits prefix)\<rparr>))
      else case sp_securityGroupRef peer of
        Some name \<Rightarrow>
          (case resolver name of
             None \<Rightarrow> None
           | Some gid \<Rightarrow> Some (zero_rule\<lparr>ru_peerKind := PeerKindSG, ru_peerV4 := gid\<rparr>))
      | None \<Rightarrow> None)"

definition expandRule :: "direction \<Rightarrow> sg_rule_spec \<Rightarrow> peer_resolver \<Rightarrow> protocol_error + rule list" where
  "expandRule dir spec resolver =
     (case ResolveIPProtocol (sr_protocol spec) of
        Inl e \<Rightarrow> Inl e
      | Inr protoNum \<Rightarrow>
          Inr [base\<lparr>ru_direction := dir, ru_proto := protoNum, ru_portLo := lo, ru_portHi := hi, ru_verdict := VerdictAllow\<rparr>.
                 base \<leftarrow> List.map_filter (\<lambda>peer. buildPeer peer resolver) (sr_peers spec),
                 (lo, hi) \<leftarrow> portsToRanges (sr_ports spec)])"

text \<open>The loops of the expansion: append the rules of each spec, stop at the first error.\<close>

fun expandAll :: "('a \<Rightarrow> 'e + 'b list) \<Rightarrow> 'a list \<Rightarrow> 'e + 'b list" where
  "expandAll f [] = Inr []"
| "expandAll f (x # xs) = (case f x of Inl e \<Rightarrow> Inl e | Inr ys \<Rightarrow>
     (case expandAll f xs of Inl e \<Rightarrow> Inl e | Inr zs \<Rightarrow> Inr (ys @ zs)))"

definition ExpandSecurityGroup :: "security_group \<Rightarrow> peer_resolver \<Rightarrow> expand_error + rule_set" where
  "ExpandSecurityGroup sg peers =
     (if sg_groupID sg = 0 then Inl (NoGroupID (sg_name sg))
      else case expandAll (\<lambda>rule. expandRule DirIngress rule peers) (sg_ingress sg) of
        Inl e \<Rightarrow> Inl (BadProtocol e)
      | Inr ingress \<Rightarrow>
          (case (case sg_egress sg of
                   None \<Rightarrow> Inr []
                 | Some rules \<Rightarrow> expandAll (\<lambda>rule. expandRule DirEgress rule peers) rules) of
             Inl e \<Rightarrow> Inl (BadProtocol e)
           | Inr egress \<Rightarrow>
               Inr \<lparr>rs_groupID = sg_groupID sg, rs_ingress = ingress, rs_egress = egress,
                    rs_hasIngressRules = False, rs_hasEgressRules = (sg_egress sg \<noteq> None),
                    rs_rulesetVersion = sg_rulesetVersion sg\<rparr>))"

definition expandACLRule :: "direction \<Rightarrow> network_acl_rule \<Rightarrow> expand_error + rule list" where
  "expandACLRule dir spec =
     (case ParsePrefix (nr_cidr spec) of
        None \<Rightarrow> Inl (BadCIDR (nr_priority spec) (nr_cidr spec))
      | Some prefix \<Rightarrow>
          if \<not> Is4 (pfx_ip prefix) then Inl (NotIPv4CIDR (nr_priority spec) (nr_cidr spec))
          else case ResolveIPProtocol (nr_protocol spec) of
            Inl e \<Rightarrow> Inl (BadRuleProtocol (nr_priority spec) e)
          | Inr protoNum \<Rightarrow>
              Inr (map (\<lambda>(lo, hi).
                     \<lparr>ru_direction = dir, ru_proto = protoNum, ru_portLo = lo, ru_portHi = hi,
                      ru_peerKind = PeerKindCIDR, ru_peerV4 = le_word (As4 (pfx_ip (Masked prefix))),
                      ru_peerPrefixlen = word_of_int (pfx_bits prefix),
                      ru_verdict = networkACLActionToVerdict (nr_action spec),
                      ru_priority = word_of_int (nr_priority spec)\<rparr>) (networkACLPortsToRanges (nr_ports spec))))"

text \<open>\<open>slices.SortStableFunc\<close> by priority.\<close>

definition sortByPriority :: "rule list \<Rightarrow> rule list" where
  "sortByPriority rules = sort_key ru_priority rules"

definition expandACLDirection :: "direction \<Rightarrow> network_acl_rule list option \<Rightarrow> expand_error + rule list" where
  "expandACLDirection dir rules =
     (case rules of
        None \<Rightarrow> Inr []
      | Some rs \<Rightarrow> (case expandAll (expandACLRule dir) rs of
                      Inl e \<Rightarrow> Inl (InDirection dir e) | Inr xs \<Rightarrow> Inr xs))"

definition ExpandNetworkACL :: "network_acl \<Rightarrow> expand_error + rule_set" where
  "ExpandNetworkACL acl =
     (if na_aclID acl = 0 then Inl (NoGroupID (na_name acl))
      else case expandACLDirection DirIngress (na_ingress acl) of
        Inl e \<Rightarrow> Inl e
      | Inr ingress \<Rightarrow>
          (case expandACLDirection DirEgress (na_egress acl) of
             Inl e \<Rightarrow> Inl e
           | Inr egress \<Rightarrow>
               Inr \<lparr>rs_groupID = na_aclID acl, rs_ingress = sortByPriority ingress, rs_egress = sortByPriority egress,
                    rs_hasIngressRules = (na_ingress acl \<noteq> None), rs_hasEgressRules = (na_egress acl \<noteq> None),
                    rs_rulesetVersion = na_rulesetVersion acl\<rparr>))"

section \<open>The cost bounds the expansion\<close>

lemma sumEntryCount_eq: "sumEntryCount rules f = sum_list (map f rules)"
proof -
  have "fold (\<lambda>rule total. total + f rule) rules n = n + sum_list (map f rules)" for n
    by (induction rules arbitrary: n) auto
  then show ?thesis by (simp add: sumEntryCount_def)
qed

lemma expandAll_length:
  assumes "expandAll f xs = Inr ys" and "\<And>x zs. x \<in> set xs \<Longrightarrow> f x = Inr zs \<Longrightarrow> length zs \<le> c x"
  shows "length ys \<le> sum_list (map c xs)"
  using assms
proof (induction xs arbitrary: ys)
  case (Cons x xs)
  then obtain zs ws where "f x = Inr zs" "expandAll f xs = Inr ws" "ys = zs @ ws"
    by (auto split: sum.splits)
  then show ?case using Cons.IH[of ws] Cons.prems(2) by fastforce
qed simp

lemma expandAll_set:
  "expandAll f xs = Inr ys \<Longrightarrow> y \<in> set ys \<longleftrightarrow> (\<exists>x \<in> set xs. \<exists>zs. f x = Inr zs \<and> y \<in> set zs)"
  by (induction xs arbitrary: ys) (auto split: sum.splits)

lemma expandAll_ok: "(\<And>x. x \<in> set xs \<Longrightarrow> \<exists>zs. f x = Inr zs) \<Longrightarrow> \<exists>ys. expandAll f xs = Inr ys"
  by (induction xs) (fastforce split: sum.splits)+

lemma port_range_of_length: "length (port_range_of p) \<le> 1"
  by (simp add: port_range_of_def split: option.split)

lemma concat_ranges_length: "length (concat (map port_range_of ps)) \<le> length ps"
proof (induction ps)
  case (Cons p ps)
  then show ?case using port_range_of_length[of p] by simp
qed simp

lemma ports_length:
  "length (portsToRanges ps) \<le> atLeastOne (length ps)"
  "length (networkACLPortsToRanges ps) \<le> atLeastOne (length ps)"
  using concat_ranges_length[of ps]
  by (auto simp: portsToRanges_def networkACLPortsToRanges_def atLeastOne_def)

lemma expandACLRule_length: "expandACLRule dir r = Inr zs \<Longrightarrow> length zs \<le> NetworkACLRuleEntryCount r"
  using ports_length(2)[of "nr_ports r"]
  by (auto simp: expandACLRule_def NetworkACLRuleEntryCount_def split: option.splits if_splits sum.splits)

lemma length_map_filter_le: "length (List.map_filter f xs) \<le> length xs"
  by (induction xs) (auto simp: List.map_filter_simps split: option.split)

lemma expandRule_length:
  assumes "expandRule dir r resolver = Inr zs"
  shows "length zs \<le> SecurityGroupRuleEntryCount r"
proof -
  let ?b = "List.map_filter (\<lambda>peer. buildPeer peer resolver) (sr_peers r)"
  obtain p where zs: "zs = concat (map (\<lambda>base. map (\<lambda>(lo, hi). base\<lparr>ru_direction := dir, ru_proto := p,
      ru_portLo := lo, ru_portHi := hi, ru_verdict := VerdictAllow\<rparr>) (portsToRanges (sr_ports r))) ?b)"
    using assms by (auto simp: expandRule_def split: sum.splits)
  have "length zs = length ?b * length (portsToRanges (sr_ports r))"
    unfolding zs by (simp add: length_concat o_def sum_list_triv)
  also have "\<dots> \<le> atLeastOne (length (sr_peers r)) * atLeastOne (length (sr_ports r))"
    using length_map_filter_le[of "\<lambda>peer. buildPeer peer resolver" "sr_peers r"] ports_length(1)[of "sr_ports r"]
    by (intro mult_le_mono) (auto simp: atLeastOne_def intro: order_trans)
  finally show ?thesis by (simp add: SecurityGroupRuleEntryCount_def securityGroupRuleEntryCount_def)
qed

lemma ExpandNetworkACL_parts:
  assumes "ExpandNetworkACL acl = Inr rs"
  obtains ingress egress where "expandACLDirection DirIngress (na_ingress acl) = Inr ingress"
    "expandACLDirection DirEgress (na_egress acl) = Inr egress" "na_aclID acl \<noteq> 0"
    "rs = \<lparr>rs_groupID = na_aclID acl, rs_ingress = sortByPriority ingress, rs_egress = sortByPriority egress,
       rs_hasIngressRules = (na_ingress acl \<noteq> None), rs_hasEgressRules = (na_egress acl \<noteq> None),
       rs_rulesetVersion = na_rulesetVersion acl\<rparr>"
  using assms by (simp add: ExpandNetworkACL_def split: if_split_asm sum.split_asm)

lemma ExpandSecurityGroup_parts:
  assumes "ExpandSecurityGroup sg peers = Inr rs"
  obtains ingress egress where
    "expandAll (\<lambda>rule. expandRule DirIngress rule peers) (sg_ingress sg) = Inr ingress"
    "expandAll (\<lambda>rule. expandRule DirEgress rule peers) (case sg_egress sg of None \<Rightarrow> [] | Some r \<Rightarrow> r) = Inr egress"
    "sg_groupID sg \<noteq> 0"
    "rs = \<lparr>rs_groupID = sg_groupID sg, rs_ingress = ingress, rs_egress = egress, rs_hasIngressRules = False,
       rs_hasEgressRules = (sg_egress sg \<noteq> None), rs_rulesetVersion = sg_rulesetVersion sg\<rparr>"
  using assms by (simp add: ExpandSecurityGroup_def split: if_split_asm sum.split_asm option.split_asm)

lemma ExpandNetworkACL_length:
  assumes "ExpandNetworkACL acl = Inr rs"
  shows "length (rs_ingress rs) \<le> NetworkACLDirectionEntryCount (case na_ingress acl of None \<Rightarrow> [] | Some r \<Rightarrow> r)"
    and "length (rs_egress rs) \<le> NetworkACLDirectionEntryCount (case na_egress acl of None \<Rightarrow> [] | Some r \<Rightarrow> r)"
proof -
  have acl: "length xs \<le> NetworkACLDirectionEntryCount (case d of None \<Rightarrow> [] | Some r \<Rightarrow> r)"
    if "expandACLDirection dir d = Inr xs" for dir d xs
    using that expandAll_length[of "expandACLRule dir" _ xs NetworkACLRuleEntryCount]
    by (auto simp: expandACLDirection_def NetworkACLDirectionEntryCount_def sumEntryCount_eq
        intro: expandACLRule_length split: option.splits sum.splits)
  from assms show "length (rs_ingress rs) \<le> NetworkACLDirectionEntryCount (case na_ingress acl of None \<Rightarrow> [] | Some r \<Rightarrow> r)"
    and "length (rs_egress rs) \<le> NetworkACLDirectionEntryCount (case na_egress acl of None \<Rightarrow> [] | Some r \<Rightarrow> r)"
    by (rule ExpandNetworkACL_parts, simp add: sortByPriority_def acl)+
qed

lemma ExpandSecurityGroup_length:
  assumes "ExpandSecurityGroup sg peers = Inr rs"
  shows "length (rs_ingress rs) \<le> SecurityGroupEntryCount (sg_ingress sg)"
    and "length (rs_egress rs) \<le> SecurityGroupEntryCount (case sg_egress sg of None \<Rightarrow> [] | Some r \<Rightarrow> r)"
proof -
  have sg: "length xs \<le> SecurityGroupEntryCount d"
    if "expandAll (\<lambda>rule. expandRule dir rule peers) d = Inr xs" for dir d xs
    using that expandAll_length[of _ _ xs SecurityGroupRuleEntryCount]
    by (auto simp: SecurityGroupEntryCount_def sumEntryCount_eq intro: expandRule_length)
  from assms show "length (rs_ingress rs) \<le> SecurityGroupEntryCount (sg_ingress sg)"
    and "length (rs_egress rs) \<le> SecurityGroupEntryCount (case sg_egress sg of None \<Rightarrow> [] | Some r \<Rightarrow> r)"
    by (rule ExpandSecurityGroup_parts, simp add: sg)+
qed

end
