(* ===== verification/PolicyEval.thy ===== *)
theory PolicyEval
  imports PolicyRules
begin

text \<open>
  The policy evaluators of the eBPF data plane (\<open>daemon/bpf/policy_match.h\<close>, \<open>acl.h\<close>, \<open>sg.h\<close>) over
  the tables they read. A BPF hash map is a partial function from keys; the inner map of a rule table is
  an array, so a slot past its end is a failed lookup and a slot never written is zero. Addresses are in
  network byte order, read as little-endian words.
\<close>

section \<open>Tables (maps.h)\<close>

record acl_meta_val =
  am_ingress_count :: u32
  am_egress_count :: u32
  am_ruleset_version :: u64
  am_has_ingress_rules :: u8
  am_has_egress_rules :: u8

record acl_rule =
  bar_proto :: u16
  bar_port_lo :: u16
  bar_port_hi :: u16
  bar_priority :: u16
  bar_peer_v4 :: u32
  bar_direction :: u8
  bar_prefixlen :: u8
  bar_verdict :: u8

record sg_meta_val =
  sm_ingress_count :: u32
  sm_egress_count :: u32
  sm_ruleset_version :: u32
  sm_has_egress_rules :: u8

record sg_rule =
  bsr_proto :: u16
  bsr_port_lo :: u16
  bsr_port_hi :: u16
  bsr_direction :: u8
  bsr_peer_kind :: u8
  bsr_peer_v4 :: u32
  bsr_peer_prefixlen :: u8
  bsr_verdict :: u8

record sg_membership_val =
  smv_count :: u8
  smv_sgs :: "u32 list"

record policy_tables =
  acl_meta_map :: "u32 \<Rightarrow> acl_meta_val option"
  acl_rule_table :: "u32 \<Rightarrow> acl_rule list option"
  sg_meta_map :: "u32 \<Rightarrow> sg_meta_val option"
  sg_rule_table :: "u32 \<Rightarrow> sg_rule list option"
  sg_membership_map :: "u32 \<times> u32 \<Rightarrow> sg_membership_val option"

definition MAX_ACL_RULES_PER_DIR :: nat where "MAX_ACL_RULES_PER_DIR = 16"
definition MAX_SG_RULES_PER_DIR :: nat where "MAX_SG_RULES_PER_DIR = 8"
definition MAX_SGS_PER_NIC :: nat where "MAX_SGS_PER_NIC = 2"

definition ACL_VERDICT_DENY :: int where "ACL_VERDICT_DENY = 0"
definition ACL_VERDICT_ALLOW :: int where "ACL_VERDICT_ALLOW = 1"
definition ACL_VERDICT_PASS :: int where "ACL_VERDICT_PASS = 2"

definition SG_VERDICT_DENY :: int where "SG_VERDICT_DENY = 0"
definition SG_VERDICT_ALLOW :: int where "SG_VERDICT_ALLOW = 1"
definition SG_VERDICT_PASS :: int where "SG_VERDICT_PASS = 2"

lemmas policy_verdict_defs = ACL_VERDICT_DENY_def ACL_VERDICT_ALLOW_def ACL_VERDICT_PASS_def
  SG_VERDICT_DENY_def SG_VERDICT_ALLOW_def SG_VERDICT_PASS_def

text \<open>\<open>ACL_DIR_*\<close> and \<open>SG_DIR_*\<close>: 0 is ingress, 1 is egress.\<close>

fun dir_code :: "direction \<Rightarrow> u8" where
  "dir_code DirIngress = 0"
| "dir_code DirEgress = 1"

definition array_lookup :: "'r list \<Rightarrow> u32 \<Rightarrow> 'r option" where
  "array_lookup inner idx = (if unat idx < length inner then Some (inner ! unat idx) else None)"

section \<open>Matching (policy\_match.h)\<close>

text \<open>\<open>bpf_htonl\<close> on a little-endian host.\<close>

definition bpf_htonl :: "u32 \<Rightarrow> u32" where
  "bpf_htonl w = le_word (be_bytes 4 w)"

definition policy_proto_matches :: "u16 \<Rightarrow> u8 \<Rightarrow> bool" where
  "policy_proto_matches rule_proto pkt_proto \<longleftrightarrow> rule_proto = 0xFFFF \<or> rule_proto = ucast pkt_proto"

definition policy_port_matches :: "u16 \<Rightarrow> u16 \<Rightarrow> u16 \<Rightarrow> bool" where
  "policy_port_matches lo hi port \<longleftrightarrow> lo = 0 \<and> hi = 0xFFFF \<or> lo \<le> port \<and> port \<le> hi"

definition policy_cidr_matches :: "u32 \<Rightarrow> u8 \<Rightarrow> u32 \<Rightarrow> bool" where
  "policy_cidr_matches base_be prefixlen addr_be \<longleftrightarrow>
     (if prefixlen = 0 then True
      else if prefixlen > 32 then False
      else let mask = bpf_htonl (push_bit (32 - unat prefixlen) (- 1))
           in base_be AND mask = addr_be AND mask)"

section \<open>NetworkACL (acl.h)\<close>

fun acl_scan :: "acl_rule list \<Rightarrow> u32 \<Rightarrow> u32 \<Rightarrow> u8 \<Rightarrow> u16 \<Rightarrow> u32 \<Rightarrow> nat list \<Rightarrow> int" where
  "acl_scan inner base scan_count proto dport peer_ip [] = ACL_VERDICT_DENY"
| "acl_scan inner base scan_count proto dport peer_ip (i # is) =
     (if i \<ge> unat scan_count then ACL_VERDICT_DENY
      else case array_lookup inner (base + of_nat i) of
        None \<Rightarrow> ACL_VERDICT_DENY
      | Some r \<Rightarrow>
          if \<not> policy_proto_matches (bar_proto r) proto \<or> \<not> policy_port_matches (bar_port_lo r) (bar_port_hi r) dport
             \<or> \<not> policy_cidr_matches (bar_peer_v4 r) (bar_prefixlen r) peer_ip
          then acl_scan inner base scan_count proto dport peer_ip is
          else if uint (bar_verdict r) = ACL_VERDICT_ALLOW then ACL_VERDICT_ALLOW else ACL_VERDICT_DENY)"

definition acl_evaluate :: "policy_tables \<Rightarrow> u32 \<Rightarrow> direction \<Rightarrow> u8 \<Rightarrow> u16 \<Rightarrow> u32 \<Rightarrow> int" where
  "acl_evaluate t acl_id direction proto dport peer_ip =
     (if acl_id = 0 then ACL_VERDICT_PASS
      else case acl_meta_map t acl_id of
        None \<Rightarrow> ACL_VERDICT_PASS
      | Some meta \<Rightarrow>
          if (case direction of DirIngress \<Rightarrow> am_has_ingress_rules meta | DirEgress \<Rightarrow> am_has_egress_rules meta) = 0
          then ACL_VERDICT_PASS
          else case acl_rule_table t acl_id of
            None \<Rightarrow> ACL_VERDICT_DENY
          | Some inner \<Rightarrow>
              (let base = (case direction of DirIngress \<Rightarrow> 0 | DirEgress \<Rightarrow> of_nat MAX_ACL_RULES_PER_DIR);
                   count = (case direction of DirIngress \<Rightarrow> am_ingress_count meta | DirEgress \<Rightarrow> am_egress_count meta);
                   scan_count = (if count > of_nat MAX_ACL_RULES_PER_DIR then of_nat MAX_ACL_RULES_PER_DIR else count)
               in acl_scan inner base scan_count proto dport peer_ip [0..<MAX_ACL_RULES_PER_DIR]))"

section \<open>SecurityGroup (sg.h)\<close>

definition sg_membership_lookup :: "policy_tables \<Rightarrow> u32 \<Rightarrow> u32 \<Rightarrow> sg_membership_val option" where
  "sg_membership_lookup t vpc_id ip = sg_membership_map t (vpc_id, ip)"

definition sg_attached :: "sg_membership_val \<Rightarrow> u32 list" where
  "sg_attached v = take (min (unat (smv_count v)) MAX_SGS_PER_NIC) (smv_sgs v)"

definition sg_peer_sg_set_contains :: "sg_membership_val option \<Rightarrow> u32 \<Rightarrow> bool" where
  "sg_peer_sg_set_contains peer_sgs peer_sg_id \<longleftrightarrow>
     (case peer_sgs of None \<Rightarrow> False | Some v \<Rightarrow> peer_sg_id \<in> set (sg_attached v))"

definition sg_rule_matches :: "sg_rule \<Rightarrow> sg_membership_val option \<Rightarrow> u8 \<Rightarrow> u16 \<Rightarrow> u32 \<Rightarrow> bool" where
  "sg_rule_matches r peer_sgs proto dport peer_ip \<longleftrightarrow>
     policy_proto_matches (bsr_proto r) proto \<and> policy_port_matches (bsr_port_lo r) (bsr_port_hi r) dport
   \<and> (if bsr_peer_kind r = 0 then policy_cidr_matches (bsr_peer_v4 r) (bsr_peer_prefixlen r) peer_ip
      else bsr_peer_kind r = 1 \<and> sg_peer_sg_set_contains peer_sgs (bsr_peer_v4 r))
   \<and> uint (bsr_verdict r) = SG_VERDICT_ALLOW"

fun sg_scan :: "sg_rule list \<Rightarrow> u32 \<Rightarrow> u32 \<Rightarrow> sg_membership_val option \<Rightarrow> u8 \<Rightarrow> u16 \<Rightarrow> u32 \<Rightarrow> nat list \<Rightarrow> bool" where
  "sg_scan inner base max_rules peer_sgs proto dport peer_ip [] = False"
| "sg_scan inner base max_rules peer_sgs proto dport peer_ip (i # is) =
     (if i \<ge> unat max_rules then False
      else case array_lookup inner (base + of_nat i) of
        None \<Rightarrow> False
      | Some r \<Rightarrow>
          if sg_rule_matches r peer_sgs proto dport peer_ip then True
          else sg_scan inner base max_rules peer_sgs proto dport peer_ip is)"

definition sg_eval_one_sg ::
  "policy_tables \<Rightarrow> u32 \<Rightarrow> u32 \<Rightarrow> u32 \<Rightarrow> sg_membership_val option \<Rightarrow> u8 \<Rightarrow> u16 \<Rightarrow> u32 \<Rightarrow> bool" where
  "sg_eval_one_sg t base sg_id max_rules peer_sgs proto dport peer_ip =
     (case sg_rule_table t sg_id of
        None \<Rightarrow> False
      | Some inner \<Rightarrow>
          sg_scan inner base
            (if max_rules > of_nat MAX_SG_RULES_PER_DIR then of_nat MAX_SG_RULES_PER_DIR else max_rules)
            peer_sgs proto dport peer_ip [0..<MAX_SG_RULES_PER_DIR])"

text \<open>
  The loop over the groups of the interface; the flag is \<open>any_rules\<close>. The result is \<open>None\<close> when no rule
  matched, with the flag.
\<close>

fun sg_eval_groups ::
  "policy_tables \<Rightarrow> direction \<Rightarrow> sg_membership_val option \<Rightarrow> u8 \<Rightarrow> u16 \<Rightarrow> u32 \<Rightarrow> bool \<Rightarrow> u32 list \<Rightarrow> bool \<times> bool" where
  "sg_eval_groups t direction peer_sgs proto dport peer_ip any_rules [] = (False, any_rules)"
| "sg_eval_groups t direction peer_sgs proto dport peer_ip any_rules (sg_id # sgs) =
     (case sg_meta_map t sg_id of
        None \<Rightarrow> sg_eval_groups t direction peer_sgs proto dport peer_ip any_rules sgs
      | Some meta \<Rightarrow>
          (let dir_count = (case direction of DirEgress \<Rightarrow> sm_egress_count meta | DirIngress \<Rightarrow> sm_ingress_count meta);
               declared = (case direction of DirEgress \<Rightarrow> sm_has_egress_rules meta \<noteq> 0 | DirIngress \<Rightarrow> dir_count > 0);
               base = (case direction of DirEgress \<Rightarrow> of_nat MAX_SG_RULES_PER_DIR | DirIngress \<Rightarrow> 0)
           in if \<not> declared then sg_eval_groups t direction peer_sgs proto dport peer_ip any_rules sgs
              else if dir_count = 0 then sg_eval_groups t direction peer_sgs proto dport peer_ip True sgs
              else if sg_eval_one_sg t base sg_id dir_count peer_sgs proto dport peer_ip then (True, True)
              else sg_eval_groups t direction peer_sgs proto dport peer_ip True sgs))"

definition sg_eval ::
  "policy_tables \<Rightarrow> sg_membership_val option \<Rightarrow> sg_membership_val option \<Rightarrow> direction \<Rightarrow> u8 \<Rightarrow> u16 \<Rightarrow> u32 \<Rightarrow> int" where
  "sg_eval t self peer_sgs direction proto dport peer_ip =
     (case self of
        None \<Rightarrow> SG_VERDICT_PASS
      | Some v \<Rightarrow>
          if smv_count v = 0 then SG_VERDICT_PASS
          else case sg_eval_groups t direction peer_sgs proto dport peer_ip False (sg_attached v) of
            (True, _) \<Rightarrow> SG_VERDICT_ALLOW
          | (False, any_rules) \<Rightarrow>
              if \<not> any_rules then (case direction of DirEgress \<Rightarrow> SG_VERDICT_PASS | DirIngress \<Rightarrow> SG_VERDICT_DENY)
              else SG_VERDICT_DENY)"

section \<open>Byte order\<close>

lemma bit_htonl:
  assumes "n < 32"
  shows "bit (bpf_htonl w) n \<longleftrightarrow> bit w (8 * (3 - n div 8) + n mod 8)"
proof -
  have "n div 8 < 4" using assms by simp
  then show ?thesis
    using assms by (simp add: bpf_htonl_def le_word_def bit_be_word rev_nth bit_ucast_iff bit_drop_bit_eq)
qed

lemma htonl_and: "bpf_htonl (x AND y) = bpf_htonl x AND bpf_htonl y"
  by (rule bit_word_eqI) (simp add: bit_htonl bit_and_iff)

lemma htonl_inject [simp]: "bpf_htonl x = bpf_htonl y \<longleftrightarrow> x = y"
proof
  assume "bpf_htonl x = bpf_htonl y"
  then have "be_bytes 4 x = be_bytes 4 y"
    unfolding bpf_htonl_def by (rule le_word_inject[where n = 4, rotated 3]) simp_all
  then have "(be_word (be_bytes 4 x) :: u32) = be_word (be_bytes 4 y)" by simp
  then show "x = y" by simp
qed simp

lemma le_word_As4: "le_word (As4 (V4 w)) = bpf_htonl w"
  by (simp add: bpf_htonl_def)

lemma and_high_eq_iff:
  "x AND NOT (mask h) = y AND NOT (mask h) \<longleftrightarrow> drop_bit h x = drop_bit h y" for x y :: "'a::len word"
  by (simp add: drop_bit_eq_iff_mask_host mask_host_def)

text \<open>
  The data plane's test of a rule's CIDR is the membership test of the prefix the user wrote.
\<close>

lemma policy_cidr_matches_Contains:
  assumes p: "ParsePrefix s = Some prefix" "Is4 (pfx_ip prefix)"
  shows "policy_cidr_matches (le_word (As4 (pfx_ip (Masked prefix)))) (word_of_int (pfx_bits prefix)) (bpf_htonl a)
    \<longleftrightarrow> Contains prefix (V4 a)"
proof -
  obtain v where v: "pfx_ip prefix = V4 v" using p(2) by (cases "pfx_ip prefix") auto
  have wf: "prefix_wf prefix" using p(1) by (rule ParsePrefix_wf)
  then have b: "0 \<le> pfx_bits prefix" "pfx_bits prefix \<le> 32" using v by simp_all
  define l where "l = nat (pfx_bits prefix)"
  then have l: "pfx_bits prefix = int l" "l \<le> 32" using b by simp_all
  have u: "unat (word_of_int (pfx_bits prefix) :: u8) = l"
    using l by (simp add: unat_of_nat)
  have m: "le_word (As4 (pfx_ip (Masked prefix))) = bpf_htonl (mask_host (32 - l) v)"
    using Masked_V4[OF v wf] l by (simp add: bpf_htonl_def nat_diff_distrib)
  have c: "Contains prefix (V4 a) \<longleftrightarrow> drop_bit (32 - l) a = drop_bit (32 - l) v"
    using v b l by (simp add: Contains_def prefix_valid_def xor_zero_iff nat_diff_distrib)
  show ?thesis
  proof (cases "l = 0")
    case True
    then show ?thesis
      using u c by (simp add: policy_cidr_matches_def unat_eq_0)
  next
    case False
    then have n: "word_of_int (pfx_bits prefix) \<noteq> (0 :: u8)" "\<not> word_of_int (pfx_bits prefix) > (32 :: u8)"
      using u l by (auto simp: word_less_nat_alt)
    have "drop_bit (32 - l) (mask_host (32 - l) v) = drop_bit (32 - l) v"
      by (simp add: drop_bit_eq_iff_mask_host)
    then show ?thesis
      using n c u m
      by (simp add: policy_cidr_matches_def Let_def and_high_eq_iff flip: htonl_and) auto
  qed
qed

end
