(* ===== verification/PolicyStores.thy ===== *)
theory PolicyStores
  imports PolicyEval
begin

text \<open>
  The writers of the policy tables (\<open>daemon/internal/daemon/dataplane/policy/\<close>: \<open>capacity.go\<close>,
  \<open>epoch.go\<close>, \<open>invalidator.go\<close>, \<open>rotator.go\<close>, \<open>aclstore.go\<close>, \<open>sgstore.go\<close>). The kernel maps are reached
  through the third-party eBPF library: its calls are the fields of \<open>bpf_ops\<close>, over an abstract kernel
  state, and \<open>kview\<close> is what the data plane reads there. A map handle stands for the map itself.
\<close>

section \<open>The kernel\<close>

datatype bpf_error = ErrKeyNotExist | BpfError string

record ('r, 'm) kernel_view =
  kv_outer :: "u32 \<Rightarrow> nat option"
  kv_inner :: "nat \<Rightarrow> 'r list option"
  kv_meta :: "u32 \<Rightarrow> 'm option"
  kv_epoch :: u32

record ('s, 'r, 'm) bpf_ops =
  newMap :: "('s, bpf_error, nat) api"
  innerUpdate :: "nat \<Rightarrow> u32 \<Rightarrow> 'r \<Rightarrow> ('s, bpf_error, unit) api"
  closeMap :: "nat \<Rightarrow> ('s, bpf_error, unit) api"
  outerUpdate :: "u32 \<Rightarrow> nat \<Rightarrow> ('s, bpf_error, unit) api"
  outerDelete :: "u32 \<Rightarrow> ('s, bpf_error, unit) api"
  metaUpdate :: "u32 \<Rightarrow> 'm \<Rightarrow> ('s, bpf_error, unit) api"
  metaDelete :: "u32 \<Rightarrow> ('s, bpf_error, unit) api"
  epochLoad :: "('s, bpf_error, u32) api"
  epochStore :: "u32 \<Rightarrow> ('s, bpf_error, unit) api"
  kview :: "'s \<Rightarrow> ('r, 'm) kernel_view"

text \<open>A rule table as the data plane reads it: the inner map of an id.\<close>

definition installed_rules :: "('r, 'm) kernel_view \<Rightarrow> u32 \<Rightarrow> 'r list option" where
  "installed_rules v gid = (case kv_outer v gid of None \<Rightarrow> None | Some h \<Rightarrow> kv_inner v h)"

section \<open>Errors (capacity.go)\<close>

record capacity_error =
  ce_layer :: string
  ce_id :: u32
  ce_direction :: direction
  ce_entries :: nat
  ce_limit :: nat

datatype policy_error =
    ZeroID
  | CreateInner u32 bpf_error
  | WriteRules u32 bpf_error
  | InstallInner u32 bpf_error
  | DeleteRules u32 bpf_error
  | DeleteMeta u32 bpf_error
  | ReadEpoch bpf_error
  | PublishEpoch u32 bpf_error
  | Invalidate u32 policy_error
  | CapacityErr capacity_error
  | Joined "policy_error list"

fun collectCapacityErrors :: "policy_error \<Rightarrow> capacity_error list" where
  "collectCapacityErrors (CapacityErr e) = [e]"
| "collectCapacityErrors (Joined es) = concat (map collectCapacityErrors es)"
| "collectCapacityErrors (Invalidate _ e) = collectCapacityErrors e"
| "collectCapacityErrors _ = []"

definition CapacityErrorsFrom :: "policy_error option \<Rightarrow> capacity_error list" where
  "CapacityErrorsFrom err = (case err of None \<Rightarrow> [] | Some e \<Rightarrow> collectCapacityErrors e)"

text \<open>\<open>errors.Join\<close>: nothing when there is nothing to join.\<close>

definition errors_Join :: "policy_error list \<Rightarrow> policy_error option" where
  "errors_Join errs = (if errs = [] then None else Some (Joined errs))"

definition capacity_error_of :: "string \<Rightarrow> u32 \<Rightarrow> direction \<Rightarrow> rule list \<Rightarrow> nat \<Rightarrow> policy_error list" where
  "capacity_error_of layer gid dir rules perDirection =
     (if length rules > perDirection
      then [CapacityErr \<lparr>ce_layer = layer, ce_id = gid, ce_direction = dir, ce_entries = length rules,
                         ce_limit = perDirection\<rparr>]
      else [])"

definition fitRuleSet :: "string \<Rightarrow> rule_set \<Rightarrow> nat \<Rightarrow> rule_set \<times> policy_error option" where
  "fitRuleSet layer rs perDirection =
     (let errs1 = capacity_error_of layer (rs_groupID rs) DirIngress (rs_ingress rs) perDirection;
          rs1 = (if length (rs_ingress rs) > perDirection
                 then rs\<lparr>rs_ingress := [], rs_hasIngressRules := True\<rparr> else rs);
          errs2 = capacity_error_of layer (rs_groupID rs1) DirEgress (rs_egress rs1) perDirection;
          rs2 = (if length (rs_egress rs1) > perDirection
                 then rs1\<lparr>rs_egress := [], rs_hasEgressRules := True\<rparr> else rs1)
      in (rs2, errors_Join (errs1 @ errs2)))"

section \<open>The daemon's state\<close>

record 's policy_state =
  pl_kernel :: 's
  pl_snapshots :: "(u32, nat) gomap"
  pl_installed :: "(u32, rule_set) gomap"
  pl_current :: u32

type_synonym ('s, 'a) policy_call = "('s policy_state, policy_error, 'a) api"

text \<open>A call into the kernel, with its error wrapped.\<close>

definition kern :: "(bpf_error \<Rightarrow> policy_error) \<Rightarrow> ('s, bpf_error, 'a) api \<Rightarrow> ('s, 'a) policy_call" where
  "kern wrap m d = (case m (pl_kernel d) of
     (Inl e, s') \<Rightarrow> (Inl (wrap e), d\<lparr>pl_kernel := s'\<rparr>)
   | (Inr x, s') \<Rightarrow> (Inr x, d\<lparr>pl_kernel := s'\<rparr>))"

text \<open>A call whose error is only logged.\<close>

definition logged :: "('s, 'e, unit) api \<Rightarrow> ('s, 'f, unit) api" where
  "logged m = api_bind (api_try m) (\<lambda>_. api_return ())"

section \<open>The generation counter (epoch.go)\<close>

definition newEpoch :: "('s, 'r, 'm) bpf_ops \<Rightarrow> ('s, unit) policy_call" where
  "newEpoch ops = api_bind (kern ReadEpoch (epochLoad ops)) (\<lambda>previous.
     (\<lambda>d. kern (PublishEpoch (previous + 1)) (epochStore ops (previous + 1)) (d\<lparr>pl_current := previous + 1\<rparr>)))"

definition Epoch_Bump :: "('s, 'r, 'm) bpf_ops \<Rightarrow> ('s, unit) policy_call" where
  "Epoch_Bump ops d =
     (let nxt = pl_current d + 1
      in api_bind (kern (PublishEpoch nxt) (epochStore ops nxt)) (\<lambda>_ d'. (Inr (), d'\<lparr>pl_current := nxt\<rparr>)) d)"

definition Epoch_Current :: "'s policy_state \<Rightarrow> u32" where
  "Epoch_Current d = pl_current d"

section \<open>Invalidation (invalidator.go)\<close>

type_synonym 's bumper_op = "('s, unit) policy_call"

definition invalidator_bump :: "'s bumper_op \<Rightarrow> u32 \<Rightarrow> ('s, unit) policy_call" where
  "invalidator_bump Bump gid d = (case Bump d of
     (Inl e, d') \<Rightarrow> (Inl (Invalidate gid e), d') | (Inr x, d') \<Rightarrow> (Inr x, d'))"

definition applied :: "'s bumper_op \<Rightarrow> u32 \<Rightarrow> rule_set \<Rightarrow> ('s, unit) policy_call" where
  "applied Bump gid rs d =
     (if map_of (pl_installed d) gid = Some rs then (Inr (), d)
      else api_bind (invalidator_bump Bump gid)
             (\<lambda>_ d'. (Inr (), d'\<lparr>pl_installed := AList.update gid rs (pl_installed d')\<rparr>)) d)"

definition deleted :: "'s bumper_op \<Rightarrow> u32 \<Rightarrow> ('s, unit) policy_call" where
  "deleted Bump gid =
     api_bind (invalidator_bump Bump gid)
       (\<lambda>_ d'. (Inr (), d'\<lparr>pl_installed := AList.delete gid (pl_installed d')\<rparr>))"

section \<open>Rotate and swap (rotator.go)\<close>

type_synonym ('s, 'r) slot_writer = "u32 \<Rightarrow> 'r \<Rightarrow> ('s, unit) policy_call"

definition Rotator_Apply ::
  "('s, 'r, 'm) bpf_ops \<Rightarrow> u32 \<Rightarrow> (('s, 'r) slot_writer \<Rightarrow> ('s, unit) policy_call) \<Rightarrow> ('s, unit) policy_call
     \<Rightarrow> ('s, unit) policy_call" where
  "Rotator_Apply ops gid writeRules writeMeta =
     (if gid = 0 then api_throw ZeroID
      else api_bind (kern (CreateInner gid) (newMap ops)) (\<lambda>inner.
        api_bind (api_try (api_bind
            (writeRules (\<lambda>slot r. kern (WriteRules gid) (innerUpdate ops inner slot r)))
            (\<lambda>_. kern (InstallInner gid) (outerUpdate ops gid inner)))) (\<lambda>res.
          case res of
            Inl e \<Rightarrow> api_bind (logged (kern (InstallInner gid) (closeMap ops inner))) (\<lambda>_. api_throw e)
          | Inr _ \<Rightarrow>
              api_bind (logged writeMeta) (\<lambda>_ d.
                let old = map_of (pl_snapshots d) gid;
                    d1 = d\<lparr>pl_snapshots := AList.update gid inner (pl_snapshots d)\<rparr>
                in (case old of
                      None \<Rightarrow> api_return ()
                    | Some h \<Rightarrow> logged (kern (InstallInner gid) (closeMap ops h))) d1))))"

definition ignore_missing :: "('s, bpf_error, unit) api \<Rightarrow> ('s, bpf_error, unit) api" where
  "ignore_missing m = api_bind (api_try m) (\<lambda>r. case r of
     Inl ErrKeyNotExist \<Rightarrow> api_return () | Inl e \<Rightarrow> api_throw e | Inr x \<Rightarrow> api_return x)"

definition Rotator_Delete :: "('s, 'r, 'm) bpf_ops \<Rightarrow> u32 \<Rightarrow> ('s, unit) policy_call" where
  "Rotator_Delete ops gid =
     (if gid = 0 then api_return ()
      else api_bind (kern (DeleteRules gid) (ignore_missing (outerDelete ops gid))) (\<lambda>_.
        api_bind (kern (DeleteMeta gid) (ignore_missing (metaDelete ops gid))) (\<lambda>_ d.
          let old = map_of (pl_snapshots d) gid;
              d1 = d\<lparr>pl_snapshots := AList.delete gid (pl_snapshots d)\<rparr>
          in (case old of
                None \<Rightarrow> api_return ()
              | Some h \<Rightarrow> logged (kern (DeleteRules gid) (closeMap ops h))) d1)))"

fun close_each :: "('s, 'r, 'm) bpf_ops \<Rightarrow> nat list \<Rightarrow> policy_error list \<Rightarrow> ('s, policy_error list) policy_call" where
  "close_each ops [] errs = api_return errs"
| "close_each ops (h # hs) errs = api_bind (api_try (kern (InstallInner 0) (closeMap ops h))) (\<lambda>r. case r of
     Inl e \<Rightarrow> close_each ops hs (errs @ [e]) | Inr _ \<Rightarrow> close_each ops hs errs)"

definition Rotator_CloseAll :: "('s, 'r, 'm) bpf_ops \<Rightarrow> ('s, unit) policy_call" where
  "Rotator_CloseAll ops d =
     api_bind (close_each ops (map snd (pl_snapshots d)) [])
       (\<lambda>errs. case errors_Join errs of None \<Rightarrow> api_return () | Some e \<Rightarrow> api_throw e) (d\<lparr>pl_snapshots := []\<rparr>)"

section \<open>The two stores (aclstore.go, sgstore.go)\<close>

text \<open>The loops over windows and rules, as the slots they write in order.\<close>

definition window_slots :: "(rule \<Rightarrow> 'r) \<Rightarrow> rule_window \<Rightarrow> (u32 \<times> 'r) list" where
  "window_slots enc w = map (\<lambda>(i, r). (rw_base w + of_nat i, enc r)) (enumerate 0 (rw_rules w))"

fun write_slots :: "('s, 'r) slot_writer \<Rightarrow> (u32 \<times> 'r) list \<Rightarrow> ('s, unit) policy_call" where
  "write_slots update [] = api_return ()"
| "write_slots update ((slot, v) # ws) = api_bind (update slot v) (\<lambda>_. write_slots update ws)"

fun kind_code :: "peer_kind \<Rightarrow> u8" where
  "kind_code PeerKindCIDR = 0"
| "kind_code PeerKindSG = 1"

fun verdict_code :: "verdict \<Rightarrow> u8" where
  "verdict_code VerdictDeny = 0"
| "verdict_code VerdictAllow = 1"

definition aclLayer :: string where "aclLayer = ''networkacl''"
definition sgLayer :: string where "sgLayer = ''securitygroup''"

definition MaxACLEntriesPerDirection :: nat where
  "MaxACLEntriesPerDirection = NetworkACLMaxEntriesPerDirection"

definition MaxSGEntriesPerDirection :: nat where
  "MaxSGEntriesPerDirection = SecurityGroupMaxEntriesPerDirection"

definition acl_encode :: "rule \<Rightarrow> acl_rule" where
  "acl_encode r = \<lparr>bar_proto = ru_proto r, bar_port_lo = ru_portLo r, bar_port_hi = ru_portHi r,
     bar_priority = ru_priority r, bar_peer_v4 = ru_peerV4 r, bar_direction = dir_code (ru_direction r),
     bar_prefixlen = ru_peerPrefixlen r, bar_verdict = verdict_code (ru_verdict r)\<rparr>"

definition acl_meta :: "rule_set \<Rightarrow> acl_meta_val" where
  "acl_meta rs = \<lparr>am_ingress_count = of_nat (length (rs_ingress rs)), am_egress_count = of_nat (length (rs_egress rs)),
     am_ruleset_version = rs_rulesetVersion rs, am_has_ingress_rules = (if rs_hasIngressRules rs then 1 else 0),
     am_has_egress_rules = (if rs_hasEgressRules rs then 1 else 0)\<rparr>"

definition sg_encode :: "rule \<Rightarrow> sg_rule" where
  "sg_encode r = \<lparr>bsr_proto = ru_proto r, bsr_port_lo = ru_portLo r, bsr_port_hi = ru_portHi r,
     bsr_direction = dir_code (ru_direction r), bsr_peer_kind = kind_code (ru_peerKind r),
     bsr_peer_v4 = ru_peerV4 r, bsr_peer_prefixlen = ru_peerPrefixlen r, bsr_verdict = verdict_code (ru_verdict r)\<rparr>"

definition sg_meta :: "rule_set \<Rightarrow> sg_meta_val" where
  "sg_meta rs = \<lparr>sm_ingress_count = of_nat (length (rs_ingress rs)), sm_egress_count = of_nat (length (rs_egress rs)),
     sm_ruleset_version = ucast (rs_rulesetVersion rs), sm_has_egress_rules = (if rs_hasEgressRules rs then 1 else 0)\<rparr>"

type_synonym ('s, 'r) table_apply =
  "u32 \<Rightarrow> (('s, 'r) slot_writer \<Rightarrow> ('s, unit) policy_call) \<Rightarrow> ('s, unit) policy_call \<Rightarrow> ('s, unit) policy_call"

text \<open>The end of both \<open>Apply\<close> methods: a capacity error is returned after the write.\<close>

definition report :: "policy_error option \<Rightarrow> ('s, unit) policy_call" where
  "report err = (case err of None \<Rightarrow> api_return () | Some e \<Rightarrow> api_throw e)"

definition ACLStore_Apply ::
  "('s, acl_rule) table_apply \<Rightarrow> (u32 \<Rightarrow> acl_meta_val \<Rightarrow> ('s, unit) policy_call) \<Rightarrow> 's bumper_op \<Rightarrow> rule_set
     \<Rightarrow> ('s, unit) policy_call" where
  "ACLStore_Apply tableApply metaUpd Bump rs =
     (if rs_groupID rs = 0 then api_throw ZeroID
      else let (inst, capacityErr) = fitRuleSet aclLayer rs MaxACLEntriesPerDirection;
               writeRules = (\<lambda>inner. write_slots inner
                 (concat (map (window_slots acl_encode) (windows inst MaxACLEntriesPerDirection))));
               writeMeta = metaUpd (rs_groupID rs) (acl_meta inst)
           in api_bind (tableApply (rs_groupID rs) writeRules writeMeta) (\<lambda>_.
                api_bind (applied Bump (rs_groupID rs) inst) (\<lambda>_. report capacityErr)))"

definition ACLStore_Delete :: "(u32 \<Rightarrow> ('s, unit) policy_call) \<Rightarrow> 's bumper_op \<Rightarrow> u32 \<Rightarrow> ('s, unit) policy_call" where
  "ACLStore_Delete tableDelete Bump aclID = api_bind (tableDelete aclID) (\<lambda>_. deleted Bump aclID)"

definition SGStore_Apply ::
  "('s, sg_rule) table_apply \<Rightarrow> (u32 \<Rightarrow> sg_meta_val \<Rightarrow> ('s, unit) policy_call) \<Rightarrow> 's bumper_op \<Rightarrow> rule_set
     \<Rightarrow> ('s, unit) policy_call" where
  "SGStore_Apply tableApply metaUpd Bump rs =
     (if rs_groupID rs = 0 then api_throw ZeroID
      else let (inst, capacityErr) = fitRuleSet sgLayer rs MaxSGEntriesPerDirection;
               writeRules = (\<lambda>inner. write_slots inner
                 (concat (map (window_slots sg_encode) (windows inst MaxSGEntriesPerDirection))));
               writeMeta = metaUpd (rs_groupID rs) (sg_meta inst)
           in api_bind (tableApply (rs_groupID rs) writeRules writeMeta) (\<lambda>_.
                api_bind (applied Bump (rs_groupID rs) inst) (\<lambda>_. report capacityErr)))"

definition SGStore_Delete :: "(u32 \<Rightarrow> ('s, unit) policy_call) \<Rightarrow> 's bumper_op \<Rightarrow> u32 \<Rightarrow> ('s, unit) policy_call" where
  "SGStore_Delete tableDelete Bump groupID = api_bind (tableDelete groupID) (\<lambda>_. deleted Bump groupID)"

end
