(* ===== verification/PolicyTable.thy ===== *)
theory PolicyTable
  imports PolicyStores
begin

text \<open>
  The contracts between the policy stores and what they write through: \<open>ruleTable\<close> and \<open>Bumper\<close> of the
  source as locales, the rotator and the epoch as their implementations, and what the two stores
  guarantee over any implementation.
\<close>

section \<open>What the kernel promises\<close>

definition kview_ok :: "('s \<Rightarrow> ('r, 'm) kernel_view) \<Rightarrow> ('s, bpf_error, 'a) api \<Rightarrow>
    ('a \<Rightarrow> ('r, 'm) kernel_view \<Rightarrow> ('r, 'm) kernel_view \<Rightarrow> bool) \<Rightarrow> (bpf_error \<Rightarrow> ('r, 'm) kernel_view \<Rightarrow> bool) \<Rightarrow> bool" where
  "kview_ok v m done failed \<longleftrightarrow>
     (\<forall>s r s'. m s = (r, s') \<longrightarrow>
        (case r of Inr x \<Rightarrow> done x (v s) (v s') | Inl e \<Rightarrow> v s' = v s \<and> failed e (v s)))"

definition closed_map :: "nat \<Rightarrow> ('r, 'm) kernel_view \<Rightarrow> ('r, 'm) kernel_view \<Rightarrow> bool" where
  "closed_map h v v' \<longleftrightarrow> (\<exists>inner. v' = v\<lparr>kv_inner := inner\<rparr>
     \<and> (\<forall>g. g \<noteq> h \<or> h \<in> ran (kv_outer v) \<longrightarrow> inner g = kv_inner v g))"

definition bpf_ok :: "nat \<Rightarrow> 'r \<Rightarrow> ('s, 'r, 'm) bpf_ops \<Rightarrow> bool" where
  "bpf_ok cap zero ops \<longleftrightarrow>
     kview_ok (kview ops) (newMap ops)
       (\<lambda>h v v'. kv_inner v h = None \<and> h \<notin> ran (kv_outer v)
          \<and> v' = v\<lparr>kv_inner := (kv_inner v)(h \<mapsto> replicate cap zero)\<rparr>) (\<lambda>_ _. True)
   \<and> (\<forall>h slot r. kview_ok (kview ops) (innerUpdate ops h slot r)
       (\<lambda>_ v v'. \<exists>xs. kv_inner v h = Some xs \<and> unat slot < length xs
          \<and> v' = v\<lparr>kv_inner := (kv_inner v)(h \<mapsto> xs[unat slot := r])\<rparr>) (\<lambda>_ _. True))
   \<and> (\<forall>h s r s'. closeMap ops h s = (r, s') \<longrightarrow> closed_map h (kview ops s) (kview ops s'))
   \<and> (\<forall>g h. kview_ok (kview ops) (outerUpdate ops g h)
       (\<lambda>_ v v'. v' = v\<lparr>kv_outer := (kv_outer v)(g \<mapsto> h)\<rparr>) (\<lambda>_ _. True))
   \<and> (\<forall>g. kview_ok (kview ops) (outerDelete ops g)
       (\<lambda>_ v v'. v' = v\<lparr>kv_outer := (kv_outer v)(g := None)\<rparr>) (\<lambda>e v. e = ErrKeyNotExist \<longrightarrow> kv_outer v g = None))
   \<and> (\<forall>g m. kview_ok (kview ops) (metaUpdate ops g m)
       (\<lambda>_ v v'. v' = v\<lparr>kv_meta := (kv_meta v)(g \<mapsto> m)\<rparr>) (\<lambda>_ _. True))
   \<and> (\<forall>g. kview_ok (kview ops) (metaDelete ops g)
       (\<lambda>_ v v'. v' = v\<lparr>kv_meta := (kv_meta v)(g := None)\<rparr>) (\<lambda>e v. e = ErrKeyNotExist \<longrightarrow> kv_meta v g = None))
   \<and> kview_ok (kview ops) (epochLoad ops) (\<lambda>x v v'. v' = v \<and> x = kv_epoch v) (\<lambda>_ _. True)
   \<and> (\<forall>x. kview_ok (kview ops) (epochStore ops x) (\<lambda>_ v v'. v' = v\<lparr>kv_epoch := x\<rparr>) (\<lambda>_ _. True))"

text \<open>The array a sequence of slot writes leaves behind.\<close>

definition slots_array :: "nat \<Rightarrow> 'r \<Rightarrow> (u32 \<times> 'r) list \<Rightarrow> 'r list" where
  "slots_array cap zero ws = fold (\<lambda>(slot, r) xs. xs[unat slot := r]) ws (replicate cap zero)"

section \<open>The interfaces\<close>

locale bumper =
  fixes Bump :: "'s bumper_op" and live :: "'s policy_state \<Rightarrow> bool" and gen :: "'s policy_state \<Rightarrow> u32"
  assumes Bump_done: "live d \<Longrightarrow> Bump d = (Inr x, d') \<Longrightarrow>
      live d' \<and> gen d' = gen d + 1 \<and> pl_installed d' = pl_installed d"
    and Bump_failed: "live d \<Longrightarrow> Bump d = (Inl e, d') \<Longrightarrow>
      live d' \<and> gen d' = gen d \<and> pl_installed d' = pl_installed d \<and> collectCapacityErrors e = []"
    and live_installed: "live (d\<lparr>pl_installed := m\<rparr>) = live d"
    and gen_installed: "gen (d\<lparr>pl_installed := m\<rparr>) = gen d"
begin

text \<open>
  An installed rule set is remembered, and the generation moves exactly when its content changed; when
  the generation cannot be moved nothing is remembered, so the next attempt moves it.
\<close>

lemma applied_spec:
  assumes "live d" "applied Bump g rs d = (res, d')"
  shows "live d' \<and> (case res of
      Inr _ \<Rightarrow> pl_installed d' = (if map_of (pl_installed d) g = Some rs then pl_installed d
                                   else AList.update g rs (pl_installed d))
        \<and> gen d' = (if map_of (pl_installed d) g = Some rs then gen d else gen d + 1)
    | Inl e \<Rightarrow> pl_installed d' = pl_installed d \<and> gen d' = gen d \<and> collectCapacityErrors e = []
        \<and> map_of (pl_installed d) g \<noteq> Some rs)"
proof -
  obtain r d1 where b: "Bump d = (r, d1)" by (cases "Bump d")
  show ?thesis
    using assms(2) b Bump_done[OF assms(1), of "projr r" d1] Bump_failed[OF assms(1), of "projl r" d1] assms(1)
    by (cases r) (auto simp: applied_def invalidator_bump_def api_bind_def live_installed gen_installed split: if_splits)
qed

lemma deleted_spec:
  assumes "live d" "deleted Bump g d = (res, d')"
  shows "live d' \<and> (case res of
      Inr _ \<Rightarrow> pl_installed d' = AList.delete g (pl_installed d) \<and> gen d' = gen d + 1
    | Inl e \<Rightarrow> pl_installed d' = pl_installed d \<and> gen d' = gen d)"
proof -
  obtain r d1 where b: "Bump d = (r, d1)" by (cases "Bump d")
  show ?thesis
    using assms(2) b Bump_done[OF assms(1), of "projr r" d1] Bump_failed[OF assms(1), of "projl r" d1]
    by (cases r) (auto simp: deleted_def invalidator_bump_def api_bind_def live_installed gen_installed)
qed

end

locale rule_table =
  fixes Apply :: "('s, 'r) table_apply" and ok :: "'s policy_state \<Rightarrow> bool"
    and rules :: "'s policy_state \<Rightarrow> u32 \<Rightarrow> 'r list option" and metas :: "'s policy_state \<Rightarrow> u32 \<Rightarrow> 'm option"
    and frame :: "'s policy_state \<Rightarrow> 'f" and cap :: nat and zero :: 'r
  assumes Apply_spec: "ok d \<Longrightarrow> Apply g (\<lambda>upd. write_slots upd ws) meta d = (res, d') \<Longrightarrow>
      (\<And>d1. ok d1 \<Longrightarrow> ok (snd (meta d1)) \<and> rules (snd (meta d1)) = rules d1 \<and> frame (snd (meta d1)) = frame d1) \<Longrightarrow>
      ok d' \<and> frame d' = frame d \<and> (case res of
        Inl e \<Rightarrow> rules d' = rules d \<and> metas d' = metas d \<and> collectCapacityErrors e = []
      | Inr _ \<Rightarrow> rules d' = (rules d)(g \<mapsto> slots_array cap zero ws)
          \<and> (\<exists>d1. ok d1 \<and> metas d1 = metas d \<and> metas d' = metas (snd (meta d1))))"

locale policy_store =
  rule_table Apply ok rules metas frame cap zero + bumper Bump ok gen
  for Apply :: "('s, 'r) table_apply" and ok :: "'s policy_state \<Rightarrow> bool"
    and rules :: "'s policy_state \<Rightarrow> u32 \<Rightarrow> 'r list option" and metas :: "'s policy_state \<Rightarrow> u32 \<Rightarrow> 'm option"
    and frame :: "'s policy_state \<Rightarrow> 'f" and cap :: nat and zero :: 'r
    and Bump :: "'s bumper_op" and gen :: "'s policy_state \<Rightarrow> u32" +
  fixes metaUpd :: "u32 \<Rightarrow> 'm \<Rightarrow> ('s, unit) policy_call"
  assumes metaUpd_spec: "ok d \<Longrightarrow> metaUpd g m d = (r, d') \<Longrightarrow> ok d' \<and> rules d' = rules d \<and> frame d' = frame d
      \<and> metas d' = (case r of Inr _ \<Rightarrow> (metas d)(g \<mapsto> m) | Inl _ \<Rightarrow> metas d)"
    and Bump_tables: "ok d \<Longrightarrow> Bump d = (res, d') \<Longrightarrow> rules d' = rules d \<and> metas d' = metas d"
    and tables_installed: "rules (d\<lparr>pl_installed := i\<rparr>) = rules d" "metas (d\<lparr>pl_installed := i\<rparr>) = metas d"
    and frame_gen: "frame d' = frame d \<Longrightarrow> gen d' = gen d \<and> pl_installed d' = pl_installed d"
begin

lemma applied_tables:
  assumes "ok d" "applied Bump g rs d = (res, d')"
  shows "rules d' = rules d \<and> metas d' = metas d"
proof -
  obtain r d1 where b: "Bump d = (r, d1)" by (cases "Bump d")
  show ?thesis
    using assms(2) b Bump_tables[OF assms(1) b]
    by (cases r) (auto simp: applied_def invalidator_bump_def api_bind_def tables_installed split: if_splits)
qed

text \<open>
  Both stores end this way. Whenever the caller sees success or a capacity error, the data plane
  already holds the new rules and the generation has moved if they differ from the last ones.
\<close>

lemma apply_spec:
  assumes ok: "ok d"
    and run: "api_bind (Apply g (\<lambda>upd. write_slots upd ws) (metaUpd g m)) (\<lambda>_.
                api_bind (applied Bump g inst) (\<lambda>_. report err)) d = (res, d')"
    and res: "case res of Inr _ \<Rightarrow> True | Inl e \<Rightarrow> collectCapacityErrors e \<noteq> []"
    and meta: "\<And>d1. ok d1 \<Longrightarrow> fst (metaUpd g m d1) = Inr ()"
  shows "rules d' = (rules d)(g \<mapsto> slots_array cap zero ws)" "metas d' = (metas d)(g \<mapsto> m)"
    and "map_of (pl_installed d') g = Some inst"
    and "gen d' = (if map_of (pl_installed d) g = Some inst then gen d else gen d + 1)"
    and "ok d'" and "res = (case err of None \<Rightarrow> Inr () | Some e \<Rightarrow> Inl e)"
proof -
  obtain r1 d1 where a: "Apply g (\<lambda>upd. write_slots upd ws) (metaUpd g m) d = (r1, d1)"
    by (cases "Apply g (\<lambda>upd. write_slots upd ws) (metaUpd g m) d")
  have frm: "ok (snd (metaUpd g m e)) \<and> rules (snd (metaUpd g m e)) = rules e \<and> frame (snd (metaUpd g m e)) = frame e"
    if "ok e" for e
    using metaUpd_spec[OF that prod.collapse[symmetric]] by blast
  note A = Apply_spec[OF ok a frm]
  have r1: "\<exists>x. r1 = Inr x"
    using A run a res by (cases r1) (auto simp: api_bind_def)
  then have s1: "rules d1 = (rules d)(g \<mapsto> slots_array cap zero ws)" "ok d1" "gen d1 = gen d"
    "pl_installed d1 = pl_installed d" and m1: "metas d1 = (metas d)(g \<mapsto> m)"
    using A frame_gen[of d1 d] metaUpd_spec[OF _ prod.collapse[symmetric]] meta by auto
  obtain r2 d2 where b: "applied Bump g inst d1 = (r2, d2)" by (cases "applied Bump g inst d1")
  note B = applied_spec[OF s1(2) b] and T = applied_tables[OF s1(2) b]
  have r2: "\<exists>x. r2 = Inr x"
    using B run a b r1 res by (cases r2) (auto simp: api_bind_def)
  have e: "res = (case err of None \<Rightarrow> Inr () | Some e \<Rightarrow> Inl e) \<and> d' = d2"
    using run a b r1 r2 by (auto simp: api_bind_def report_def split: option.splits)
  show "rules d' = (rules d)(g \<mapsto> slots_array cap zero ws)" "metas d' = (metas d)(g \<mapsto> m)" "ok d'"
    "res = (case err of None \<Rightarrow> Inr () | Some e \<Rightarrow> Inl e)"
    using e T s1 m1 B by simp_all
  show "map_of (pl_installed d') g = Some inst"
    "gen d' = (if map_of (pl_installed d) g = Some inst then gen d else gen d + 1)"
    using e B r2 s1 by (auto simp: update_conv')
qed

end

section \<open>The epoch bumps\<close>

lemma kern_spec:
  assumes "kview_ok v m ok bad" "kern wrap m d = (r, d')"
  shows "pl_snapshots d' = pl_snapshots d \<and> pl_installed d' = pl_installed d \<and> pl_current d' = pl_current d
    \<and> (case r of Inr x \<Rightarrow> ok x (v (pl_kernel d)) (v (pl_kernel d'))
       | Inl e \<Rightarrow> \<exists>b. e = wrap b \<and> v (pl_kernel d') = v (pl_kernel d) \<and> bad b (v (pl_kernel d)))"
proof -
  obtain r0 s' where m: "m (pl_kernel d) = (r0, s')" by (cases "m (pl_kernel d)")
  then have "case r0 of Inr x \<Rightarrow> ok x (v (pl_kernel d)) (v s') | Inl e \<Rightarrow> v s' = v (pl_kernel d) \<and> bad e (v (pl_kernel d))"
    using assms(1) unfolding kview_ok_def by blast
  then show ?thesis using assms(2) m by (cases r0) (auto simp: kern_def)
qed

definition view_of :: "('s, 'r, 'm) bpf_ops \<Rightarrow> 's policy_state \<Rightarrow> ('r, 'm) kernel_view" where
  "view_of ops d = kview ops (pl_kernel d)"

definition synced :: "nat \<Rightarrow> 'r \<Rightarrow> ('s, 'r, 'm) bpf_ops \<Rightarrow> 's policy_state \<Rightarrow> bool" where
  "synced cap zero ops d \<longleftrightarrow> bpf_ok cap zero ops \<and> kv_epoch (view_of ops d) = pl_current d"

lemma Epoch_Bump_spec:
  assumes "synced cap zero ops d" "Epoch_Bump ops d = (r, d')"
  shows "synced cap zero ops d' \<and> pl_installed d' = pl_installed d \<and> (case r of
      Inr _ \<Rightarrow> view_of ops d' = (view_of ops d)\<lparr>kv_epoch := pl_current d + 1\<rparr>
    | Inl e \<Rightarrow> view_of ops d' = view_of ops d \<and> collectCapacityErrors e = [])"
proof -
  let ?m = "kern (PublishEpoch (pl_current d + 1)) (epochStore ops (pl_current d + 1))"
  obtain r1 d1 where k: "?m d = (r1, d1)" by (cases "?m d")
  have "kview_ok (kview ops) (epochStore ops (pl_current d + 1))
      (\<lambda>_ v v'. v' = v\<lparr>kv_epoch := pl_current d + 1\<rparr>) (\<lambda>_ _. True)"
    using assms(1) unfolding synced_def bpf_ok_def by blast
  from kern_spec[OF this k] show ?thesis
    using assms k by (cases r1) (auto simp: Epoch_Bump_def Let_def api_bind_def synced_def view_of_def)
qed

interpretation epoch: bumper "Epoch_Bump ops" "synced cap zero ops" "\<lambda>d. kv_epoch (view_of ops d)"
  for ops :: "('s, 'r, 'm) bpf_ops" and cap zero
proof
  fix d d' :: "'s policy_state" and x
  assume a: "synced cap zero ops d" "Epoch_Bump ops d = (Inr x, d')"
  then show "synced cap zero ops d' \<and> kv_epoch (view_of ops d') = kv_epoch (view_of ops d) + 1
      \<and> pl_installed d' = pl_installed d"
    using Epoch_Bump_spec[OF a] by (auto simp: synced_def)
next
  fix d d' :: "'s policy_state" and e
  assume a: "synced cap zero ops d" "Epoch_Bump ops d = (Inl e, d')"
  then show "synced cap zero ops d' \<and> kv_epoch (view_of ops d') = kv_epoch (view_of ops d)
      \<and> pl_installed d' = pl_installed d \<and> collectCapacityErrors e = []"
    using Epoch_Bump_spec[OF a] by simp
qed (simp_all add: synced_def view_of_def)

section \<open>The rotator swaps\<close>

definition same_daemon :: "'s policy_state \<Rightarrow> 's policy_state \<Rightarrow> bool" where
  "same_daemon d d' \<longleftrightarrow> pl_snapshots d' = pl_snapshots d \<and> pl_installed d' = pl_installed d \<and> pl_current d' = pl_current d"

lemma bpf_okD:
  assumes "bpf_ok cap zero ops"
  shows "kview_ok (kview ops) (newMap ops) (\<lambda>h v v'. kv_inner v h = None \<and> h \<notin> ran (kv_outer v)
      \<and> v' = v\<lparr>kv_inner := (kv_inner v)(h \<mapsto> replicate cap zero)\<rparr>) (\<lambda>_ _. True)"
    and "kview_ok (kview ops) (innerUpdate ops h slot r) (\<lambda>_ v v'. \<exists>xs. kv_inner v h = Some xs \<and> unat slot < length xs
      \<and> v' = v\<lparr>kv_inner := (kv_inner v)(h \<mapsto> xs[unat slot := r])\<rparr>) (\<lambda>_ _. True)"
    and "closeMap ops h s = (res, s') \<Longrightarrow> closed_map h (kview ops s) (kview ops s')"
    and "kview_ok (kview ops) (outerUpdate ops g h) (\<lambda>_ v v'. v' = v\<lparr>kv_outer := (kv_outer v)(g \<mapsto> h)\<rparr>) (\<lambda>_ _. True)"
    and "kview_ok (kview ops) (metaUpdate ops g m) (\<lambda>_ v v'. v' = v\<lparr>kv_meta := (kv_meta v)(g \<mapsto> m)\<rparr>) (\<lambda>_ _. True)"
  using assms unfolding bpf_ok_def by blast+

lemma installed_rules_closed:
  assumes "closed_map h v v'"
  shows "installed_rules v' = installed_rules v \<and> kv_meta v' = kv_meta v \<and> kv_epoch v' = kv_epoch v
    \<and> kv_outer v' = kv_outer v"
proof -
  obtain inner where v': "v' = v\<lparr>kv_inner := inner\<rparr>"
    and i: "\<And>g. g \<noteq> h \<or> h \<in> ran (kv_outer v) \<Longrightarrow> inner g = kv_inner v g"
    using assms unfolding closed_map_def by blast
  have "installed_rules v' g = installed_rules v g" for g
  proof (cases "kv_outer v g")
    case (Some h')
    then have "h' \<noteq> h \<or> h \<in> ran (kv_outer v)" by (auto simp: ran_def)
    then show ?thesis using Some i v' by (simp add: installed_rules_def)
  qed (simp add: installed_rules_def v')
  then show ?thesis by (simp add: v' fun_eq_iff)
qed

definition put_inner :: "('r, 'm) kernel_view \<Rightarrow> nat \<Rightarrow> 'r list \<Rightarrow> ('r, 'm) kernel_view" where
  "put_inner v h ys = v\<lparr>kv_inner := (kv_inner v)(h \<mapsto> ys)\<rparr>"

lemma put_inner_simps [simp]:
  "kv_inner (put_inner v h ys) = (kv_inner v)(h \<mapsto> ys)" "kv_outer (put_inner v h ys) = kv_outer v"
  "kv_meta (put_inner v h ys) = kv_meta v" "kv_epoch (put_inner v h ys) = kv_epoch v"
  "put_inner (put_inner v h xs) h ys = put_inner v h ys"
  by (simp_all add: put_inner_def)

lemma put_inner_idem: "kv_inner v h = Some xs \<Longrightarrow> put_inner v h xs = v"
  by (simp add: put_inner_def fun_upd_idem)

lemma installed_rules_fresh:
  "h \<notin> ran (kv_outer v) \<Longrightarrow> installed_rules (put_inner v h ys) = installed_rules v"
  by (auto simp: installed_rules_def fun_eq_iff ran_def split: option.split)

lemma installed_rules_swap:
  assumes "h \<notin> ran (kv_outer v)" "kv_inner v h = Some ys"
  shows "installed_rules (v\<lparr>kv_outer := (kv_outer v)(g \<mapsto> h)\<rparr>) = (installed_rules v)(g \<mapsto> ys)"
  using assms by (auto simp: installed_rules_def fun_eq_iff ran_def split: option.split)

lemma close_spec:
  assumes "bpf_ok cap zero ops" "logged (kern W (closeMap ops h)) d = (res, d')"
  shows "res = Inr () \<and> same_daemon d d' \<and> closed_map h (view_of ops d) (view_of ops d')"
proof -
  obtain r s' where c: "closeMap ops h (pl_kernel d) = (r, s')" by (cases "closeMap ops h (pl_kernel d)")
  from bpf_okD(3)[OF assms(1) c] show ?thesis
    using assms(2) c by (cases r) (auto simp: logged_def kern_def api_bind_def api_try_def view_of_def same_daemon_def)
qed

lemma write_slots_spec:
  assumes ok: "bpf_ok cap zero ops" and W: "\<And>b. collectCapacityErrors (W b) = []"
    and "write_slots (\<lambda>slot r. kern W (innerUpdate ops h slot r)) ws d = (res, d')"
    and "kv_inner (view_of ops d) h = Some xs"
  shows "same_daemon d d' \<and> (\<exists>ys. view_of ops d' = put_inner (view_of ops d) h ys
    \<and> (case res of Inr _ \<Rightarrow> ys = fold (\<lambda>(slot, r) xs. xs[unat slot := r]) ws xs
       | Inl e \<Rightarrow> collectCapacityErrors e = []))"
  using assms(3,4)
proof (induction ws arbitrary: d xs)
  case Nil
  then have d: "d' = d" "res = Inr ()" by auto
  show ?case
  proof (intro conjI exI[of _ xs])
    show "view_of ops d' = put_inner (view_of ops d) h xs"
      unfolding d(1) by (rule put_inner_idem[OF Nil.prems(2), symmetric])
  qed (simp_all add: d same_daemon_def)
next
  case (Cons w ws)
  obtain slot v where w: "w = (slot, v)" by (cases w)
  let ?k = "kern W (innerUpdate ops h slot v)"
  obtain r1 d1 where k: "?k d = (r1, d1)" by (cases "?k d")
  note K = kern_spec[OF bpf_okD(2)[OF ok, of h slot v] k]
  show ?case
  proof (cases r1)
    case (Inl e)
    show ?thesis
    proof -
      have d: "d' = d1" "res = Inl e" using Cons.prems(1) k w Inl by (auto simp: api_bind_def)
      have "view_of ops d1 = view_of ops d" "same_daemon d d1" "collectCapacityErrors e = []"
        using K Inl W by (auto simp: view_of_def same_daemon_def)
      note v = this
      show ?thesis
      proof (intro conjI exI[of _ xs])
        show "view_of ops d' = put_inner (view_of ops d) h xs"
          unfolding d(1) v(1) by (rule put_inner_idem[OF Cons.prems(2), symmetric])
      qed (use v d in simp_all)
    qed
  next
    case (Inr x)
    then have v1: "view_of ops d1 = put_inner (view_of ops d) h (xs[unat slot := v])"
      and sd: "same_daemon d d1"
      using K Cons.prems(2) by (auto simp: view_of_def same_daemon_def put_inner_def)
    have run: "write_slots (\<lambda>slot r. kern W (innerUpdate ops h slot r)) ws d1 = (res, d')"
      using Cons.prems(1) w k Inr by (simp add: api_bind_def)
    obtain ys where "same_daemon d1 d'" "view_of ops d' = put_inner (view_of ops d1) h ys"
      and ys: "case res of Inr _ \<Rightarrow> ys = fold (\<lambda>(slot, r) xs. xs[unat slot := r]) ws (xs[unat slot := v])
        | Inl e \<Rightarrow> collectCapacityErrors e = []"
      using Cons.IH[OF run, of "xs[unat slot := v]"] v1 by auto
    then show ?thesis
      using v1 sd by (intro conjI exI[of _ ys]; cases res) (simp_all add: w same_daemon_def)
  qed
qed

text \<open>Filling a fresh inner map and swapping it in: the old rules stay in place until the swap.\<close>

lemma fill_spec:
  assumes ok: "bpf_ok cap zero ops" and h: "h \<notin> ran (kv_outer (view_of ops d))"
    and i: "kv_inner (view_of ops d) h = Some (replicate cap zero)"
    and run: "api_bind (write_slots (\<lambda>slot r. kern (WriteRules g) (innerUpdate ops h slot r)) ws)
      (\<lambda>_. kern (InstallInner g) (outerUpdate ops g h)) d = (res, d')"
  shows "same_daemon d d' \<and> kv_meta (view_of ops d') = kv_meta (view_of ops d)
    \<and> kv_epoch (view_of ops d') = kv_epoch (view_of ops d)
    \<and> (case res of
        Inl e \<Rightarrow> installed_rules (view_of ops d') = installed_rules (view_of ops d) \<and> collectCapacityErrors e = []
      | Inr _ \<Rightarrow> installed_rules (view_of ops d') = (installed_rules (view_of ops d))(g \<mapsto> slots_array cap zero ws))"
proof -
  let ?w = "write_slots (\<lambda>slot r. kern (WriteRules g) (innerUpdate ops h slot r)) ws"
  obtain r2 d2 where w: "?w d = (r2, d2)" by (cases "?w d")
  obtain ys where sd: "same_daemon d d2"
    and v2: "view_of ops d2 = put_inner (view_of ops d) h ys"
    and ys: "case r2 of Inr _ \<Rightarrow> ys = slots_array cap zero ws | Inl e \<Rightarrow> collectCapacityErrors e = []"
    using write_slots_spec[OF ok _ w i, folded slots_array_def] by auto
  have V2: "installed_rules (view_of ops d2) = installed_rules (view_of ops d)"
    using v2 h by (simp add: installed_rules_fresh)
  show ?thesis
  proof (cases r2)
    case (Inl e)
    then show ?thesis using run w sd ys v2 V2 by (auto simp: api_bind_def)
  next
    case (Inr x)
    let ?i = "kern (InstallInner g) (outerUpdate ops g h)"
    have i: "?i d2 = (res, d')" using run w Inr by (simp add: api_bind_def)
    note I = kern_spec[OF bpf_okD(4)[OF ok, of g h] i]
    show ?thesis
    proof (cases res)
      case Err: (Inl e)
      then show ?thesis using I sd v2 V2 by (auto simp: same_daemon_def view_of_def)
    next
      case Done: (Inr y)
      then have v3: "view_of ops d' = (view_of ops d2)\<lparr>kv_outer := (kv_outer (view_of ops d2))(g \<mapsto> h)\<rparr>"
        using I by (auto simp: view_of_def)
      have "installed_rules (view_of ops d') = (installed_rules (view_of ops d2))(g \<mapsto> ys)"
        unfolding v3 using v2 h by (intro installed_rules_swap) auto
      then show ?thesis using I Done sd v2 v3 V2 ys Inr by (auto simp: same_daemon_def)
    qed
  qed
qed

text \<open>Publishing the metadata and closing the map that was swapped out.\<close>

lemma finish_spec:
  fixes res :: "policy_error + unit"
  assumes ok: "bpf_ok cap zero ops"
    and run: "api_bind (logged meta) (\<lambda>_ d.
        let old = map_of (pl_snapshots d) g; d1 = d\<lparr>pl_snapshots := AList.update g h (pl_snapshots d)\<rparr>
        in (case old of None \<Rightarrow> api_return () | Some k \<Rightarrow> logged (kern (InstallInner g) (closeMap ops k))) d1) d
      = (res, d')"
  defines "d4 \<equiv> snd (meta d)"
  shows "res = Inr () \<and> pl_current d' = pl_current d4 \<and> pl_installed d' = pl_installed d4
    \<and> installed_rules (view_of ops d') = installed_rules (view_of ops d4)
    \<and> kv_meta (view_of ops d') = kv_meta (view_of ops d4) \<and> kv_epoch (view_of ops d') = kv_epoch (view_of ops d4)"
proof -
  have M: "logged meta d = (Inr () :: policy_error + unit, d4)"
    by (cases "meta d") (simp add: d4_def logged_def api_bind_def api_try_def)
  define d5 where "d5 = d4\<lparr>pl_snapshots := AList.update g h (pl_snapshots d4)\<rparr>"
  have tail: "(case map_of (pl_snapshots d4) g of None \<Rightarrow> api_return ()
      | Some k \<Rightarrow> logged (kern (InstallInner g) (closeMap ops k))) d5 = (res, d')"
    using run M by (simp add: api_bind_def Let_def d5_def)
  have v5: "view_of ops d5 = view_of ops d4" by (simp add: d5_def view_of_def)
  show ?thesis
  proof (cases "map_of (pl_snapshots d4) g")
    case None
    then show ?thesis using tail v5 by (auto simp: d5_def)
  next
    case (Some k)
    then have c: "logged (kern (InstallInner g) (closeMap ops k)) d5 = (res, d')" using tail by simp
    from close_spec[OF ok c] installed_rules_closed[of k "view_of ops d5" "view_of ops d'"] v5
    show ?thesis by (auto simp: same_daemon_def d5_def)
  qed
qed

lemma Rotator_Apply_spec:
  assumes s: "synced cap zero ops d"
    and run: "Rotator_Apply ops g (\<lambda>upd. write_slots upd ws) meta d = (res, d')"
    and meta: "\<And>d1. synced cap zero ops d1 \<Longrightarrow> synced cap zero ops (snd (meta d1))
        \<and> installed_rules (view_of ops (snd (meta d1))) = installed_rules (view_of ops d1)
        \<and> (pl_current (snd (meta d1)), pl_installed (snd (meta d1))) = (pl_current d1, pl_installed d1)"
  shows "synced cap zero ops d' \<and> (pl_current d', pl_installed d') = (pl_current d, pl_installed d)
    \<and> (case res of
        Inl e \<Rightarrow> installed_rules (view_of ops d') = installed_rules (view_of ops d)
          \<and> kv_meta (view_of ops d') = kv_meta (view_of ops d) \<and> collectCapacityErrors e = []
      | Inr _ \<Rightarrow> installed_rules (view_of ops d') = (installed_rules (view_of ops d))(g \<mapsto> slots_array cap zero ws)
          \<and> (\<exists>d1. synced cap zero ops d1 \<and> kv_meta (view_of ops d1) = kv_meta (view_of ops d)
               \<and> kv_meta (view_of ops d') = kv_meta (view_of ops (snd (meta d1)))))"
proof (cases "g = 0")
  case True
  then show ?thesis using s run by (auto simp: Rotator_Apply_def)
next
  case False
  have ok: "bpf_ok cap zero ops" using s by (simp add: synced_def)
  let ?new = "kern (CreateInner g) (newMap ops)"
  obtain r1 d1 where n: "?new d = (r1, d1)" by (cases "?new d")
  note N = kern_spec[OF bpf_okD(1)[OF ok] n]
  show ?thesis
  proof (cases r1)
    case (Inl e)
    then show ?thesis
      using run False n N s by (auto simp: Rotator_Apply_def api_bind_def synced_def view_of_def)
  next
    case (Inr h)
    let ?fill = "api_bind (write_slots (\<lambda>slot r. kern (WriteRules g) (innerUpdate ops h slot r)) ws)
      (\<lambda>_. kern (InstallInner g) (outerUpdate ops g h))"
    have v1: "view_of ops d1 = put_inner (view_of ops d) h (replicate cap zero)"
      and h: "h \<notin> ran (kv_outer (view_of ops d))" and sd1: "same_daemon d d1"
      using N Inr by (auto simp: view_of_def same_daemon_def put_inner_def)
    have f1: "installed_rules (view_of ops d1) = installed_rules (view_of ops d)"
      "kv_meta (view_of ops d1) = kv_meta (view_of ops d)" "kv_epoch (view_of ops d1) = kv_epoch (view_of ops d)"
      using v1 h by (simp_all add: installed_rules_fresh)
    obtain r2 d2 where f: "?fill d1 = (r2, d2)" by (cases "?fill d1")
    have F: "same_daemon d d2 \<and> kv_meta (view_of ops d2) = kv_meta (view_of ops d)
        \<and> kv_epoch (view_of ops d2) = kv_epoch (view_of ops d)
        \<and> (case r2 of
            Inl e \<Rightarrow> installed_rules (view_of ops d2) = installed_rules (view_of ops d) \<and> collectCapacityErrors e = []
          | Inr _ \<Rightarrow> installed_rules (view_of ops d2) = (installed_rules (view_of ops d))(g \<mapsto> slots_array cap zero ws))"
      using fill_spec[OF ok _ _ f] v1 h sd1 f1 by (auto simp: same_daemon_def split: sum.split)
    show ?thesis
    proof (cases r2)
      case (Inl e)
      let ?c = "logged (kern (InstallInner g) (closeMap ops h)) d2 :: (policy_error + unit) \<times> _"
      obtain r4 d4 where c: "?c = (r4, d4)" by (cases ?c)
      note C = close_spec[OF ok c]
      then have "d' = d4 \<and> res = Inl e"
        using run False n Inr f Inl c by (auto simp: Rotator_Apply_def api_bind_def[of "api_try _"] api_bind_def api_try_def)
      then show ?thesis
        using C F Inl s installed_rules_closed[of h "view_of ops d2" "view_of ops d4"]
        by (auto simp: synced_def same_daemon_def)
    next
      case Done: (Inr x)
      have s2: "synced cap zero ops d2" using F s by (auto simp: synced_def same_daemon_def)
      have "api_bind (logged meta) (\<lambda>_ d.
          let old = map_of (pl_snapshots d) g; d1 = d\<lparr>pl_snapshots := AList.update g h (pl_snapshots d)\<rparr>
          in (case old of None \<Rightarrow> api_return () | Some k \<Rightarrow> logged (kern (InstallInner g) (closeMap ops k))) d1) d2
        = (res, d')"
        using run False n Inr f Done by (simp add: Rotator_Apply_def api_try_def api_bind_def)
      from finish_spec[OF ok this] show ?thesis
        using meta[OF s2] F Done s2 by (auto simp: synced_def same_daemon_def intro!: exI[of _ d2])
    qed
  qed
qed

definition daemon_frame :: "('s, 'r, 'm) bpf_ops \<Rightarrow> 's policy_state \<Rightarrow> u32 \<times> u32 \<times> (u32, rule_set) gomap" where
  "daemon_frame ops d = (kv_epoch (view_of ops d), pl_current d, pl_installed d)"

lemma daemon_frame_synced:
  "synced cap zero ops d \<Longrightarrow> synced cap zero ops d' \<Longrightarrow>
     daemon_frame ops d' = daemon_frame ops d \<longleftrightarrow> (pl_current d', pl_installed d') = (pl_current d, pl_installed d)"
  by (auto simp: daemon_frame_def synced_def)

interpretation rotator: rule_table "Rotator_Apply ops" "synced cap zero ops" "\<lambda>d. installed_rules (view_of ops d)"
    "\<lambda>d. kv_meta (view_of ops d)" "daemon_frame ops" cap zero
  for ops :: "('s, 'r, 'm) bpf_ops" and cap zero
proof
  fix d d' :: "'s policy_state" and g :: u32 and ws meta res
  assume s: "synced cap zero ops d" and run: "Rotator_Apply ops g (\<lambda>upd. write_slots upd ws) meta d = (res, d')"
    and m: "\<And>d1. synced cap zero ops d1 \<Longrightarrow> synced cap zero ops (snd (meta d1))
      \<and> installed_rules (view_of ops (snd (meta d1))) = installed_rules (view_of ops d1)
      \<and> daemon_frame ops (snd (meta d1)) = daemon_frame ops d1"
  have "synced cap zero ops (snd (meta d1))
        \<and> installed_rules (view_of ops (snd (meta d1))) = installed_rules (view_of ops d1)
        \<and> (pl_current (snd (meta d1)), pl_installed (snd (meta d1))) = (pl_current d1, pl_installed d1)"
    if "synced cap zero ops d1" for d1
    using m[OF that] daemon_frame_synced[OF that] by blast
  from Rotator_Apply_spec[OF s run this] show "synced cap zero ops d' \<and> daemon_frame ops d' = daemon_frame ops d \<and>
      (case res of
        Inl e \<Rightarrow> installed_rules (view_of ops d') = installed_rules (view_of ops d)
          \<and> kv_meta (view_of ops d') = kv_meta (view_of ops d) \<and> collectCapacityErrors e = []
      | Inr _ \<Rightarrow> installed_rules (view_of ops d') = (installed_rules (view_of ops d))(g \<mapsto> slots_array cap zero ws)
          \<and> (\<exists>d1. synced cap zero ops d1 \<and> kv_meta (view_of ops d1) = kv_meta (view_of ops d)
               \<and> kv_meta (view_of ops d') = kv_meta (view_of ops (snd (meta d1)))))"
    using daemon_frame_synced[OF s] by blast
qed

text \<open>The metadata writer both stores use.\<close>

definition meta_write :: "('s, 'r, 'm) bpf_ops \<Rightarrow> u32 \<Rightarrow> 'm \<Rightarrow> ('s, unit) policy_call" where
  "meta_write ops g m = kern (WriteRules g) (metaUpdate ops g m)"

lemma meta_write_spec:
  assumes "synced cap zero ops d" "meta_write ops g m d = (r, d')"
  shows "synced cap zero ops d' \<and> installed_rules (view_of ops d') = installed_rules (view_of ops d)
    \<and> (pl_current d', pl_installed d') = (pl_current d, pl_installed d)
    \<and> kv_meta (view_of ops d') = (case r of Inr _ \<Rightarrow> (kv_meta (view_of ops d))(g \<mapsto> m) | Inl _ \<Rightarrow> kv_meta (view_of ops d))"
proof -
  have ok: "bpf_ok cap zero ops" using assms(1) by (simp add: synced_def)
  from kern_spec[OF bpf_okD(5)[OF ok] assms(2)[unfolded meta_write_def]] show ?thesis
    using assms(1) by (cases r) (auto simp: synced_def view_of_def installed_rules_def fun_eq_iff split: option.split)
qed

interpretation stores: policy_store "Rotator_Apply ops" "synced cap zero ops" "\<lambda>d. installed_rules (view_of ops d)"
    "\<lambda>d. kv_meta (view_of ops d)" "daemon_frame ops" cap zero "Epoch_Bump ops"
    "\<lambda>d. kv_epoch (view_of ops d)" "meta_write ops"
  for ops :: "('s, 'r, 'm) bpf_ops" and cap zero
proof
  fix d d' :: "'s policy_state" and g m r
  assume a: "synced cap zero ops d" "meta_write ops g m d = (r, d')"
  show "synced cap zero ops d' \<and> installed_rules (view_of ops d') = installed_rules (view_of ops d)
      \<and> daemon_frame ops d' = daemon_frame ops d
      \<and> kv_meta (view_of ops d') = (case r of Inl _ \<Rightarrow> kv_meta (view_of ops d) | Inr _ \<Rightarrow> (kv_meta (view_of ops d))(g \<mapsto> m))"
    using meta_write_spec[OF a] daemon_frame_synced[OF a(1)] by blast
next
  fix d d' :: "'s policy_state" and res
  assume a: "synced cap zero ops d" "Epoch_Bump ops d = (res, d')"
  show "installed_rules (view_of ops d') = installed_rules (view_of ops d) \<and> kv_meta (view_of ops d') = kv_meta (view_of ops d)"
    using Epoch_Bump_spec[OF a] by (cases res) (auto simp: installed_rules_def fun_eq_iff split: option.split)
qed (simp_all add: view_of_def daemon_frame_def)

end
