(* ===== verification/Admission.thy ===== *)
theory Admission
  imports Netip
begin

text \<open>
  What the admission webhooks (\<open>controller/internal/webhook/v1alpha1/\<close>) share: field errors with their
  path, the outcome of a request, and the API reader, whose answers are parameters. Error texts are
  values.
\<close>

datatype path_elem = Child string | Index nat

type_synonym field_path = "path_elem list"

datatype field_error =
    Required field_path
  | Invalid field_path string
  | NotSupported field_path string
  | TooMany field_path nat nat
  | Duplicate field_path string
  | InternalError field_path

datatype read_error = ReadNotFound | ReadFailed string

datatype admission_result =
    Admitted
  | Rejected "field_error list"
  | Forbidden string
  | ReaderError read_error

text \<open>The end of every validator: an error list rejects unless it is empty.\<close>

definition admit :: "field_error list \<Rightarrow> admission_result" where
  "admit errs = (if errs = [] then Admitted else Rejected errs)"

lemma admit_Admitted [simp]: "admit errs = Admitted \<longleftrightarrow> errs = []"
  by (simp add: admit_def)

definition shouldCheckReferences :: "int option \<Rightarrow> bool" where
  "shouldCheckReferences deletionTimestamp \<longleftrightarrow> deletionTimestamp = None"

text \<open>The errors of the elements of a list, each with its index.\<close>

definition indexed_errors :: "(nat \<Rightarrow> 'a \<Rightarrow> field_error list) \<Rightarrow> 'a list \<Rightarrow> field_error list" where
  "indexed_errors f xs = concat (map (\<lambda>(i, x). f i x) (enumerate 0 xs))"

lemma indexed_errors_Nil: "indexed_errors f xs = [] \<longleftrightarrow> (\<forall>i < length xs. f i (xs ! i) = [])"
  by (auto simp: indexed_errors_def in_set_enumerate_eq all_set_conv_all_nth nth_enumerate_eq)

end
