(* ===== verification/PolicyAdmission.thy ===== *)
theory PolicyAdmission
  imports Admission PolicyRules
begin

text \<open>
  Admission of NetworkACLs and SecurityGroups (\<open>networkacl_webhook.go\<close>, \<open>securitygroup_webhook.go\<close>), and
  what an admitted spec is worth: it expands without an error and fits its windows.
\<close>

section \<open>NetworkACL\<close>

text \<open>The API reader and the name check of the API machinery.\<close>

record policy_reader =
  rd_isDNSSubdomain :: "string \<Rightarrow> bool"
  rd_getVpc :: "string \<Rightarrow> read_error + unit"
  rd_subnetACLs :: "read_error + (string \<times> string) list"
  rd_l2ACLs :: "read_error + (string \<times> string) list"
  rd_interfaceSGs :: "read_error + (string \<times> string list) list"
  rd_getSGVpc :: "string \<Rightarrow> read_error + string"

definition validatePorts :: "field_path \<Rightarrow> policy_port list \<Rightarrow> field_error list" where
  "validatePorts path ports = indexed_errors (\<lambda>i port.
     let at = path @ [Child ''ports'', Index i];
         hasPort = pp_port port \<noteq> None; hasRange = pp_portRange port \<noteq> None
     in if hasPort = hasRange then [Invalid at ''exactly one of port or portRange must be set'']
        else case pp_portRange port of
          Some r \<Rightarrow> if prs_from r > prs_to r then [Invalid (at @ [Child ''portRange'', Child ''to'']) ''must be >= portRange.from''] else []
        | None \<Rightarrow> []) ports"

definition validateNetworkACLProtocolPorts :: "field_path \<Rightarrow> int_or_string option \<Rightarrow> policy_port list \<Rightarrow> field_error list" where
  "validateNetworkACLProtocolPorts path protocol ports =
     (case ResolveIPProtocol protocol of
        Inl e \<Rightarrow> [Invalid (path @ [Child ''protocol'']) ''protocol does not resolve'']
      | Inr proto \<Rightarrow> if ports \<noteq> [] \<and> \<not> IPProtocolHasPorts proto
                      then [Invalid (path @ [Child ''ports'']) (FormatIPProtocol proto)] else [])
     @ validatePorts path ports"

definition validateNetworkACLRule :: "field_path \<Rightarrow> network_acl_rule \<Rightarrow> field_error list" where
  "validateNetworkACLRule path rule =
     (if nr_action rule = NetworkACLActionAllow \<or> nr_action rule = NetworkACLActionDeny then []
      else if nr_action rule = [] then [Required (path @ [Child ''action''])]
      else [NotSupported (path @ [Child ''action'']) (nr_action rule)])
     @ (if nr_cidr rule = [] then [Required (path @ [Child ''cidr''])]
        else case ParsePrefix (nr_cidr rule) of
          None \<Rightarrow> [Invalid (path @ [Child ''cidr'']) ''invalid CIDR'']
        | Some prefix \<Rightarrow> if \<not> Is4 (pfx_ip prefix) then [Invalid (path @ [Child ''cidr'']) ''only IPv4 CIDRs are supported''] else [])
     @ validateNetworkACLProtocolPorts path (nr_protocol rule) (nr_ports rule)"

definition validateNetworkACLDirectionCapacity :: "field_path \<Rightarrow> network_acl_rule list \<Rightarrow> field_error list" where
  "validateNetworkACLDirectionCapacity path rules =
     (let entries = NetworkACLDirectionEntryCount rules
      in if entries \<le> NetworkACLMaxEntriesPerDirection then []
         else [TooMany path entries NetworkACLMaxEntriesPerDirection])"

text \<open>The loop over the rules with the priorities seen so far.\<close>

fun validateACLRules :: "field_path \<Rightarrow> nat \<Rightarrow> (int, nat) gomap \<Rightarrow> network_acl_rule list \<Rightarrow> field_error list" where
  "validateACLRules path i seenPriorities [] = []"
| "validateACLRules path i seenPriorities (rule # rules) =
     validateNetworkACLRule (path @ [Index i]) rule
     @ (case map_of seenPriorities (nr_priority rule) of
          Some prev \<Rightarrow> Invalid (path @ [Index i, Child ''priority'']) ''duplicates priority''
                        # validateACLRules path (Suc i) seenPriorities rules
        | None \<Rightarrow> validateACLRules path (Suc i) (AList.update (nr_priority rule) i seenPriorities) rules)"

definition validateNetworkACLDirection :: "field_path \<Rightarrow> network_acl_rule list \<Rightarrow> field_error list" where
  "validateNetworkACLDirection path rules =
     validateACLRules path 0 [] rules @ validateNetworkACLDirectionCapacity path rules"

text \<open>The check of the Vpc both validators start with; \<open>Inl\<close> is an error of the reader.\<close>

definition validateVpcRef ::
  "policy_reader \<Rightarrow> string \<Rightarrow> int option \<Rightarrow> string option \<Rightarrow> read_error + field_error list" where
  "validateVpcRef rd vpc deletionTimestamp oldVpc =
     (let vpcPath = [Child ''spec'', Child ''vpc''];
          immutable = (case oldVpc of Some o' \<Rightarrow> if vpc \<noteq> o' then [Invalid vpcPath ''vpc is immutable''] else [] | None \<Rightarrow> [])
      in if \<not> rd_isDNSSubdomain rd vpc then Inr (Invalid vpcPath ''must be a valid DNS subdomain'' # immutable)
         else if shouldCheckReferences deletionTimestamp then
           (case rd_getVpc rd vpc of
              Inl ReadNotFound \<Rightarrow> Inr (Invalid vpcPath ''referenced Vpc does not exist'' # immutable)
            | Inl e \<Rightarrow> Inl e
            | Inr _ \<Rightarrow> Inr immutable)
         else Inr immutable)"

definition validateNetworkACL :: "policy_reader \<Rightarrow> network_acl \<Rightarrow> network_acl option \<Rightarrow> admission_result" where
  "validateNetworkACL rd acl old =
     (case validateVpcRef rd (na_vpc acl) (na_deletionTimestamp acl) (map_option na_vpc old) of
        Inl e \<Rightarrow> ReaderError e
      | Inr errs \<Rightarrow>
          admit (errs
            @ (case na_ingress acl of None \<Rightarrow> [] | Some rules \<Rightarrow>
                 validateNetworkACLDirection [Child ''spec'', Child ''ingress''] rules)
            @ (case na_egress acl of None \<Rightarrow> [] | Some rules \<Rightarrow>
                 validateNetworkACLDirection [Child ''spec'', Child ''egress''] rules)))"

definition NetworkACL_ValidateDelete :: "policy_reader \<Rightarrow> network_acl \<Rightarrow> admission_result" where
  "NetworkACL_ValidateDelete rd acl =
     (case rd_subnetACLs rd of
        Inl e \<Rightarrow> ReaderError e
      | Inr subnets \<Rightarrow>
          (case List.find (\<lambda>(name, ref). ref = na_name acl) subnets of
             Some (name, _) \<Rightarrow> Forbidden name
           | None \<Rightarrow>
               (case rd_l2ACLs rd of
                  Inl e \<Rightarrow> ReaderError e
                | Inr l2s \<Rightarrow>
                    (case List.find (\<lambda>(name, ref). ref = na_name acl) l2s of
                       Some (name, _) \<Rightarrow> Forbidden name
                     | None \<Rightarrow> Admitted))))"

section \<open>SecurityGroup\<close>

definition validateSecurityGroupDirectionCapacity :: "field_path \<Rightarrow> nat \<Rightarrow> field_error list" where
  "validateSecurityGroupDirectionCapacity path entries =
     (if entries \<le> SecurityGroupMaxEntriesPerDirection then []
      else [TooMany path entries SecurityGroupMaxEntriesPerDirection])"

definition validatePeer :: "policy_reader \<Rightarrow> field_path \<Rightarrow> sg_peer \<Rightarrow> field_error list" where
  "validatePeer rd path peer =
     (let hasCIDR = sp_cidr peer \<noteq> []; hasSG = sp_securityGroupRef peer \<noteq> None
      in if hasCIDR = hasSG then [Invalid path ''exactly one of cidr or securityGroupRef must be set'']
         else (if hasCIDR then
                 (case ParsePrefix (sp_cidr peer) of
                    None \<Rightarrow> [Invalid (path @ [Child ''cidr'']) ''invalid CIDR'']
                  | Some prefix \<Rightarrow> if \<not> Is4 (pfx_ip prefix)
                      then [Invalid (path @ [Child ''cidr'']) ''only IPv4 CIDRs are supported''] else [])
               else [])
            @ (case sp_securityGroupRef peer of
                 Some name \<Rightarrow> if \<not> rd_isDNSSubdomain rd name
                   then [Invalid (path @ [Child ''securityGroupRef'', Child ''name'']) ''must be a valid DNS subdomain''] else []
               | None \<Rightarrow> []))"

definition validateProtocolPorts :: "field_path \<Rightarrow> int_or_string option \<Rightarrow> policy_port list \<Rightarrow> field_error list" where
  "validateProtocolPorts path protocol ports =
     (case ResolveIPProtocol protocol of
        Inl e \<Rightarrow> [Invalid (path @ [Child ''protocol'']) ''protocol does not resolve'']
      | Inr proto \<Rightarrow> if ports \<noteq> [] \<and> \<not> IPProtocolHasPorts proto
                      then [Invalid (path @ [Child ''ports'']) (FormatIPProtocol proto)] else [])
     @ validatePorts path ports"

text \<open>\<open>validateIngressRule\<close> and \<open>validateEgressRule\<close> differ in the name of the peers' field.\<close>

definition validateSGRule :: "policy_reader \<Rightarrow> string \<Rightarrow> field_path \<Rightarrow> sg_rule_spec \<Rightarrow> field_error list" where
  "validateSGRule rd peersField path rule =
     (if sr_peers rule = [] then [Required (path @ [Child peersField])] else [])
     @ indexed_errors (\<lambda>i peer. validatePeer rd (path @ [Child peersField, Index i]) peer) (sr_peers rule)
     @ validateProtocolPorts path (sr_protocol rule) (sr_ports rule)"

definition validatePeerSGsInVpc ::
  "policy_reader \<Rightarrow> field_path \<Rightarrow> sg_peer list \<Rightarrow> string \<Rightarrow> string \<Rightarrow> field_error list" where
  "validatePeerSGsInVpc rd path peers vpc selfName = indexed_errors (\<lambda>i peer.
     case sp_securityGroupRef peer of
       None \<Rightarrow> []
     | Some name \<Rightarrow>
         if name = selfName then []
         else case rd_getSGVpc rd name of
           Inl ReadNotFound \<Rightarrow> [Invalid (path @ [Index i, Child ''securityGroupRef'', Child ''name'']) ''referenced SecurityGroup does not exist'']
         | Inl _ \<Rightarrow> [InternalError (path @ [Index i, Child ''securityGroupRef''])]
         | Inr refVpc \<Rightarrow>
             if refVpc \<noteq> vpc then [Invalid (path @ [Index i, Child ''securityGroupRef'', Child ''name'']) refVpc] else []) peers"

definition validateSGDirection :: "policy_reader \<Rightarrow> security_group \<Rightarrow> string \<Rightarrow> string \<Rightarrow> sg_rule_spec list \<Rightarrow> field_error list" where
  "validateSGDirection rd sg dirField peersField rules =
     indexed_errors (\<lambda>i rule.
       validateSGRule rd peersField [Child ''spec'', Child dirField, Index i] rule
       @ (if shouldCheckReferences (sg_deletionTimestamp sg)
          then validatePeerSGsInVpc rd [Child ''spec'', Child dirField, Index i, Child peersField] (sr_peers rule)
                 (sg_vpc sg) (sg_name sg)
          else [])) rules
     @ validateSecurityGroupDirectionCapacity [Child ''spec'', Child dirField] (SecurityGroupEntryCount rules)"

definition validateSecurityGroup :: "policy_reader \<Rightarrow> security_group \<Rightarrow> security_group option \<Rightarrow> admission_result" where
  "validateSecurityGroup rd sg old =
     (case validateVpcRef rd (sg_vpc sg) (sg_deletionTimestamp sg) (map_option sg_vpc old) of
        Inl e \<Rightarrow> ReaderError e
      | Inr errs \<Rightarrow>
          admit (errs
            @ validateSGDirection rd sg ''ingress'' ''from'' (sg_ingress sg)
            @ (case sg_egress sg of None \<Rightarrow> [] | Some rules \<Rightarrow> validateSGDirection rd sg ''egress'' ''to'' rules)))"

definition SecurityGroup_ValidateDelete :: "policy_reader \<Rightarrow> security_group \<Rightarrow> admission_result" where
  "SecurityGroup_ValidateDelete rd sg =
     (case rd_interfaceSGs rd of
        Inl e \<Rightarrow> ReaderError e
      | Inr ifaces \<Rightarrow>
          (case List.find (\<lambda>(name, refs). sg_name sg \<in> set refs) ifaces of
             Some (name, _) \<Rightarrow> Forbidden name
           | None \<Rightarrow> Admitted))"

section \<open>Admitted specs\<close>

definition port_ok :: "policy_port \<Rightarrow> bool" where
  "port_ok p \<longleftrightarrow> (case (pp_port p, pp_portRange p) of
     (Some _, None) \<Rightarrow> True | (None, Some r) \<Rightarrow> prs_from r \<le> prs_to r | _ \<Rightarrow> False)"

definition acl_rule_ok :: "network_acl_rule \<Rightarrow> bool" where
  "acl_rule_ok r \<longleftrightarrow> nr_action r \<in> {NetworkACLActionAllow, NetworkACLActionDeny}
     \<and> (\<exists>prefix. ParsePrefix (nr_cidr r) = Some prefix \<and> Is4 (pfx_ip prefix))
     \<and> (\<exists>proto. ResolveIPProtocol (nr_protocol r) = Inr proto \<and> (nr_ports r \<noteq> [] \<longrightarrow> IPProtocolHasPorts proto))
     \<and> list_all port_ok (nr_ports r)"

definition acl_direction_ok :: "network_acl_rule list \<Rightarrow> bool" where
  "acl_direction_ok rules \<longleftrightarrow> list_all acl_rule_ok rules \<and> distinct (map nr_priority rules)
     \<and> NetworkACLDirectionEntryCount rules \<le> NetworkACLMaxEntriesPerDirection"

definition sg_peer_ok :: "sg_peer \<Rightarrow> bool" where
  "sg_peer_ok p \<longleftrightarrow>
     (if sp_cidr p \<noteq> [] then sp_securityGroupRef p = None
        \<and> (\<exists>prefix. ParsePrefix (sp_cidr p) = Some prefix \<and> Is4 (pfx_ip prefix))
      else sp_securityGroupRef p \<noteq> None)"

definition sg_rule_ok :: "sg_rule_spec \<Rightarrow> bool" where
  "sg_rule_ok r \<longleftrightarrow> sr_peers r \<noteq> [] \<and> list_all sg_peer_ok (sr_peers r)
     \<and> (\<exists>proto. ResolveIPProtocol (sr_protocol r) = Inr proto \<and> (sr_ports r \<noteq> [] \<longrightarrow> IPProtocolHasPorts proto))
     \<and> list_all port_ok (sr_ports r)"

definition sg_direction_ok :: "sg_rule_spec list \<Rightarrow> bool" where
  "sg_direction_ok rules \<longleftrightarrow> list_all sg_rule_ok rules
     \<and> SecurityGroupEntryCount rules \<le> SecurityGroupMaxEntriesPerDirection"

lemma validatePorts_Nil: "validatePorts path ports = [] \<longleftrightarrow> list_all port_ok ports"
proof -
  have "(let at = path @ [Child ''ports'', Index i]; hasPort = pp_port port \<noteq> None; hasRange = pp_portRange port \<noteq> None
     in if hasPort = hasRange then [Invalid at ''exactly one of port or portRange must be set'']
        else case pp_portRange port of
          Some r \<Rightarrow> if prs_from r > prs_to r then [Invalid (at @ [Child ''portRange'', Child ''to'']) ''must be >= portRange.from''] else []
        | None \<Rightarrow> []) = [] \<longleftrightarrow> port_ok port" for i port
    by (cases "pp_port port"; cases "pp_portRange port") (auto simp: port_ok_def Let_def)
  then show ?thesis unfolding validatePorts_def indexed_errors_Nil list_all_length by simp
qed

lemma validateNetworkACLRule_Nil: "validateNetworkACLRule path r = [] \<longleftrightarrow> acl_rule_ok r"
proof -
  have "ParsePrefix [] = None" by (simp add: ParsePrefix_def last_slash_def)
  then show ?thesis
    by (auto simp: validateNetworkACLRule_def acl_rule_ok_def validateNetworkACLProtocolPorts_def validatePorts_Nil
        split: option.splits sum.splits if_splits)
qed

lemma validateACLRules_Nil:
  "validateACLRules path i seen rules = [] \<longleftrightarrow>
     list_all acl_rule_ok rules \<and> distinct (map nr_priority rules)
   \<and> (\<forall>r \<in> set rules. map_of seen (nr_priority r) = None)"
  by (induction rules arbitrary: i seen)
    (auto simp: validateNetworkACLRule_Nil update_conv' image_iff split: option.splits if_splits)

lemma validateNetworkACLDirection_Nil: "validateNetworkACLDirection path rules = [] \<longleftrightarrow> acl_direction_ok rules"
  by (auto simp: validateNetworkACLDirection_def validateNetworkACLDirectionCapacity_def Let_def acl_direction_ok_def
      validateACLRules_Nil)

lemma admitted_acl_directions:
  assumes "validateNetworkACL rd acl old = Admitted"
  shows "\<And>rules. na_ingress acl = Some rules \<Longrightarrow> acl_direction_ok rules"
    and "\<And>rules. na_egress acl = Some rules \<Longrightarrow> acl_direction_ok rules"
  using assms
  by (auto simp: validateNetworkACL_def validateNetworkACLDirection_Nil split: sum.splits option.splits)

lemma validatePeer_Nil: "validatePeer rd path p = [] \<Longrightarrow> sg_peer_ok p"
  by (auto simp: validatePeer_def sg_peer_ok_def Let_def split: option.splits if_splits)

lemma validateSGRule_Nil:
  assumes "validateSGRule rd f path r = []"
  shows "sg_rule_ok r"
proof -
  have "list_all sg_peer_ok (sr_peers r)"
    using assms unfolding validateSGRule_def append_is_Nil_conv indexed_errors_Nil list_all_length
    by (blast intro: validatePeer_Nil)
  then show ?thesis
    using assms by (auto simp: validateSGRule_def sg_rule_ok_def validateProtocolPorts_def validatePorts_Nil
        split: sum.splits if_splits)
qed

lemma validateSGDirection_Nil:
  assumes "validateSGDirection rd sg f g rules = []"
  shows "sg_direction_ok rules"
proof -
  have "list_all sg_rule_ok rules"
    using assms unfolding validateSGDirection_def append_is_Nil_conv indexed_errors_Nil list_all_length
    by (blast intro: validateSGRule_Nil)
  then show ?thesis
    using assms by (auto simp: validateSGDirection_def sg_direction_ok_def validateSecurityGroupDirectionCapacity_def
        split: if_splits)
qed

lemma admitted_sg_directions:
  assumes "validateSecurityGroup rd sg old = Admitted"
  shows "sg_direction_ok (sg_ingress sg)" "\<And>rules. sg_egress sg = Some rules \<Longrightarrow> sg_direction_ok rules"
  using assms
  by (auto simp: validateSecurityGroup_def intro: validateSGDirection_Nil split: sum.splits option.splits)

lemma expandACLRule_ok: "acl_rule_ok r \<Longrightarrow> \<exists>zs. expandACLRule dir r = Inr zs"
  by (auto simp: acl_rule_ok_def expandACLRule_def)

lemma expandRule_ok: "sg_rule_ok r \<Longrightarrow> \<exists>zs. expandRule dir r resolver = Inr zs"
  by (auto simp: sg_rule_ok_def expandRule_def)

lemma expandACLDirection_ok:
  assumes "\<And>rules. d = Some rules \<Longrightarrow> acl_direction_ok rules"
  shows "\<exists>zs. expandACLDirection dir d = Inr zs"
proof (cases d)
  case (Some rules)
  then have "\<forall>r \<in> set rules. acl_rule_ok r" using assms by (auto simp: acl_direction_ok_def list_all_iff)
  then obtain zs where "expandAll (expandACLRule dir) rules = Inr zs"
    using expandAll_ok[of rules "expandACLRule dir"] expandACLRule_ok by blast
  then show ?thesis using Some by (simp add: expandACLDirection_def)
qed (simp add: expandACLDirection_def)

lemma admitted_acl_fits:
  assumes "validateNetworkACL rd acl old = Admitted" "na_aclID acl \<noteq> 0"
  obtains rs where "ExpandNetworkACL acl = Inr rs" "length (rs_ingress rs) \<le> NetworkACLMaxEntriesPerDirection"
    "length (rs_egress rs) \<le> NetworkACLMaxEntriesPerDirection"
proof -
  obtain i e where "expandACLDirection DirIngress (na_ingress acl) = Inr i"
    "expandACLDirection DirEgress (na_egress acl) = Inr e"
    using expandACLDirection_ok admitted_acl_directions[OF assms(1)] by metis
  then obtain rs where rs: "ExpandNetworkACL acl = Inr rs"
    using assms(2) by (simp add: ExpandNetworkACL_def)
  have "NetworkACLDirectionEntryCount (case d of None \<Rightarrow> [] | Some r \<Rightarrow> r) \<le> NetworkACLMaxEntriesPerDirection"
    if "\<And>rules. d = Some rules \<Longrightarrow> acl_direction_ok rules" for d
    using that by (cases d) (auto simp: acl_direction_ok_def NetworkACLDirectionEntryCount_def sumEntryCount_def)
  then show ?thesis
    using that[OF rs] ExpandNetworkACL_length[OF rs] admitted_acl_directions[OF assms(1)] le_trans by metis
qed

lemma admitted_sg_fits:
  assumes "validateSecurityGroup rd sg old = Admitted" "sg_groupID sg \<noteq> 0"
  obtains rs where "ExpandSecurityGroup sg peers = Inr rs" "length (rs_ingress rs) \<le> SecurityGroupMaxEntriesPerDirection"
    "length (rs_egress rs) \<le> SecurityGroupMaxEntriesPerDirection"
proof -
  let ?e = "case sg_egress sg of None \<Rightarrow> [] | Some r \<Rightarrow> r"
  have ok: "sg_direction_ok (sg_ingress sg)" "sg_direction_ok ?e"
    using admitted_sg_directions[OF assms(1)]
    by (auto simp: sg_direction_ok_def SecurityGroupEntryCount_def sumEntryCount_def split: option.split)
  have "\<exists>zs. expandAll (\<lambda>rule. expandRule dir rule peers) rules = Inr zs" if "sg_direction_ok rules" for rules dir
    using that by (intro expandAll_ok expandRule_ok) (auto simp: sg_direction_ok_def list_all_iff)
  with ok obtain i e where "expandAll (\<lambda>rule. expandRule DirIngress rule peers) (sg_ingress sg) = Inr i"
    "expandAll (\<lambda>rule. expandRule DirEgress rule peers) ?e = Inr e"
    by blast
  then obtain rs where rs: "ExpandSecurityGroup sg peers = Inr rs"
    using assms(2) by (cases "sg_egress sg") (auto simp: ExpandSecurityGroup_def)
  show ?thesis
    using that[OF rs] ExpandSecurityGroup_length[OF rs] ok by (simp add: sg_direction_ok_def)
qed

text \<open>
  C18. What admission accepts, the data plane can install: an admitted NetworkACL or SecurityGroup with an
  identifier expands without an error, whatever the peers resolve to, and each direction of the result
  fits the window of the BPF rule array.
\<close>

theorem admitted_policy_fits:
  assumes "validateNetworkACL rd acl oldAcl = Admitted" "na_aclID acl \<noteq> 0"
    and "validateSecurityGroup rd sg oldSg = Admitted" "sg_groupID sg \<noteq> 0"
  shows "(\<exists>rs. ExpandNetworkACL acl = Inr rs \<and> length (rs_ingress rs) \<le> NetworkACLMaxEntriesPerDirection
            \<and> length (rs_egress rs) \<le> NetworkACLMaxEntriesPerDirection)
    \<and> (\<exists>rs. ExpandSecurityGroup sg peers = Inr rs \<and> length (rs_ingress rs) \<le> SecurityGroupMaxEntriesPerDirection
            \<and> length (rs_egress rs) \<le> SecurityGroupMaxEntriesPerDirection)"
  by (rule conjI, rule admitted_acl_fits[OF assms(1,2)], intro exI conjI, assumption+)
    (rule admitted_sg_fits[OF assms(3,4), of peers], intro exI conjI, assumption+)

definition ex_reader :: policy_reader where
  "ex_reader = \<lparr>rd_isDNSSubdomain = (\<lambda>_. True), rd_getVpc = (\<lambda>_. Inr ()), rd_subnetACLs = Inr [], rd_l2ACLs = Inr [],
     rd_interfaceSGs = Inr [], rd_getSGVpc = (\<lambda>_. Inr ''v'')\<rparr>"

text \<open>Deny 10.0.0.0/8 before allowing TCP ports 80 and 8000 to 8080 from anywhere.\<close>

definition ex_acl :: network_acl where
  "ex_acl = \<lparr>na_name = ''acl'', na_deletionTimestamp = None, na_vpc = ''v'',
     na_ingress = Some
       [\<lparr>nr_priority = 200, nr_action = ''allow'', nr_protocol = Some (StrVal ''tcp''), nr_cidr = ''0.0.0.0/0'',
         nr_ports = [\<lparr>pp_port = Some 80, pp_portRange = None\<rparr>,
                     \<lparr>pp_port = None, pp_portRange = Some \<lparr>prs_from = 8000, prs_to = 8080\<rparr>\<rparr>]\<rparr>,
        \<lparr>nr_priority = 100, nr_action = ''deny'', nr_protocol = Some (StrVal ''all''), nr_cidr = ''10.0.0.0/8'', nr_ports = []\<rparr>],
     na_egress = None, na_aclID = 7, na_rulesetVersion = 1\<rparr>"

definition ex_sg :: security_group where
  "ex_sg = \<lparr>sg_name = ''sg'', sg_deletionTimestamp = None, sg_vpc = ''v'',
     sg_ingress =
       [\<lparr>sr_peers = [\<lparr>sp_cidr = ''10.0.0.0/8'', sp_securityGroupRef = None\<rparr>,
                     \<lparr>sp_cidr = [], sp_securityGroupRef = Some ''db''\<rparr>],
         sr_protocol = Some (IntVal 17), sr_ports = [\<lparr>pp_port = Some 53, pp_portRange = None\<rparr>]\<rparr>],
     sg_egress = Some [], sg_groupID = 3, sg_rulesetVersion = 1\<rparr>"

theorem admitted_policy_fits_witness:
  "validateNetworkACL ex_reader ex_acl None = Admitted \<and> validateSecurityGroup ex_reader ex_sg None = Admitted
   \<and> (\<exists>rs. ExpandNetworkACL ex_acl = Inr rs \<and> length (rs_ingress rs) \<le> NetworkACLMaxEntriesPerDirection)
   \<and> (\<exists>rs. ExpandSecurityGroup ex_sg (MapPeerResolver [(''db'', 9)]) = Inr rs
        \<and> length (rs_ingress rs) \<le> SecurityGroupMaxEntriesPerDirection)"
proof -
  have a: "validateNetworkACL ex_reader ex_acl None = Admitted" by code_simp
  have s: "validateSecurityGroup ex_reader ex_sg None = Admitted" by code_simp
  have i: "na_aclID ex_acl \<noteq> 0" "sg_groupID ex_sg \<noteq> 0" by (simp_all add: ex_acl_def ex_sg_def)
  show ?thesis
    using a s admitted_policy_fits[OF a i(1) s i(2), of "MapPeerResolver [(''db'', 9)]"] by blast
qed

end
