(* ===== verification/PolicyEndToEnd.thy ===== *)
theory PolicyEndToEnd
  imports PolicyTable PolicyAdmission
begin

text \<open>
  From the policy a user writes to the verdict on a packet: admission, expansion, the stores, the
  rotator and the evaluators of the data plane together implement the rules of a NetworkACL and of a
  SecurityGroup.
\<close>

section \<open>The layout of a rule array\<close>

lemma fold_slots:
  fixes b :: u32
  assumes "unat b + n + length rs \<le> length xs" "length xs < 2 ^ 32"
  shows "fold (\<lambda>(slot, r) xs. xs[unat slot := r]) (map (\<lambda>(i, r). (b + of_nat i, enc r)) (enumerate n rs)) xs
    = take (unat b + n) xs @ map enc rs @ drop (unat b + n + length rs) xs"
  using assms
proof (induction rs arbitrary: n xs)
  case (Cons r rs)
  have "unat (of_nat n :: u32) = n" using Cons.prems by (simp add: unat_of_nat)
  then have u: "unat (b + of_nat n) = unat b + n"
    using Cons.prems by (simp add: unat_plus_if_size word_size)
  let ?xs = "xs[unat b + n := enc r]"
  have "take (unat b + Suc n) ?xs = take (unat b + n) xs @ [enc r]"
    using Cons.prems by (simp add: take_Suc_conv_app_nth)
  moreover have "drop (unat b + Suc n + length rs) ?xs = drop (unat b + n + length (r # rs)) xs" by simp
  ultimately show ?case using Cons.IH[of "Suc n" ?xs] Cons.prems u by simp
qed simp

definition window_array :: "nat \<Rightarrow> ('a \<Rightarrow> 'r) \<Rightarrow> 'r \<Rightarrow> 'a list \<Rightarrow> 'a list \<Rightarrow> 'r list" where
  "window_array per enc zero ingress egress =
     map enc ingress @ replicate (per - length ingress) zero @ map enc egress @ replicate (per - length egress) zero"

lemma slots_array_windows:
  assumes "length (rs_ingress rs) \<le> per" "length (rs_egress rs) \<le> per" "2 * per < 2 ^ 32"
  shows "slots_array (2 * per) zero (concat (map (window_slots enc) (windows rs per))) =
    window_array per enc zero (rs_ingress rs) (rs_egress rs)"
proof -
  have u: "unat (of_nat per :: u32) = per" using assms(3) by (simp add: unat_of_nat)
  let ?a = "map enc (rs_ingress rs) @ replicate (2 * per - length (rs_ingress rs)) zero"
  have "slots_array (2 * per) zero (concat (map (window_slots enc) (windows rs per))) =
      take per ?a @ map enc (rs_egress rs) @ drop (per + length (rs_egress rs)) ?a"
    using assms u fold_slots[of 0 0 "rs_ingress rs" "replicate (2 * per) zero" enc]
      fold_slots[of "of_nat per" 0 "rs_egress rs" ?a enc]
    by (simp add: slots_array_def windows_def window_slots_def)
  also have "\<dots> = window_array per enc zero (rs_ingress rs) (rs_egress rs)"
    using assms by (simp add: window_array_def)
  finally show ?thesis .
qed

lemma window_array_nth:
  assumes "length ingress \<le> per" "length egress \<le> per"
  shows "i < length ingress \<Longrightarrow> window_array per enc zero ingress egress ! i = enc (ingress ! i)"
    and "i < length egress \<Longrightarrow> window_array per enc zero ingress egress ! (per + i) = enc (egress ! i)"
    and "length (window_array per enc zero ingress egress) = 2 * per"
  using assms by (auto simp: window_array_def nth_append)

text \<open>The window of a direction, as the scanners address it.\<close>

definition dir_base :: "nat \<Rightarrow> direction \<Rightarrow> u32" where
  "dir_base per dir = (case dir of DirIngress \<Rightarrow> 0 | DirEgress \<Rightarrow> of_nat per)"

definition dir_rules :: "rule_set \<Rightarrow> direction \<Rightarrow> rule list" where
  "dir_rules rs dir = (case dir of DirIngress \<Rightarrow> rs_ingress rs | DirEgress \<Rightarrow> rs_egress rs)"

lemma window_lookup:
  assumes "length (rs_ingress rs) \<le> per" "length (rs_egress rs) \<le> per" "2 * per < 2 ^ 32"
    and "i < length (dir_rules rs dir)"
  shows "array_lookup (window_array per enc zero (rs_ingress rs) (rs_egress rs)) (dir_base per dir + of_nat i) =
    Some (enc (dir_rules rs dir ! i))"
proof -
  have u: "unat (of_nat per :: u32) = per" "unat (of_nat i :: u32) = i"
    using assms by (auto simp: unat_of_nat dir_rules_def split: direction.splits)
  then have "unat (dir_base per dir + of_nat i) = (case dir of DirIngress \<Rightarrow> i | DirEgress \<Rightarrow> per + i)"
    using assms by (auto simp: dir_base_def dir_rules_def unat_plus_if_size word_size split: direction.splits)
  then show ?thesis
    using assms by (auto simp: array_lookup_def dir_rules_def window_array_nth[OF assms(1,2)] split: direction.splits)
qed

section \<open>The scanners\<close>

definition flat_matches :: "rule \<Rightarrow> u8 \<Rightarrow> u16 \<Rightarrow> u32 \<Rightarrow> bool" where
  "flat_matches r proto dport peer_ip \<longleftrightarrow> policy_proto_matches (ru_proto r) proto
     \<and> policy_port_matches (ru_portLo r) (ru_portHi r) dport \<and> policy_cidr_matches (ru_peerV4 r) (ru_peerPrefixlen r) peer_ip"

definition first_verdict :: "rule option \<Rightarrow> int" where
  "first_verdict m = (case m of Some r \<Rightarrow> (case ru_verdict r of VerdictAllow \<Rightarrow> ACL_VERDICT_ALLOW | VerdictDeny \<Rightarrow> ACL_VERDICT_DENY)
     | None \<Rightarrow> ACL_VERDICT_DENY)"

lemma acl_scan_first:
  assumes l: "\<And>i. i < length rs \<Longrightarrow> array_lookup inner (base + of_nat i) = Some (acl_encode (rs ! i))"
    and c: "unat cnt = length rs" and "k \<le> length rs" "length rs \<le> m"
  shows "acl_scan inner base cnt proto dport peer [k..<m] =
    first_verdict (List.find (\<lambda>r. flat_matches r proto dport peer) (drop k rs))"
  using assms(3,4)
proof (induction "m - k" arbitrary: k)
  case 0
  then show ?case by (simp add: first_verdict_def)
next
  case (Suc n)
  then have k: "[k..<m] = k # [Suc k..<m]" by (simp add: upt_conv_Cons)
  show ?case
  proof (cases "k < length rs")
    case True
    then have d: "drop k rs = rs ! k # drop (Suc k) rs" by (simp add: Cons_nth_drop_Suc)
    have "acl_scan inner base cnt proto dport peer [Suc k..<m] =
        first_verdict (List.find (\<lambda>r. flat_matches r proto dport peer) (drop (Suc k) rs))"
      using Suc True by (intro Suc.hyps(1)) auto
    then show ?thesis
      using True c l[OF True]
      by (cases "ru_verdict (rs ! k)")
        (auto simp: k d acl_encode_def flat_matches_def first_verdict_def policy_verdict_defs)
  next
    case False
    then show ?thesis unfolding k using Suc.prems c by (simp add: first_verdict_def)
  qed
qed

lemma find_sorted:
  assumes "List.find P ys = Some x" "sorted (map f ys)"
  shows "x \<in> set ys \<and> P x \<and> (\<forall>y \<in> set ys. P y \<longrightarrow> f x \<le> f y)"
  using assms by (induction ys) (auto split: if_splits)

lemma find_sort_key:
  "List.find P (sort_key f xs) = Some x \<Longrightarrow> x \<in> set xs \<and> P x \<and> (\<forall>y \<in> set xs. P y \<longrightarrow> f x \<le> f y)"
  using find_sorted[of P "sort_key f xs" x f] by simp

section \<open>What a NetworkACL asks for\<close>

definition port_covers :: "policy_port \<Rightarrow> u16 \<Rightarrow> bool" where
  "port_covers p dport \<longleftrightarrow> (case pp_port p of
     Some n \<Rightarrow> uint dport = n
   | None \<Rightarrow> (case pp_portRange p of Some r \<Rightarrow> prs_from r \<le> uint dport \<and> uint dport \<le> prs_to r | None \<Rightarrow> False))"

definition proto_covers :: "int_or_string option \<Rightarrow> u8 \<Rightarrow> bool" where
  "proto_covers p proto \<longleftrightarrow> ResolveIPProtocol p = Inr IPProtocolAny \<or> ResolveIPProtocol p = Inr (ucast proto)"

definition cidr_covers :: "string \<Rightarrow> u32 \<Rightarrow> bool" where
  "cidr_covers cidr a \<longleftrightarrow> (\<exists>prefix. ParsePrefix cidr = Some prefix \<and> Contains prefix (V4 a))"

definition acl_covers :: "network_acl_rule \<Rightarrow> u8 \<Rightarrow> u16 \<Rightarrow> u32 \<Rightarrow> bool" where
  "acl_covers r proto dport a \<longleftrightarrow> proto_covers (nr_protocol r) proto
     \<and> (nr_ports r = [] \<or> (\<exists>p \<in> set (nr_ports r). port_covers p dport)) \<and> cidr_covers (nr_cidr r) a"

text \<open>The verdict of one direction: the covering rule of the least priority decides, and nothing covering denies.\<close>

definition acl_decides :: "network_acl_rule list option \<Rightarrow> u8 \<Rightarrow> u16 \<Rightarrow> u32 \<Rightarrow> int \<Rightarrow> bool" where
  "acl_decides rules proto dport a v \<longleftrightarrow> (case rules of
     None \<Rightarrow> v = ACL_VERDICT_PASS
   | Some rs \<Rightarrow>
       (\<exists>r \<in> set rs. acl_covers r proto dport a
          \<and> (\<forall>r' \<in> set rs. acl_covers r' proto dport a \<longrightarrow> nr_priority r \<le> nr_priority r')
          \<and> v = (if nr_action r = NetworkACLActionDeny then ACL_VERDICT_DENY else ACL_VERDICT_ALLOW))
     \<or> (\<forall>r \<in> set rs. \<not> acl_covers r proto dport a) \<and> v = ACL_VERDICT_DENY)"

text \<open>The ranges the schema of the resource enforces.\<close>

definition port_in_range :: "policy_port \<Rightarrow> bool" where
  "port_in_range p \<longleftrightarrow> (\<forall>n. pp_port p = Some n \<longrightarrow> 1 \<le> n \<and> n \<le> 65535)
     \<and> (\<forall>r. pp_portRange p = Some r \<longrightarrow> 1 \<le> prs_from r \<and> prs_from r \<le> 65535 \<and> 1 \<le> prs_to r \<and> prs_to r \<le> 65535)"

definition acl_schema :: "network_acl_rule list option \<Rightarrow> bool" where
  "acl_schema rules \<longleftrightarrow> (\<forall>rs. rules = Some rs \<longrightarrow>
     (\<forall>r \<in> set rs. 1 \<le> nr_priority r \<and> nr_priority r \<le> 65535 \<and> list_all port_in_range (nr_ports r)))"

lemma u16_of_int: "0 \<le> n \<Longrightarrow> n \<le> 65535 \<Longrightarrow> uint (word_of_int n :: u16) = n"
  by (simp add: uint_word_of_int)

lemma port_range_covers:
  assumes "port_ok p" "port_in_range p"
  shows "(\<exists>(lo, hi) \<in> set (port_range_of p). policy_port_matches lo hi dport) \<longleftrightarrow> port_covers p dport"
proof -
  have "policy_port_matches (word_of_int a) (word_of_int b) dport \<longleftrightarrow> a \<le> uint dport \<and> uint dport \<le> b"
    if "1 \<le> a" "a \<le> 65535" "1 \<le> b" "b \<le> 65535" for a b
  proof -
    have "(word_of_int a :: u16) \<noteq> 0" using that u16_of_int[of a] by auto
    then show ?thesis using that by (simp add: policy_port_matches_def word_le_def u16_of_int)
  qed
  then show ?thesis
    using assms by (auto simp: port_range_of_def port_covers_def port_ok_def port_in_range_def split: option.splits)
qed

lemma ports_covers:
  assumes "list_all port_ok ps" "list_all port_in_range ps"
  shows "(\<exists>(lo, hi) \<in> set (networkACLPortsToRanges ps). policy_port_matches lo hi dport) \<longleftrightarrow>
      ps = [] \<or> (\<exists>p \<in> set ps. port_covers p dport)"
    and "(\<exists>(lo, hi) \<in> set (portsToRanges ps). policy_port_matches lo hi dport) \<longleftrightarrow>
      ps = [] \<or> (\<exists>p \<in> set ps. port_covers p dport)"
proof -
  have "policy_port_matches PortAnyLo PortAnyHi dport"
    by (simp add: policy_port_matches_def PortAnyLo_def PortAnyHi_def)
  moreover have "(\<exists>(lo, hi) \<in> set (concat (map port_range_of ps)). policy_port_matches lo hi dport) \<longleftrightarrow>
      (\<exists>p \<in> set ps. port_covers p dport)"
    using assms port_range_covers[of _ dport] by (fastforce simp: list_all_iff)
  ultimately show "(\<exists>(lo, hi) \<in> set (networkACLPortsToRanges ps). policy_port_matches lo hi dport) \<longleftrightarrow>
      ps = [] \<or> (\<exists>p \<in> set ps. port_covers p dport)"
    and "(\<exists>(lo, hi) \<in> set (portsToRanges ps). policy_port_matches lo hi dport) \<longleftrightarrow>
      ps = [] \<or> (\<exists>p \<in> set ps. port_covers p dport)"
    by (auto simp: networkACLPortsToRanges_def portsToRanges_def)
qed

lemma proto_covers_resolved:
  "ResolveIPProtocol p = Inr n \<Longrightarrow> policy_proto_matches n proto \<longleftrightarrow> proto_covers p proto"
  by (auto simp: policy_proto_matches_def proto_covers_def IPProtocolAny_def)

section \<open>Expansion keeps the meaning\<close>

lemma expandACLRule_parts:
  assumes "expandACLRule dir r = Inr zs"
  obtains prefix n where "ParsePrefix (nr_cidr r) = Some prefix" "Is4 (pfx_ip prefix)"
    "ResolveIPProtocol (nr_protocol r) = Inr n"
    "zs = map (\<lambda>(lo, hi). \<lparr>ru_direction = dir, ru_proto = n, ru_portLo = lo, ru_portHi = hi,
        ru_peerKind = PeerKindCIDR, ru_peerV4 = le_word (As4 (pfx_ip (Masked prefix))),
        ru_peerPrefixlen = word_of_int (pfx_bits prefix), ru_verdict = networkACLActionToVerdict (nr_action r),
        ru_priority = word_of_int (nr_priority r)\<rparr>) (networkACLPortsToRanges (nr_ports r))"
  using assms by (simp add: expandACLRule_def split: option.split_asm if_split_asm sum.split_asm)

lemma expandACLRule_fields:
  "expandACLRule dir r = Inr zs \<Longrightarrow> z \<in> set zs \<Longrightarrow>
     ru_priority z = word_of_int (nr_priority r) \<and> ru_verdict z = networkACLActionToVerdict (nr_action r)"
  by (erule expandACLRule_parts) auto

lemma expandACLRule_covers:
  assumes x: "expandACLRule dir r = Inr zs" and ok: "acl_rule_ok r" "list_all port_in_range (nr_ports r)"
  shows "(\<exists>z \<in> set zs. flat_matches z proto dport (bpf_htonl a)) \<longleftrightarrow> acl_covers r proto dport a"
proof -
  obtain prefix n where p: "ParsePrefix (nr_cidr r) = Some prefix" "Is4 (pfx_ip prefix)"
    and n: "ResolveIPProtocol (nr_protocol r) = Inr n"
    and zs: "zs = map (\<lambda>(lo, hi). \<lparr>ru_direction = dir, ru_proto = n, ru_portLo = lo, ru_portHi = hi,
        ru_peerKind = PeerKindCIDR, ru_peerV4 = le_word (As4 (pfx_ip (Masked prefix))),
        ru_peerPrefixlen = word_of_int (pfx_bits prefix), ru_verdict = networkACLActionToVerdict (nr_action r),
        ru_priority = word_of_int (nr_priority r)\<rparr>) (networkACLPortsToRanges (nr_ports r))"
    using x by (rule expandACLRule_parts)
  have "(\<exists>z \<in> set zs. flat_matches z proto dport (bpf_htonl a)) \<longleftrightarrow>
      proto_covers (nr_protocol r) proto \<and> Contains prefix (V4 a)
    \<and> (\<exists>(lo, hi) \<in> set (networkACLPortsToRanges (nr_ports r)). policy_port_matches lo hi dport)"
    unfolding zs
    by (auto simp: split_beta flat_matches_def proto_covers_resolved[OF n] policy_cidr_matches_Contains[OF p])
  also have "\<dots> \<longleftrightarrow> acl_covers r proto dport a"
    using ok p by (auto simp: acl_covers_def ports_covers acl_rule_ok_def cidr_covers_def)
  finally show ?thesis .
qed

lemma expanded_decides:
  assumes x: "expandAll (expandACLRule dir) rules = Inr zs" and ok: "acl_direction_ok rules"
    and sch: "acl_schema (Some rules)"
  shows "acl_decides (Some rules) proto dport a
    (first_verdict (List.find (\<lambda>r. flat_matches r proto dport (bpf_htonl a)) (sortByPriority zs)))"
proof -
  let ?P = "\<lambda>r. flat_matches r proto dport (bpf_htonl a)"
  have rule: "acl_rule_ok r" "list_all port_in_range (nr_ports r)" "1 \<le> nr_priority r" "nr_priority r \<le> 65535"
    if "r \<in> set rules" for r
    using that ok sch by (auto simp: acl_direction_ok_def acl_schema_def list_all_iff)
  have cov: "\<exists>z \<in> set zs. ?P z \<and> ru_priority z = word_of_int (nr_priority r)"
    if r: "r \<in> set rules" "acl_covers r proto dport a" for r
  proof -
    obtain ys where ys: "expandACLRule dir r = Inr ys" using expandACLRule_ok[OF rule(1)[OF r(1)]] by blast
    then obtain z where "z \<in> set ys" "?P z" using expandACLRule_covers[OF ys rule(1,2)[OF r(1)]] r(2) by blast
    then show ?thesis using expandAll_set[OF x] r(1) ys expandACLRule_fields[OF ys] by blast
  qed
  show ?thesis
  proof (cases "List.find ?P (sortByPriority zs)")
    case None
    then have "\<not> ?P z" if "z \<in> set zs" for z
      using that by (auto simp: find_None_iff sortByPriority_def)
    then have "\<forall>r \<in> set rules. \<not> acl_covers r proto dport a" using cov by blast
    then show ?thesis using None by (simp add: acl_decides_def first_verdict_def)
  next
    case (Some z)
    then have z: "z \<in> set zs" "?P z" and least: "\<And>y. y \<in> set zs \<Longrightarrow> ?P y \<Longrightarrow> ru_priority z \<le> ru_priority y"
      using find_sort_key[of ?P ru_priority zs z] by (auto simp: sortByPriority_def)
    obtain r ys where r: "r \<in> set rules" and ys: "expandACLRule dir r = Inr ys" "z \<in> set ys"
      using z(1) expandAll_set[OF x] by blast
    note f = expandACLRule_fields[OF ys]
    have c: "acl_covers r proto dport a" using expandACLRule_covers[OF ys(1) rule(1,2)[OF r]] ys(2) z(2) by blast
    have "nr_priority r \<le> nr_priority r'" if r': "r' \<in> set rules" "acl_covers r' proto dport a" for r'
    proof -
      obtain y where "y \<in> set zs" "?P y" "ru_priority y = word_of_int (nr_priority r')" using cov[OF r'] by blast
      then have "(word_of_int (nr_priority r) :: u16) \<le> word_of_int (nr_priority r')" using least f by metis
      then show ?thesis using rule[OF r] rule[OF r'(1)] by (simp add: word_le_def u16_of_int)
    qed
    then show ?thesis
      using r c f Some by (auto simp: acl_decides_def first_verdict_def networkACLActionToVerdict_def)
  qed
qed

section \<open>The NetworkACL data plane\<close>

lemma fitRuleSet_fits:
  assumes "length (rs_ingress rs) \<le> per" "length (rs_egress rs) \<le> per"
  shows "fitRuleSet layer rs per = (rs, None)"
  using assms by (simp add: fitRuleSet_def capacity_error_of_def errors_Join_def)

lemma fitRuleSet_lengths:
  "fitRuleSet layer rs per = (inst, err) \<Longrightarrow> length (rs_ingress inst) \<le> per \<and> length (rs_egress inst) \<le> per"
  by (auto simp: fitRuleSet_def Let_def)

lemma acl_evaluate_installed:
  assumes g: "g \<noteq> 0" and t: "acl_meta_map t g = Some (acl_meta inst)"
    "acl_rule_table t g = Some (window_array MAX_ACL_RULES_PER_DIR acl_encode zero (rs_ingress inst) (rs_egress inst))"
    and len: "length (rs_ingress inst) \<le> MAX_ACL_RULES_PER_DIR" "length (rs_egress inst) \<le> MAX_ACL_RULES_PER_DIR"
  shows "acl_evaluate t g dir proto dport peer =
    (if (case dir of DirIngress \<Rightarrow> rs_hasIngressRules inst | DirEgress \<Rightarrow> rs_hasEgressRules inst)
     then first_verdict (List.find (\<lambda>r. flat_matches r proto dport peer) (dir_rules inst dir))
     else ACL_VERDICT_PASS)"
proof -
  have u: "unat (of_nat (length (dir_rules inst dir)) :: u32) = length (dir_rules inst dir)"
    and m: "length (dir_rules inst dir) \<le> MAX_ACL_RULES_PER_DIR"
    using len by (auto simp: dir_rules_def unat_of_nat MAX_ACL_RULES_PER_DIR_def split: direction.split)
  have c: "\<not> of_nat (length (dir_rules inst dir)) > (of_nat MAX_ACL_RULES_PER_DIR :: u32)"
    using u m by (simp add: word_less_nat_alt unat_of_nat MAX_ACL_RULES_PER_DIR_def)
  let ?w = "window_array MAX_ACL_RULES_PER_DIR acl_encode zero (rs_ingress inst) (rs_egress inst)"
  have "acl_scan ?w (dir_base MAX_ACL_RULES_PER_DIR dir) (of_nat (length (dir_rules inst dir))) proto dport peer
      [0..<MAX_ACL_RULES_PER_DIR] = first_verdict (List.find (\<lambda>r. flat_matches r proto dport peer) (drop 0 (dir_rules inst dir)))"
    using u m by (intro acl_scan_first window_lookup len) (auto simp: MAX_ACL_RULES_PER_DIR_def)
  note scan = this
  show ?thesis
    using g t c scan m
    by (cases dir) (auto simp: acl_evaluate_def acl_meta_def Let_def dir_rules_def dir_base_def MAX_ACL_RULES_PER_DIR_def)
qed

definition store_result :: "policy_error + unit \<Rightarrow> bool" where
  "store_result res \<longleftrightarrow> (case res of Inr _ \<Rightarrow> True | Inl e \<Rightarrow> collectCapacityErrors e \<noteq> [])"

text \<open>A kernel that accepts every write of the metadata.\<close>

definition metas_written :: "nat \<Rightarrow> 'r \<Rightarrow> ('s, 'r, 'm) bpf_ops \<Rightarrow> bool" where
  "metas_written cap zero ops \<longleftrightarrow> (\<forall>g m d. synced cap zero ops d \<longrightarrow> fst (meta_write ops g m d) = Inr ())"

lemma ACLStore_installed:
  assumes s: "synced (2 * MaxACLEntriesPerDirection) zero ops d" and m: "metas_written (2 * MaxACLEntriesPerDirection) zero ops"
    and run: "ACLStore_Apply (Rotator_Apply ops) (meta_write ops) (Epoch_Bump ops) rs d = (res, d')" and res: "store_result res"
    and g: "rs_groupID rs \<noteq> 0" and fit: "fitRuleSet aclLayer rs MaxACLEntriesPerDirection = (inst, err)"
  shows "kv_meta (view_of ops d') (rs_groupID rs) = Some (acl_meta inst)"
    and "installed_rules (view_of ops d') (rs_groupID rs) =
      Some (window_array MAX_ACL_RULES_PER_DIR acl_encode zero (rs_ingress inst) (rs_egress inst))"
    and "map_of (pl_installed d') (rs_groupID rs) = Some inst"
    and "kv_epoch (view_of ops d') =
      (if map_of (pl_installed d) (rs_groupID rs) = Some inst then kv_epoch (view_of ops d) else kv_epoch (view_of ops d) + 1)"
    and "synced (2 * MaxACLEntriesPerDirection) zero ops d'" and "res = (case err of None \<Rightarrow> Inr () | Some e \<Rightarrow> Inl e)"
proof -
  have per: "MaxACLEntriesPerDirection = MAX_ACL_RULES_PER_DIR" "2 * MAX_ACL_RULES_PER_DIR < 2 ^ 32"
    by (simp_all add: MaxACLEntriesPerDirection_def NetworkACLMaxEntriesPerDirection_def MAX_ACL_RULES_PER_DIR_def)
  let ?ws = "concat (map (window_slots acl_encode) (windows inst MaxACLEntriesPerDirection))"
  have w: "slots_array (2 * MaxACLEntriesPerDirection) zero ?ws =
      window_array MAX_ACL_RULES_PER_DIR acl_encode zero (rs_ingress inst) (rs_egress inst)"
    using fitRuleSet_lengths[OF fit] per slots_array_windows[of inst MAX_ACL_RULES_PER_DIR zero acl_encode] by simp
  have run': "api_bind (Rotator_Apply ops (rs_groupID rs) (\<lambda>upd. write_slots upd ?ws) (meta_write ops (rs_groupID rs) (acl_meta inst))) (\<lambda>_.
      api_bind (applied (Epoch_Bump ops) (rs_groupID rs) inst) (\<lambda>_. report err)) d = (res, d')"
    using run g fit by (simp add: ACLStore_Apply_def Let_def)
  note spec = stores.apply_spec[OF s run' res[unfolded store_result_def], OF m[unfolded metas_written_def, rule_format]]
  show "kv_meta (view_of ops d') (rs_groupID rs) = Some (acl_meta inst)" using spec(2) by simp
  show "installed_rules (view_of ops d') (rs_groupID rs) =
      Some (window_array MAX_ACL_RULES_PER_DIR acl_encode zero (rs_ingress inst) (rs_egress inst))" using spec(1) w by simp
  show "map_of (pl_installed d') (rs_groupID rs) = Some inst" by (rule spec(3))
  show "kv_epoch (view_of ops d') =
      (if map_of (pl_installed d) (rs_groupID rs) = Some inst then kv_epoch (view_of ops d) else kv_epoch (view_of ops d) + 1)"
    by (rule spec(4))
  show "synced (2 * MaxACLEntriesPerDirection) zero ops d'" by (rule spec(5))
  show "res = (case err of None \<Rightarrow> Inr () | Some e \<Rightarrow> Inl e)" by (rule spec(6))
qed

text \<open>The tables the data plane reads for its NetworkACLs are the ones the daemon writes.\<close>

definition reads_acl :: "policy_tables \<Rightarrow> (acl_rule, acl_meta_val) kernel_view \<Rightarrow> bool" where
  "reads_acl t v \<longleftrightarrow> acl_meta_map t = kv_meta v \<and> acl_rule_table t = installed_rules v"

lemma acl_applied_evaluate:
  assumes s: "synced (2 * MaxACLEntriesPerDirection) zero ops d" and m: "metas_written (2 * MaxACLEntriesPerDirection) zero ops"
    and run: "ACLStore_Apply (Rotator_Apply ops) (meta_write ops) (Epoch_Bump ops) rs d = (res, d')" and res: "store_result res"
    and g: "rs_groupID rs \<noteq> 0" and fit: "fitRuleSet aclLayer rs MaxACLEntriesPerDirection = (inst, err)"
    and t: "reads_acl t (view_of ops d')"
  shows "acl_evaluate t (rs_groupID rs) dir proto dport peer =
    (if (case dir of DirIngress \<Rightarrow> rs_hasIngressRules inst | DirEgress \<Rightarrow> rs_hasEgressRules inst)
     then first_verdict (List.find (\<lambda>r. flat_matches r proto dport peer) (dir_rules inst dir))
     else ACL_VERDICT_PASS)"
proof -
  have per: "MaxACLEntriesPerDirection = MAX_ACL_RULES_PER_DIR"
    by (simp_all add: MaxACLEntriesPerDirection_def NetworkACLMaxEntriesPerDirection_def MAX_ACL_RULES_PER_DIR_def)
  note inst = ACLStore_installed[OF s m run res g fit]
  show ?thesis
    using inst(1,2) t fitRuleSet_lengths[OF fit] per
    by (intro acl_evaluate_installed[where zero = zero] g) (auto simp: reads_acl_def)
qed

text \<open>
  C2. A NetworkACL that admission accepted is what the data plane enforces. Once the daemon applied it
  without an error, the verdict on every packet in each direction is the action of the covering rule of
  the least priority, deny when no rule covers the packet, and no opinion when the direction is absent
  from the spec. The kernel calls are assumed to follow their documentation, and the write of the
  metadata, whose failure is only logged, to succeed.
\<close>

theorem network_acl_enforced:
  assumes "validateNetworkACL rd acl old = Admitted" "acl_schema (na_ingress acl)" "acl_schema (na_egress acl)"
    and "ExpandNetworkACL acl = Inr rs"
    and "synced (2 * MaxACLEntriesPerDirection) zero ops d" "metas_written (2 * MaxACLEntriesPerDirection) zero ops"
    and "ACLStore_Apply (Rotator_Apply ops) (meta_write ops) (Epoch_Bump ops) rs d = (Inr (), d')"
    and "reads_acl t (view_of ops d')"
  shows "acl_decides (na_ingress acl) proto dport a (acl_evaluate t (na_aclID acl) DirIngress proto dport (bpf_htonl a))
       \<and> acl_decides (na_egress acl) proto dport a (acl_evaluate t (na_aclID acl) DirEgress proto dport (bpf_htonl a))"
proof -
  obtain ingress egress where x: "expandACLDirection DirIngress (na_ingress acl) = Inr ingress"
      "expandACLDirection DirEgress (na_egress acl) = Inr egress" and g: "na_aclID acl \<noteq> 0"
    and rs: "rs = \<lparr>rs_groupID = na_aclID acl, rs_ingress = sortByPriority ingress, rs_egress = sortByPriority egress,
       rs_hasIngressRules = (na_ingress acl \<noteq> None), rs_hasEgressRules = (na_egress acl \<noteq> None),
       rs_rulesetVersion = na_rulesetVersion acl\<rparr>"
    using assms(4) by (rule ExpandNetworkACL_parts)
  obtain rs' where "ExpandNetworkACL acl = Inr rs'" "length (rs_ingress rs') \<le> NetworkACLMaxEntriesPerDirection"
      "length (rs_egress rs') \<le> NetworkACLMaxEntriesPerDirection"
    using assms(1) g by (rule admitted_acl_fits)
  then have fit: "fitRuleSet aclLayer rs MaxACLEntriesPerDirection = (rs, None)"
    using assms(4) by (intro fitRuleSet_fits) (simp_all add: MaxACLEntriesPerDirection_def)
  have gr: "rs_groupID rs \<noteq> 0" and sr: "store_result (Inr ())" using rs g by (simp_all add: store_result_def)
  note ev = acl_applied_evaluate[OF assms(5,6,7) sr gr fit assms(8)]
  have dec: "acl_decides rules proto dport a (if rules \<noteq> None
      then first_verdict (List.find (\<lambda>r. flat_matches r proto dport (bpf_htonl a)) (sortByPriority zs)) else ACL_VERDICT_PASS)"
    if "expandACLDirection dir rules = Inr zs" "acl_schema rules" "\<And>rs. rules = Some rs \<Longrightarrow> acl_direction_ok rs" for dir rules zs
  proof (cases rules)
    case (Some rs)
    then show ?thesis using that expanded_decides[of dir rs zs] by (simp add: expandACLDirection_def split: sum.split_asm)
  qed (simp add: acl_decides_def)
  show ?thesis
    using ev[of DirIngress proto dport "bpf_htonl a"] ev[of DirEgress proto dport "bpf_htonl a"]
      dec[OF x(1) assms(2) admitted_acl_directions(1)[OF assms(1)]] dec[OF x(2) assms(3) admitted_acl_directions(2)[OF assms(1)]]
    by (cases "na_ingress acl"; cases "na_egress acl"; simp add: rs dir_rules_def)
qed

section \<open>A rule set that does not fit\<close>

lemma fitRuleSet_errors:
  assumes "fitRuleSet layer rs per = (inst, Some e)"
  shows "ce \<in> set (collectCapacityErrors e) \<longleftrightarrow> length (dir_rules rs (ce_direction ce)) > per
    \<and> ce = \<lparr>ce_layer = layer, ce_id = rs_groupID rs, ce_direction = ce_direction ce,
         ce_entries = length (dir_rules rs (ce_direction ce)), ce_limit = per\<rparr>"
  using assms
  by (cases "ce_direction ce")
    (auto simp: fitRuleSet_def Let_def capacity_error_of_def errors_Join_def dir_rules_def split: if_splits)

lemma fitRuleSet_direction:
  assumes "fitRuleSet layer rs per = (inst, err)"
  shows "dir_rules inst dir = (if length (dir_rules rs dir) > per then [] else dir_rules rs dir)"
    and "(case dir of DirIngress \<Rightarrow> rs_hasIngressRules inst | DirEgress \<Rightarrow> rs_hasEgressRules inst) \<longleftrightarrow>
      length (dir_rules rs dir) > per \<or> (case dir of DirIngress \<Rightarrow> rs_hasIngressRules rs | DirEgress \<Rightarrow> rs_hasEgressRules rs)"
proof -
  have inst: "inst = fst (fitRuleSet layer rs per)" using assms by simp
  show "dir_rules inst dir = (if length (dir_rules rs dir) > per then [] else dir_rules rs dir)"
    unfolding inst by (cases dir) (simp_all add: fitRuleSet_def Let_def dir_rules_def)
  show "(case dir of DirIngress \<Rightarrow> rs_hasIngressRules inst | DirEgress \<Rightarrow> rs_hasEgressRules inst) \<longleftrightarrow>
      length (dir_rules rs dir) > per \<or> (case dir of DirIngress \<Rightarrow> rs_hasIngressRules rs | DirEgress \<Rightarrow> rs_hasEgressRules rs)"
    unfolding inst by (cases dir) (simp_all add: fitRuleSet_def Let_def dir_rules_def)
qed

text \<open>
  C13. A NetworkACL that does not fit fails closed. When the daemon reports a capacity error, the error
  names a direction whose expansion exceeds the table, every packet in each such direction is denied,
  and the other direction is enforced as it would be alone.
\<close>

theorem acl_overflow_denied:
  assumes "synced (2 * MaxACLEntriesPerDirection) zero ops d" "metas_written (2 * MaxACLEntriesPerDirection) zero ops"
    and "ACLStore_Apply (Rotator_Apply ops) (meta_write ops) (Epoch_Bump ops) rs d = (Inl e, d')"
    and "CapacityErrorsFrom (Some e) \<noteq> []" and "reads_acl t (view_of ops d')"
  shows "(ce \<in> set (CapacityErrorsFrom (Some e)) \<longleftrightarrow>
            length (dir_rules rs (ce_direction ce)) > MaxACLEntriesPerDirection
          \<and> ce = \<lparr>ce_layer = aclLayer, ce_id = rs_groupID rs, ce_direction = ce_direction ce,
               ce_entries = length (dir_rules rs (ce_direction ce)), ce_limit = MaxACLEntriesPerDirection\<rparr>)
    \<and> acl_evaluate t (rs_groupID rs) dir proto dport peer =
        (if length (dir_rules rs dir) > MaxACLEntriesPerDirection then ACL_VERDICT_DENY
         else if (case dir of DirIngress \<Rightarrow> rs_hasIngressRules rs | DirEgress \<Rightarrow> rs_hasEgressRules rs)
         then first_verdict (List.find (\<lambda>r. flat_matches r proto dport peer) (dir_rules rs dir))
         else ACL_VERDICT_PASS)"
proof -
  obtain inst err where fit: "fitRuleSet aclLayer rs MaxACLEntriesPerDirection = (inst, err)" by fastforce
  have g: "rs_groupID rs \<noteq> 0" using assms(3,4) by (auto simp: ACLStore_Apply_def api_throw_def CapacityErrorsFrom_def)
  have sr: "store_result (Inl e)" using assms(4) by (simp add: store_result_def CapacityErrorsFrom_def)
  have "err = Some e"
    using ACLStore_installed(6)[OF assms(1,2,3) sr g fit] by (auto split: option.splits)
  then have ce: "ce \<in> set (collectCapacityErrors e) \<longleftrightarrow> length (dir_rules rs (ce_direction ce)) > MaxACLEntriesPerDirection
    \<and> ce = \<lparr>ce_layer = aclLayer, ce_id = rs_groupID rs, ce_direction = ce_direction ce,
         ce_entries = length (dir_rules rs (ce_direction ce)), ce_limit = MaxACLEntriesPerDirection\<rparr>"
    using fitRuleSet_errors fit by blast
  have "acl_evaluate t (rs_groupID rs) dir proto dport peer =
        (if length (dir_rules rs dir) > MaxACLEntriesPerDirection then ACL_VERDICT_DENY
         else if (case dir of DirIngress \<Rightarrow> rs_hasIngressRules rs | DirEgress \<Rightarrow> rs_hasEgressRules rs)
         then first_verdict (List.find (\<lambda>r. flat_matches r proto dport peer) (dir_rules rs dir))
         else ACL_VERDICT_PASS)"
    unfolding acl_applied_evaluate[OF assms(1,2,3) sr g fit assms(5)] fitRuleSet_direction[OF fit]
    by (simp add: first_verdict_def)
  then show ?thesis using ce by (simp add: CapacityErrorsFrom_def)
qed

end
