(* ===== verification/GroupEndToEnd.thy ===== *)
theory GroupEndToEnd
  imports PolicyEndToEnd
begin

text \<open>
  From a SecurityGroup to the verdict on a packet: what the daemon installs for the groups of an
  interface makes the evaluator of \<open>sg.h\<close> allow exactly what one of their rules covers.
\<close>

section \<open>What a SecurityGroup asks for\<close>

definition peer_covers :: "peer_resolver \<Rightarrow> u32 list \<Rightarrow> sg_peer \<Rightarrow> u32 \<Rightarrow> bool" where
  "peer_covers peers peerGroups p a \<longleftrightarrow>
     (if sp_cidr p \<noteq> [] then cidr_covers (sp_cidr p) a
      else case sp_securityGroupRef p of
        None \<Rightarrow> False
      | Some name \<Rightarrow> (\<exists>gid. peers name = Some gid \<and> gid \<in> set peerGroups))"

definition sg_covers :: "peer_resolver \<Rightarrow> u32 list \<Rightarrow> sg_rule_spec \<Rightarrow> u8 \<Rightarrow> u16 \<Rightarrow> u32 \<Rightarrow> bool" where
  "sg_covers peers peerGroups r proto dport a \<longleftrightarrow> proto_covers (sr_protocol r) proto
     \<and> (sr_ports r = [] \<or> (\<exists>p \<in> set (sr_ports r). port_covers p dport))
     \<and> (\<exists>p \<in> set (sr_peers r). peer_covers peers peerGroups p a)"

definition sg_direction_rules :: "security_group \<Rightarrow> direction \<Rightarrow> sg_rule_spec list" where
  "sg_direction_rules sg dir = (case dir of DirIngress \<Rightarrow> sg_ingress sg
     | DirEgress \<Rightarrow> (case sg_egress sg of None \<Rightarrow> [] | Some rs \<Rightarrow> rs))"

text \<open>
  The verdict for an interface in some groups: allow what a rule of a group covers; else ingress is
  denied, and egress is denied as soon as one of the groups declares egress rules.
\<close>

definition groups_verdict :: "peer_resolver \<Rightarrow> u32 list \<Rightarrow> security_group list \<Rightarrow> direction \<Rightarrow> u8 \<Rightarrow> u16 \<Rightarrow> u32 \<Rightarrow> int" where
  "groups_verdict peers peerGroups sgs dir proto dport a =
     (if \<exists>sg \<in> set sgs. \<exists>r \<in> set (sg_direction_rules sg dir). sg_covers peers peerGroups r proto dport a
      then SG_VERDICT_ALLOW
      else if dir = DirEgress \<and> (\<forall>sg \<in> set sgs. sg_egress sg = None) then SG_VERDICT_PASS
      else SG_VERDICT_DENY)"

definition sg_schema :: "security_group \<Rightarrow> bool" where
  "sg_schema sg \<longleftrightarrow> (\<forall>dir. \<forall>r \<in> set (sg_direction_rules sg dir). list_all port_in_range (sr_ports r))"

definition sg_spec_ok :: "security_group \<Rightarrow> bool" where
  "sg_spec_ok sg \<longleftrightarrow> sg_schema sg \<and> (\<forall>dir. sg_direction_ok (sg_direction_rules sg dir))"

lemma admitted_sg_spec_ok:
  assumes "validateSecurityGroup rd sg old = Admitted" "sg_schema sg"
  shows "sg_spec_ok sg"
proof -
  have "sg_direction_ok []"
    by (simp add: sg_direction_ok_def SecurityGroupEntryCount_def sumEntryCount_def)
  then show ?thesis
    using assms admitted_sg_directions[OF assms(1)]
    by (auto simp: sg_spec_ok_def sg_direction_rules_def split: direction.split option.split)
qed

section \<open>Expansion keeps the meaning\<close>

definition attached_of :: "sg_membership_val option \<Rightarrow> u32 list" where
  "attached_of m = (case m of None \<Rightarrow> [] | Some v \<Rightarrow> sg_attached v)"

lemma peer_set_contains: "sg_peer_sg_set_contains m gid \<longleftrightarrow> gid \<in> set (attached_of m)"
  by (simp add: sg_peer_sg_set_contains_def attached_of_def split: option.split)

text \<open>The test of the peer of an installed rule.\<close>

definition peer_test :: "rule \<Rightarrow> sg_membership_val option \<Rightarrow> u32 \<Rightarrow> bool" where
  "peer_test r m peer = (case ru_peerKind r of
     PeerKindCIDR \<Rightarrow> policy_cidr_matches (ru_peerV4 r) (ru_peerPrefixlen r) peer
   | PeerKindSG \<Rightarrow> sg_peer_sg_set_contains m (ru_peerV4 r))"

lemma encoded_matches:
  "ru_verdict r = VerdictAllow \<Longrightarrow> sg_rule_matches (sg_encode r) m proto dport peer \<longleftrightarrow>
     policy_proto_matches (ru_proto r) proto \<and> policy_port_matches (ru_portLo r) (ru_portHi r) dport \<and> peer_test r m peer"
  by (cases "ru_peerKind r") (auto simp: sg_rule_matches_def sg_encode_def peer_test_def policy_verdict_defs)

lemma buildPeer_covers:
  assumes "sg_peer_ok p"
  shows "(\<exists>base. buildPeer p peers = Some base \<and> peer_test base m (bpf_htonl a)) \<longleftrightarrow> peer_covers peers (attached_of m) p a"
proof (cases "sp_cidr p = []")
  case True
  then show ?thesis
    using assms by (auto simp: buildPeer_def peer_covers_def peer_test_def peer_set_contains split: option.splits)
next
  case False
  then obtain prefix where p: "ParsePrefix (sp_cidr p) = Some prefix" "Is4 (pfx_ip prefix)"
    using assms by (auto simp: sg_peer_ok_def)
  then show ?thesis
    using False policy_cidr_matches_Contains[OF p, of a]
    by (simp add: buildPeer_def peer_covers_def peer_test_def cidr_covers_def)
qed

lemma set_map_filter: "set (List.map_filter f xs) = {y. \<exists>x \<in> set xs. f x = Some y}"
  by (force simp: List.map_filter_def)

lemma expandRule_covers:
  assumes x: "expandRule dir r peers = Inr zs" and ok: "sg_rule_ok r" "list_all port_in_range (sr_ports r)"
  shows "(\<exists>z \<in> set zs. sg_rule_matches (sg_encode z) m proto dport (bpf_htonl a)) \<longleftrightarrow>
    sg_covers peers (attached_of m) r proto dport a"
proof -
  obtain n where n: "ResolveIPProtocol (sr_protocol r) = Inr n"
    and zs: "zs = [base\<lparr>ru_direction := dir, ru_proto := n, ru_portLo := lo, ru_portHi := hi, ru_verdict := VerdictAllow\<rparr>.
                 base \<leftarrow> List.map_filter (\<lambda>peer. buildPeer peer peers) (sr_peers r),
                 (lo, hi) \<leftarrow> portsToRanges (sr_ports r)]"
    using x by (auto simp: expandRule_def split: sum.splits)
  have t: "peer_test (base\<lparr>ru_direction := dir, ru_proto := n, ru_portLo := lo, ru_portHi := hi, ru_verdict := VerdictAllow\<rparr>) m peer
      = peer_test base m peer" for base lo hi peer
    by (cases "ru_peerKind base") (simp_all add: peer_test_def)
  have "(\<exists>z \<in> set zs. sg_rule_matches (sg_encode z) m proto dport (bpf_htonl a)) \<longleftrightarrow>
      proto_covers (sr_protocol r) proto
    \<and> (\<exists>(lo, hi) \<in> set (portsToRanges (sr_ports r)). policy_port_matches lo hi dport)
    \<and> (\<exists>p \<in> set (sr_peers r). \<exists>base. buildPeer p peers = Some base \<and> peer_test base m (bpf_htonl a))"
    unfolding zs by (auto simp: split_beta encoded_matches t proto_covers_resolved[OF n] set_map_filter)
  also have "\<dots> \<longleftrightarrow> sg_covers peers (attached_of m) r proto dport a"
    using ok buildPeer_covers[of _ peers m a]
    by (auto simp: sg_covers_def ports_covers(2) sg_rule_ok_def list_all_iff)
  finally show ?thesis .
qed

lemma expanded_covers:
  assumes "expandAll (\<lambda>rule. expandRule dir rule peers) rules = Inr zs" "list_all sg_rule_ok rules"
    and "\<forall>r \<in> set rules. list_all port_in_range (sr_ports r)"
  shows "(\<exists>z \<in> set zs. sg_rule_matches (sg_encode z) m proto dport (bpf_htonl a)) \<longleftrightarrow>
    (\<exists>r \<in> set rules. sg_covers peers (attached_of m) r proto dport a)"
  using assms
proof (induction rules arbitrary: zs)
  case (Cons r rules)
  then obtain xs ys where x: "expandRule dir r peers = Inr xs" "expandAll (\<lambda>rule. expandRule dir rule peers) rules = Inr ys"
    and zs: "zs = xs @ ys" by (auto split: sum.splits)
  have "(\<exists>z \<in> set xs. sg_rule_matches (sg_encode z) m proto dport (bpf_htonl a)) \<longleftrightarrow>
      sg_covers peers (attached_of m) r proto dport a"
    using Cons.prems by (intro expandRule_covers[OF x(1)]) simp_all
  moreover have "(\<exists>z \<in> set ys. sg_rule_matches (sg_encode z) m proto dport (bpf_htonl a)) \<longleftrightarrow>
      (\<exists>r \<in> set rules. sg_covers peers (attached_of m) r proto dport a)"
    using Cons.prems by (intro Cons.IH[OF x(2)]) simp_all
  ultimately show ?case unfolding zs by auto
qed simp

section \<open>The scan\<close>

lemma sg_scan_any:
  assumes l: "\<And>i. i < length rs \<Longrightarrow> array_lookup inner (base + of_nat i) = Some (sg_encode (rs ! i))"
    and c: "unat cnt = length rs" and "k \<le> length rs" "length rs \<le> n"
  shows "sg_scan inner base cnt m proto dport peer [k..<n] \<longleftrightarrow>
    (\<exists>z \<in> set (drop k rs). sg_rule_matches (sg_encode z) m proto dport peer)"
  using assms(3,4)
proof (induction "n - k" arbitrary: k)
  case (Suc j)
  then have k: "[k..<n] = k # [Suc k..<n]" by (simp add: upt_conv_Cons)
  show ?case
  proof (cases "k < length rs")
    case True
    then have d: "drop k rs = rs ! k # drop (Suc k) rs" by (simp add: Cons_nth_drop_Suc)
    have "sg_scan inner base cnt m proto dport peer [Suc k..<n] \<longleftrightarrow>
        (\<exists>z \<in> set (drop (Suc k) rs). sg_rule_matches (sg_encode z) m proto dport peer)"
      using Suc True by (intro Suc.hyps(1)) auto
    then show ?thesis using True c l[OF True] by (auto simp: k d)
  next
    case False
    then show ?thesis unfolding k using Suc.prems c by simp
  qed
qed simp

text \<open>The tables of the data plane hold the expansion of a group.\<close>

definition group_held :: "policy_tables \<Rightarrow> sg_rule \<Rightarrow> peer_resolver \<Rightarrow> security_group \<Rightarrow> bool" where
  "group_held t zero peers sg \<longleftrightarrow> (\<exists>rs. ExpandSecurityGroup sg peers = Inr rs
     \<and> sg_meta_map t (sg_groupID sg) = Some (sg_meta rs)
     \<and> sg_rule_table t (sg_groupID sg) =
         Some (window_array MAX_SG_RULES_PER_DIR sg_encode zero (rs_ingress rs) (rs_egress rs)))"

definition group_allows :: "peer_resolver \<Rightarrow> sg_membership_val option \<Rightarrow> direction \<Rightarrow> u8 \<Rightarrow> u16 \<Rightarrow> u32 \<Rightarrow> security_group \<Rightarrow> bool" where
  "group_allows peers m dir proto dport a sg \<longleftrightarrow>
     (\<exists>r \<in> set (sg_direction_rules sg dir). sg_covers peers (attached_of m) r proto dport a)"

lemma held_expansion:
  assumes "ExpandSecurityGroup sg peers = Inr rs" "sg_spec_ok sg"
  shows "(\<exists>z \<in> set (dir_rules rs dir). sg_rule_matches (sg_encode z) m proto dport (bpf_htonl a)) \<longleftrightarrow>
      group_allows peers m dir proto dport a sg"
    and "length (rs_ingress rs) \<le> MAX_SG_RULES_PER_DIR" "length (rs_egress rs) \<le> MAX_SG_RULES_PER_DIR"
proof -
  obtain ingress egress where x: "expandAll (\<lambda>rule. expandRule DirIngress rule peers) (sg_ingress sg) = Inr ingress"
      "expandAll (\<lambda>rule. expandRule DirEgress rule peers) (case sg_egress sg of None \<Rightarrow> [] | Some r \<Rightarrow> r) = Inr egress"
    and rs: "rs = \<lparr>rs_groupID = sg_groupID sg, rs_ingress = ingress, rs_egress = egress, rs_hasIngressRules = False,
       rs_hasEgressRules = (sg_egress sg \<noteq> None), rs_rulesetVersion = sg_rulesetVersion sg\<rparr>"
    using assms(1) by (rule ExpandSecurityGroup_parts)
  have ok: "list_all sg_rule_ok (sg_direction_rules sg d)" "\<forall>r \<in> set (sg_direction_rules sg d). list_all port_in_range (sr_ports r)"
      "SecurityGroupEntryCount (sg_direction_rules sg d) \<le> SecurityGroupMaxEntriesPerDirection" for d
    using assms(2) by (auto simp: sg_spec_ok_def sg_schema_def sg_direction_ok_def)
  have "expandAll (\<lambda>rule. expandRule dir rule peers) (sg_direction_rules sg dir) = Inr (dir_rules rs dir)"
    using x by (cases dir) (simp_all add: sg_direction_rules_def dir_rules_def rs)
  then show "(\<exists>z \<in> set (dir_rules rs dir). sg_rule_matches (sg_encode z) m proto dport (bpf_htonl a)) \<longleftrightarrow>
      group_allows peers m dir proto dport a sg"
    unfolding group_allows_def by (rule expanded_covers[OF _ ok(1,2)])
  have per: "SecurityGroupMaxEntriesPerDirection = MAX_SG_RULES_PER_DIR"
    by (simp add: SecurityGroupMaxEntriesPerDirection_def MAX_SG_RULES_PER_DIR_def)
  show "length (rs_ingress rs) \<le> MAX_SG_RULES_PER_DIR" "length (rs_egress rs) \<le> MAX_SG_RULES_PER_DIR"
    using ExpandSecurityGroup_length[OF assms(1)] ok(3)[of DirIngress] ok(3)[of DirEgress] per
    by (simp_all add: sg_direction_rules_def)
qed

text \<open>One turn of the loop over the groups of the interface.\<close>

lemma eval_groups_held:
  assumes h: "group_held t zero peers sg" and ok: "sg_spec_ok sg"
  shows "sg_eval_groups t dir m proto dport (bpf_htonl a) any (sg_groupID sg # gids) =
    (if group_allows peers m dir proto dport a sg then (True, True)
     else sg_eval_groups t dir m proto dport (bpf_htonl a)
       (any \<or> (case dir of DirEgress \<Rightarrow> sg_egress sg \<noteq> None
              | DirIngress \<Rightarrow> \<exists>rs. ExpandSecurityGroup sg peers = Inr rs \<and> rs_ingress rs \<noteq> [])) gids)"
proof -
  obtain rs where rs: "ExpandSecurityGroup sg peers = Inr rs" "sg_meta_map t (sg_groupID sg) = Some (sg_meta rs)"
      "sg_rule_table t (sg_groupID sg) = Some (window_array MAX_SG_RULES_PER_DIR sg_encode zero (rs_ingress rs) (rs_egress rs))"
    using h by (auto simp: group_held_def)
  note len = held_expansion(2,3)[OF rs(1) ok]
  have he: "rs_hasEgressRules rs \<longleftrightarrow> sg_egress sg \<noteq> None" and e0: "sg_egress sg = None \<Longrightarrow> rs_egress rs = []"
    using rs(1) by (auto elim!: ExpandSecurityGroup_parts)
  define n where "n = length (dir_rules rs dir)"
  have n: "n \<le> MAX_SG_RULES_PER_DIR" using len by (cases dir) (simp_all add: n_def dir_rules_def)
  then have u: "unat (of_nat n :: u32) = n" and c: "\<not> of_nat n > (of_nat MAX_SG_RULES_PER_DIR :: u32)"
    by (simp_all add: unat_of_nat MAX_SG_RULES_PER_DIR_def word_less_nat_alt)
  have z: "(of_nat n :: u32) = 0 \<longleftrightarrow> dir_rules rs dir = []" using u by (metis length_0_conv n_def unat_eq_0)
  have "sg_scan (window_array MAX_SG_RULES_PER_DIR sg_encode zero (rs_ingress rs) (rs_egress rs))
      (dir_base MAX_SG_RULES_PER_DIR dir) (of_nat n) m proto dport (bpf_htonl a) [0..<MAX_SG_RULES_PER_DIR] \<longleftrightarrow>
      (\<exists>x \<in> set (drop 0 (dir_rules rs dir)). sg_rule_matches (sg_encode x) m proto dport (bpf_htonl a))"
    using u n by (intro sg_scan_any window_lookup len) (auto simp: n_def MAX_SG_RULES_PER_DIR_def)
  then have one: "sg_eval_one_sg t (dir_base MAX_SG_RULES_PER_DIR dir) (sg_groupID sg) (of_nat n) m proto dport (bpf_htonl a) \<longleftrightarrow>
      group_allows peers m dir proto dport a sg"
    using rs(3) c held_expansion(1)[OF rs(1) ok] by (simp add: sg_eval_one_sg_def)
  have none: "\<not> group_allows peers m dir proto dport a sg" if "dir_rules rs dir = []"
    using that held_expansion(1)[OF rs(1) ok, of dir m proto dport a] by simp
  show ?thesis
    using rs he e0 z one none
    by (cases dir) (auto simp: sg_meta_def n_def dir_rules_def dir_base_def word_gt_0)
qed

lemma eval_groups:
  assumes "\<forall>sg \<in> set sgs. group_held t zero peers sg \<and> sg_spec_ok sg"
  shows "fst (sg_eval_groups t dir m proto dport (bpf_htonl a) any (map sg_groupID sgs)) \<longleftrightarrow>
      (\<exists>sg \<in> set sgs. group_allows peers m dir proto dport a sg)"
    and "dir = DirEgress \<Longrightarrow> \<not> (\<exists>sg \<in> set sgs. group_allows peers m dir proto dport a sg) \<Longrightarrow>
      snd (sg_eval_groups t dir m proto dport (bpf_htonl a) any (map sg_groupID sgs)) \<longleftrightarrow>
      any \<or> (\<exists>sg \<in> set sgs. sg_egress sg \<noteq> None)"
  using assms
  by (induction sgs arbitrary: any) (auto simp: eval_groups_held simp del: sg_eval_groups.simps(2) split: if_splits)

lemma sg_eval_held:
  assumes "\<forall>sg \<in> set sgs. group_held t zero peers sg \<and> sg_spec_ok sg"
    and "smv_count v \<noteq> 0" "sg_attached v = map sg_groupID sgs"
  shows "sg_eval t (Some v) m dir proto dport (bpf_htonl a) = groups_verdict peers (attached_of m) sgs dir proto dport a"
proof -
  obtain b any' where e: "sg_eval_groups t dir m proto dport (bpf_htonl a) False (map sg_groupID sgs) = (b, any')"
    by fastforce
  then have b: "b \<longleftrightarrow> (\<exists>sg \<in> set sgs. group_allows peers m dir proto dport a sg)"
    using eval_groups(1)[OF assms(1), of dir m proto dport a False] by simp
  have any: "dir = DirEgress \<Longrightarrow> \<not> b \<Longrightarrow> any' \<longleftrightarrow> (\<exists>sg \<in> set sgs. sg_egress sg \<noteq> None)"
    using e b eval_groups(2)[OF assms(1), of dir m proto dport a False] by simp
  show ?thesis
    using assms(2,3) e b any
    by (cases dir; cases b; cases any') (auto simp: sg_eval_def groups_verdict_def group_allows_def[symmetric])
qed

section \<open>The groups the daemon applies\<close>

lemma SGStore_installed:
  assumes s: "synced (2 * MaxSGEntriesPerDirection) zero ops d" and m: "metas_written (2 * MaxSGEntriesPerDirection) zero ops"
    and run: "SGStore_Apply (Rotator_Apply ops) (meta_write ops) (Epoch_Bump ops) rs d = (res, d')" and res: "store_result res"
    and g: "rs_groupID rs \<noteq> 0" and fit: "fitRuleSet sgLayer rs MaxSGEntriesPerDirection = (inst, err)"
  shows "kv_meta (view_of ops d') = (kv_meta (view_of ops d))(rs_groupID rs \<mapsto> sg_meta inst)"
    and "installed_rules (view_of ops d') = (installed_rules (view_of ops d))(rs_groupID rs \<mapsto>
      window_array MAX_SG_RULES_PER_DIR sg_encode zero (rs_ingress inst) (rs_egress inst))"
    and "synced (2 * MaxSGEntriesPerDirection) zero ops d'" and "res = (case err of None \<Rightarrow> Inr () | Some e \<Rightarrow> Inl e)"
proof -
  have per: "MaxSGEntriesPerDirection = MAX_SG_RULES_PER_DIR" "2 * MAX_SG_RULES_PER_DIR < 2 ^ 32"
    by (simp_all add: MaxSGEntriesPerDirection_def SecurityGroupMaxEntriesPerDirection_def MAX_SG_RULES_PER_DIR_def)
  let ?ws = "concat (map (window_slots sg_encode) (windows inst MaxSGEntriesPerDirection))"
  have w: "slots_array (2 * MaxSGEntriesPerDirection) zero ?ws =
      window_array MAX_SG_RULES_PER_DIR sg_encode zero (rs_ingress inst) (rs_egress inst)"
    using fitRuleSet_lengths[OF fit] per slots_array_windows[of inst MAX_SG_RULES_PER_DIR zero sg_encode] by simp
  have run': "api_bind (Rotator_Apply ops (rs_groupID rs) (\<lambda>upd. write_slots upd ?ws) (meta_write ops (rs_groupID rs) (sg_meta inst))) (\<lambda>_.
      api_bind (applied (Epoch_Bump ops) (rs_groupID rs) inst) (\<lambda>_. report err)) d = (res, d')"
    using run g fit by (simp add: SGStore_Apply_def Let_def)
  note spec = stores.apply_spec[OF s run' res[unfolded store_result_def], OF m[unfolded metas_written_def, rule_format]]
  show "kv_meta (view_of ops d') = (kv_meta (view_of ops d))(rs_groupID rs \<mapsto> sg_meta inst)" by (rule spec(2))
  show "installed_rules (view_of ops d') = (installed_rules (view_of ops d))(rs_groupID rs \<mapsto>
      window_array MAX_SG_RULES_PER_DIR sg_encode zero (rs_ingress inst) (rs_egress inst))" using spec(1) w by simp
  show "synced (2 * MaxSGEntriesPerDirection) zero ops d'" by (rule spec(5))
  show "res = (case err of None \<Rightarrow> Inr () | Some e \<Rightarrow> Inl e)" by (rule spec(6))
qed

definition reads_sg :: "policy_tables \<Rightarrow> (sg_rule, sg_meta_val) kernel_view \<Rightarrow> bool" where
  "reads_sg t v \<longleftrightarrow> sg_meta_map t = kv_meta v \<and> sg_rule_table t = installed_rules v"

definition tables_of :: "(sg_rule, sg_meta_val) kernel_view \<Rightarrow> policy_tables" where
  "tables_of v = \<lparr>acl_meta_map = (\<lambda>_. None), acl_rule_table = (\<lambda>_. None), sg_meta_map = kv_meta v,
     sg_rule_table = installed_rules v, sg_membership_map = (\<lambda>_. None)\<rparr>"

text \<open>Groups applied one after the other, each to the end.\<close>

fun apply_groups :: "('s, sg_rule, sg_meta_val) bpf_ops \<Rightarrow> peer_resolver \<Rightarrow> security_group list \<Rightarrow> 's policy_state
    \<Rightarrow> 's policy_state option" where
  "apply_groups ops peers [] d = Some d"
| "apply_groups ops peers (sg # sgs) d =
     (case ExpandSecurityGroup sg peers of
        Inl e \<Rightarrow> None
      | Inr rs \<Rightarrow> (case SGStore_Apply (Rotator_Apply ops) (meta_write ops) (Epoch_Bump ops) rs d of
                     (Inl e, d') \<Rightarrow> None
                   | (Inr _, d') \<Rightarrow> apply_groups ops peers sgs d'))"

lemma apply_group_held:
  assumes s: "synced (2 * MaxSGEntriesPerDirection) zero ops d" "metas_written (2 * MaxSGEntriesPerDirection) zero ops"
    and x: "ExpandSecurityGroup sg peers = Inr rs" "sg_spec_ok sg"
    and run: "SGStore_Apply (Rotator_Apply ops) (meta_write ops) (Epoch_Bump ops) rs d = (Inr (), d')"
  shows "synced (2 * MaxSGEntriesPerDirection) zero ops d'"
    and "reads_sg t (view_of ops d') \<Longrightarrow> group_held t zero peers sg"
    and "sg_groupID other \<noteq> sg_groupID sg \<Longrightarrow> reads_sg t (view_of ops d') \<Longrightarrow>
      group_held (tables_of (view_of ops d)) zero peers other \<Longrightarrow> group_held t zero peers other"
proof -
  have g: "rs_groupID rs = sg_groupID sg" "sg_groupID sg \<noteq> 0" using x(1) by (auto elim!: ExpandSecurityGroup_parts)
  have fit: "fitRuleSet sgLayer rs MaxSGEntriesPerDirection = (rs, None)"
    using held_expansion(2,3)[OF x]
    by (intro fitRuleSet_fits) (simp_all add: MaxSGEntriesPerDirection_def SecurityGroupMaxEntriesPerDirection_def MAX_SG_RULES_PER_DIR_def)
  have sr: "store_result (Inr ())" by (simp add: store_result_def)
  have gr: "rs_groupID rs \<noteq> 0" using g by simp
  note spec = SGStore_installed[OF s run sr gr fit]
  show "synced (2 * MaxSGEntriesPerDirection) zero ops d'" by (rule spec(3))
  show "reads_sg t (view_of ops d') \<Longrightarrow> group_held t zero peers sg"
    using x(1) g spec(1,2) by (simp add: group_held_def reads_sg_def)
  show "sg_groupID other \<noteq> sg_groupID sg \<Longrightarrow> reads_sg t (view_of ops d') \<Longrightarrow>
      group_held (tables_of (view_of ops d)) zero peers other \<Longrightarrow> group_held t zero peers other"
    using g spec(1,2) by (simp add: group_held_def reads_sg_def tables_of_def)
qed

lemma apply_groups_held:
  assumes "apply_groups ops peers sgs d = Some d'" "synced (2 * MaxSGEntriesPerDirection) zero ops d"
    and "metas_written (2 * MaxSGEntriesPerDirection) zero ops" "\<forall>sg \<in> set sgs. sg_spec_ok sg" "distinct (map sg_groupID sgs)"
    and "reads_sg t (view_of ops d')"
  shows "(\<forall>sg \<in> set sgs. group_held t zero peers sg)
    \<and> (\<forall>other. sg_groupID other \<notin> set (map sg_groupID sgs) \<longrightarrow> group_held (tables_of (view_of ops d)) zero peers other
          \<longrightarrow> group_held t zero peers other)"
  using assms
proof (induction sgs arbitrary: d)
  case Nil
  then show ?case by (simp add: group_held_def reads_sg_def tables_of_def)
next
  case (Cons sg sgs)
  obtain rs d1 where x: "ExpandSecurityGroup sg peers = Inr rs"
    and run: "SGStore_Apply (Rotator_Apply ops) (meta_write ops) (Epoch_Bump ops) rs d = (Inr (), d1)"
    and rest: "apply_groups ops peers sgs d1 = Some d'"
    using Cons.prems(1) by (auto split: sum.splits prod.splits)
  have ok: "sg_spec_ok sg" using Cons.prems(4) by simp
  note one = apply_group_held[OF Cons.prems(2,3) x ok run]
  have r: "reads_sg (tables_of (view_of ops d1)) (view_of ops d1)" by (simp add: reads_sg_def tables_of_def)
  have IH: "(\<forall>sg \<in> set sgs. group_held t zero peers sg)
    \<and> (\<forall>other. sg_groupID other \<notin> set (map sg_groupID sgs) \<longrightarrow> group_held (tables_of (view_of ops d1)) zero peers other
          \<longrightarrow> group_held t zero peers other)"
    using Cons.prems by (intro Cons.IH[OF rest one(1)]) simp_all
  have "group_held t zero peers sg" using IH one(2)[OF r] Cons.prems(5) by simp
  moreover have "group_held t zero peers other"
    if "sg_groupID other \<notin> set (map sg_groupID (sg # sgs))" "group_held (tables_of (view_of ops d)) zero peers other" for other
    using IH one(3)[OF _ r] that by simp
  ultimately show ?case using IH by simp
qed

text \<open>
  C5. SecurityGroups that admission accepted are what the data plane enforces. Once the daemon applied
  them, an interface whose membership entry lists some of them gets, for every packet and direction, the
  verdict their rules ask for: allow when a rule of one of the groups covers the packet, where a peer
  group covers it when the peer's interface is in the group of that name; otherwise deny, except for
  egress when none of the groups declares egress rules.
\<close>

theorem security_groups_enforced:
  assumes "\<forall>sg \<in> set sgs. validateSecurityGroup rd sg (old sg) = Admitted \<and> sg_schema sg"
    and "distinct (map sg_groupID sgs)"
    and "synced (2 * MaxSGEntriesPerDirection) zero ops d" "metas_written (2 * MaxSGEntriesPerDirection) zero ops"
    and "apply_groups ops peers sgs d = Some d'" and "reads_sg t (view_of ops d')"
    and "set mine \<subseteq> set sgs" "sg_membership_lookup t vpc self = Some v" "smv_count v \<noteq> 0"
    and "sg_attached v = map sg_groupID mine"
  shows "sg_eval t (sg_membership_lookup t vpc self) (sg_membership_lookup t vpc (bpf_htonl a)) dir proto dport (bpf_htonl a) =
    groups_verdict peers (attached_of (sg_membership_lookup t vpc (bpf_htonl a))) mine dir proto dport a"
proof -
  have ok: "\<forall>sg \<in> set sgs. sg_spec_ok sg" using assms(1) by (blast intro: admitted_sg_spec_ok)
  have "\<forall>sg \<in> set mine. group_held t zero peers sg \<and> sg_spec_ok sg"
    using apply_groups_held[OF assms(5,3,4) ok assms(2,6)] ok assms(7) by blast
  then show ?thesis unfolding assms(8) using assms(9,10) by (rule sg_eval_held)
qed

end
