(* ===== verification/PolicyMem.thy ===== *)
theory PolicyMem
  imports GroupEndToEnd
begin

text \<open>
  A kernel in memory that keeps the promises the policy stores rely on, and the properties of the policy
  pipeline on concrete policies over it.
\<close>

section \<open>The kernel\<close>

record ('r, 'm) mem_kernel =
  mk_outer :: "(u32, nat) gomap"
  mk_inner :: "(nat, 'r list) gomap"
  mk_meta :: "(u32, 'm) gomap"
  mk_epoch :: u32

definition mem_kview :: "('r, 'm) mem_kernel \<Rightarrow> ('r, 'm) kernel_view" where
  "mem_kview s = \<lparr>kv_outer = map_of (mk_outer s), kv_inner = map_of (mk_inner s), kv_meta = map_of (mk_meta s),
     kv_epoch = mk_epoch s\<rparr>"

definition fresh_handle :: "('r, 'm) mem_kernel \<Rightarrow> nat" where
  "fresh_handle s = Suc (sum_list (map fst (mk_inner s)) + sum_list (map snd (mk_outer s)))"

definition mem_closed :: "nat \<Rightarrow> ('r, 'm) mem_kernel \<Rightarrow> ('r, 'm) mem_kernel" where
  "mem_closed h s = (if h \<in> set (map snd (mk_outer s)) then s else s\<lparr>mk_inner := AList.delete h (mk_inner s)\<rparr>)"

definition mem_bpf :: "nat \<Rightarrow> 'r \<Rightarrow> (('r, 'm) mem_kernel, 'r, 'm) bpf_ops" where
  "mem_bpf cap zero = \<lparr>
     newMap = (\<lambda>s. (Inr (fresh_handle s), s\<lparr>mk_inner := AList.update (fresh_handle s) (replicate cap zero) (mk_inner s)\<rparr>)),
     innerUpdate = (\<lambda>h slot r s. case map_of (mk_inner s) h of
        Some xs \<Rightarrow> if unat slot < length xs then (Inr (), s\<lparr>mk_inner := AList.update h (xs[unat slot := r]) (mk_inner s)\<rparr>)
                   else (Inl (BpfError ''E2BIG''), s)
      | None \<Rightarrow> (Inl (BpfError ''EBADF''), s)),
     closeMap = (\<lambda>h s. (Inr (), mem_closed h s)),
     outerUpdate = (\<lambda>g h s. (Inr (), s\<lparr>mk_outer := AList.update g h (mk_outer s)\<rparr>)),
     outerDelete = (\<lambda>g s. if map_of (mk_outer s) g = None then (Inl ErrKeyNotExist, s)
        else (Inr (), s\<lparr>mk_outer := AList.delete g (mk_outer s)\<rparr>)),
     metaUpdate = (\<lambda>g m s. (Inr (), s\<lparr>mk_meta := AList.update g m (mk_meta s)\<rparr>)),
     metaDelete = (\<lambda>g s. if map_of (mk_meta s) g = None then (Inl ErrKeyNotExist, s)
        else (Inr (), s\<lparr>mk_meta := AList.delete g (mk_meta s)\<rparr>)),
     epochLoad = (\<lambda>s. (Inr (mk_epoch s), s)),
     epochStore = (\<lambda>x s. (Inr (), s\<lparr>mk_epoch := x\<rparr>)),
     kview = mem_kview\<rparr>"

lemma fresh_handle_fresh:
  "fresh_handle s \<notin> set (map fst (mk_inner s))" "fresh_handle s \<notin> set (map snd (mk_outer s))"
  using member_le_sum_list[of "fresh_handle s" "map fst (mk_inner s)"]
    member_le_sum_list[of "fresh_handle s" "map snd (mk_outer s)"]
  by (auto simp: fresh_handle_def)

lemma ran_map_of_subset: "ran (map_of m) \<subseteq> set (map snd m)"
  by (auto simp: ran_def dest: map_of_SomeD intro: rev_image_eqI)

lemma mem_close: "closed_map h (mem_kview s) (mem_kview (mem_closed h s))"
proof (cases "h \<in> set (map snd (mk_outer s))")
  case True
  then show ?thesis
    by (simp add: closed_map_def mem_closed_def) (rule exI[of _ "kv_inner (mem_kview s)"], simp)
next
  case False
  then have "h \<notin> ran (map_of (mk_outer s))" using ran_map_of_subset[of "mk_outer s"] by auto
  then show ?thesis
    using False unfolding closed_map_def
    by (intro exI[of _ "(map_of (mk_inner s))(h := None)"]) (simp add: mem_kview_def mem_closed_def delete_conv')
qed

lemma mem_close_call: "\<forall>h s r s'. closeMap (mem_bpf cap zero) h s = (r, s') \<longrightarrow>
    closed_map h (kview (mem_bpf cap zero) s) (kview (mem_bpf cap zero) s')"
  by (simp add: mem_bpf_def mem_close)

lemma mem_bpf_ok: "bpf_ok cap zero (mem_bpf cap zero)"
proof -
  have fresh: "map_of (mk_inner s) (fresh_handle s) = None" "fresh_handle s \<notin> ran (map_of (mk_outer s))"
    for s :: "('a, 'b) mem_kernel"
    using fresh_handle_fresh[of s] ran_map_of_subset[of "mk_outer s"] by (auto simp: map_of_eq_None_iff)
  show ?thesis
    unfolding bpf_ok_def
    by (intro conjI; (rule mem_close_call)?)
      (auto simp: fresh kview_ok_def mem_bpf_def mem_kview_def update_conv' delete_conv' split: option.splits if_splits)
qed

lemma mem_metas_written: "metas_written cap zero (mem_bpf cap zero)"
  by (simp add: metas_written_def meta_write_def kern_def mem_bpf_def)

definition mem_start :: "('r, 'm) mem_kernel policy_state" where
  "mem_start = \<lparr>pl_kernel = \<lparr>mk_outer = [], mk_inner = [], mk_meta = [], mk_epoch = 0\<rparr>, pl_snapshots = [], pl_installed = [],
     pl_current = 0\<rparr>"

lemma mem_synced: "synced cap zero (mem_bpf cap zero) mem_start"
  unfolding synced_def by (intro conjI mem_bpf_ok) (simp add: view_of_def mem_bpf_def mem_kview_def mem_start_def)

section \<open>A NetworkACL\<close>

definition zero_acl_rule :: acl_rule where
  "zero_acl_rule = \<lparr>bar_proto = 0, bar_port_lo = 0, bar_port_hi = 0, bar_priority = 0, bar_peer_v4 = 0, bar_direction = 0,
     bar_prefixlen = 0, bar_verdict = 0\<rparr>"

definition ex_acl_ops :: "((acl_rule, acl_meta_val) mem_kernel, acl_rule, acl_meta_val) bpf_ops" where
  "ex_acl_ops = mem_bpf (2 * MaxACLEntriesPerDirection) zero_acl_rule"

lemma ex_acl_ops_ok:
  "synced (2 * MaxACLEntriesPerDirection) zero_acl_rule ex_acl_ops mem_start"
  "metas_written (2 * MaxACLEntriesPerDirection) zero_acl_rule ex_acl_ops"
  unfolding ex_acl_ops_def by (rule mem_synced mem_metas_written)+

definition ex_acl_apply :: "rule_set \<Rightarrow> (policy_error + unit) \<times> (acl_rule, acl_meta_val) mem_kernel policy_state" where
  "ex_acl_apply rs = ACLStore_Apply (Rotator_Apply ex_acl_ops) (meta_write ex_acl_ops) (Epoch_Bump ex_acl_ops) rs mem_start"

definition acl_tables :: "(acl_rule, acl_meta_val) kernel_view \<Rightarrow> policy_tables" where
  "acl_tables v = \<lparr>acl_meta_map = kv_meta v, acl_rule_table = installed_rules v, sg_meta_map = (\<lambda>_. None),
     sg_rule_table = (\<lambda>_. None), sg_membership_map = (\<lambda>_. None)\<rparr>"

lemma reads_acl_tables: "reads_acl (acl_tables v) v"
  by (simp add: reads_acl_def acl_tables_def)

definition ex_acl_rules :: rule_set where
  "ex_acl_rules = projr (ExpandNetworkACL ex_acl)"

definition ex_acl_tables :: policy_tables where
  "ex_acl_tables = acl_tables (view_of ex_acl_ops (snd (ex_acl_apply ex_acl_rules)))"

text \<open>Port 80 from 192.0.2.1 is allowed, from 10.1.2.3 it is denied.\<close>

theorem network_acl_enforced_witness:
  "acl_decides (na_ingress ex_acl) 6 80 0xC0000201 (acl_evaluate ex_acl_tables 7 DirIngress 6 80 (bpf_htonl 0xC0000201))
   \<and> acl_evaluate ex_acl_tables 7 DirIngress 6 80 (bpf_htonl 0xC0000201) = ACL_VERDICT_ALLOW
   \<and> acl_evaluate ex_acl_tables 7 DirIngress 6 80 (bpf_htonl 0x0A010203) = ACL_VERDICT_DENY"
proof -
  have adm: "validateNetworkACL ex_reader ex_acl None = Admitted" by code_simp
  have sch: "acl_schema (na_ingress ex_acl)" "acl_schema (na_egress ex_acl)"
    by (simp_all add: acl_schema_def ex_acl_def port_in_range_def)
  have x: "ExpandNetworkACL ex_acl = Inr ex_acl_rules" by code_simp
  have r: "fst (ex_acl_apply ex_acl_rules) = Inr ()" by code_simp
  then have run: "ACLStore_Apply (Rotator_Apply ex_acl_ops) (meta_write ex_acl_ops) (Epoch_Bump ex_acl_ops) ex_acl_rules mem_start =
      (Inr (), snd (ex_acl_apply ex_acl_rules))"
    unfolding ex_acl_apply_def by (metis prod.collapse)
  have id: "na_aclID ex_acl = 7" by (simp add: ex_acl_def)
  have "acl_evaluate ex_acl_tables 7 DirIngress 6 80 (bpf_htonl 0xC0000201) = ACL_VERDICT_ALLOW" by code_simp
  moreover have "acl_evaluate ex_acl_tables 7 DirIngress 6 80 (bpf_htonl 0x0A010203) = ACL_VERDICT_DENY" by code_simp
  ultimately show ?thesis
    using network_acl_enforced[OF adm sch x ex_acl_ops_ok run reads_acl_tables, of 6 80 "0xC0000201"] id
    by (simp add: ex_acl_tables_def)
qed

text \<open>Seventeen rules do not fit: ingress is denied, and the egress direction still passes.\<close>

definition ex_overflow :: rule_set where
  "ex_overflow = ex_acl_rules\<lparr>rs_ingress := replicate 17 (hd (rs_ingress ex_acl_rules))\<rparr>"

definition ex_overflow_error :: policy_error where
  "ex_overflow_error = projl (fst (ex_acl_apply ex_overflow))"

theorem acl_overflow_denied_witness:
  "acl_evaluate (acl_tables (view_of ex_acl_ops (snd (ex_acl_apply ex_overflow)))) (rs_groupID ex_overflow)
     DirIngress 6 80 (bpf_htonl 0xC0000201) = ACL_VERDICT_DENY"
proof -
  have r: "fst (ex_acl_apply ex_overflow) = Inl ex_overflow_error" by code_simp
  then have run: "ACLStore_Apply (Rotator_Apply ex_acl_ops) (meta_write ex_acl_ops) (Epoch_Bump ex_acl_ops) ex_overflow mem_start =
      (Inl ex_overflow_error, snd (ex_acl_apply ex_overflow))"
    unfolding ex_acl_apply_def by (metis prod.collapse)
  have c: "CapacityErrorsFrom (Some ex_overflow_error) \<noteq> []" by code_simp
  have "length (dir_rules ex_overflow DirIngress) > MaxACLEntriesPerDirection" by code_simp
  then show ?thesis
    using acl_overflow_denied[OF ex_acl_ops_ok run c reads_acl_tables, of _ DirIngress 6 80 "bpf_htonl 0xC0000201"] by simp
qed

section \<open>Two SecurityGroups\<close>

definition zero_sg_rule :: sg_rule where
  "zero_sg_rule = \<lparr>bsr_proto = 0, bsr_port_lo = 0, bsr_port_hi = 0, bsr_direction = 0, bsr_peer_kind = 0, bsr_peer_v4 = 0,
     bsr_peer_prefixlen = 0, bsr_verdict = 0\<rparr>"

definition ex_sg_ops :: "((sg_rule, sg_meta_val) mem_kernel, sg_rule, sg_meta_val) bpf_ops" where
  "ex_sg_ops = mem_bpf (2 * MaxSGEntriesPerDirection) zero_sg_rule"

lemma ex_sg_ops_ok:
  "synced (2 * MaxSGEntriesPerDirection) zero_sg_rule ex_sg_ops mem_start"
  "metas_written (2 * MaxSGEntriesPerDirection) zero_sg_rule ex_sg_ops"
  unfolding ex_sg_ops_def by (rule mem_synced mem_metas_written)+

definition ex_db :: security_group where
  "ex_db = ex_sg\<lparr>sg_name := ''db'', sg_groupID := 9, sg_egress := None\<rparr>"

definition ex_sgs_state :: "(sg_rule, sg_meta_val) mem_kernel policy_state" where
  "ex_sgs_state = the (apply_groups ex_sg_ops (MapPeerResolver [(''db'', 9)]) [ex_sg, ex_db] mem_start)"

text \<open>The interface at 192.0.2.1 is in both groups, its peer at 192.0.2.2 in the second one.\<close>

definition ex_sg_tables :: policy_tables where
  "ex_sg_tables = (tables_of (view_of ex_sg_ops ex_sgs_state))\<lparr>sg_membership_map :=
     [(5, bpf_htonl 0xC0000201) \<mapsto> \<lparr>smv_count = 2, smv_sgs = [3, 9]\<rparr>,
      (5, bpf_htonl 0xC0000202) \<mapsto> \<lparr>smv_count = 1, smv_sgs = [9, 0]\<rparr>]\<rparr>"

theorem security_groups_enforced_witness:
  "sg_eval ex_sg_tables (sg_membership_lookup ex_sg_tables 5 (bpf_htonl 0xC0000201))
       (sg_membership_lookup ex_sg_tables 5 (bpf_htonl 0xC0000202)) DirIngress 17 53 (bpf_htonl 0xC0000202) = SG_VERDICT_ALLOW
   \<and> groups_verdict (MapPeerResolver [(''db'', 9)]) [9] [ex_sg, ex_db] DirIngress 17 53 0xC0000202 = SG_VERDICT_ALLOW"
proof -
  have adm: "\<forall>sg \<in> set [ex_sg, ex_db]. validateSecurityGroup ex_reader sg None = Admitted \<and> sg_schema sg"
  proof -
    have "validateSecurityGroup ex_reader ex_sg None = Admitted" "validateSecurityGroup ex_reader ex_db None = Admitted"
      by code_simp+
    moreover have "sg_schema ex_sg" "sg_schema ex_db"
      by (auto simp: sg_schema_def sg_direction_rules_def ex_sg_def ex_db_def port_in_range_def split: direction.splits)
    ultimately show ?thesis by simp
  qed
  have d: "distinct (map sg_groupID [ex_sg, ex_db])" by (simp add: ex_sg_def ex_db_def)
  have "apply_groups ex_sg_ops (MapPeerResolver [(''db'', 9)]) [ex_sg, ex_db] mem_start \<noteq> None" by code_simp
  then have run: "apply_groups ex_sg_ops (MapPeerResolver [(''db'', 9)]) [ex_sg, ex_db] mem_start = Some ex_sgs_state"
    by (simp add: ex_sgs_state_def)
  have t: "reads_sg ex_sg_tables (view_of ex_sg_ops ex_sgs_state)" by (simp add: reads_sg_def ex_sg_tables_def tables_of_def)
  have m: "sg_membership_lookup ex_sg_tables 5 (bpf_htonl 0xC0000201) = Some \<lparr>smv_count = 2, smv_sgs = [3, 9]\<rparr>"
    and p: "attached_of (sg_membership_lookup ex_sg_tables 5 (bpf_htonl 0xC0000202)) = [9]"
    by (simp_all add: sg_membership_lookup_def ex_sg_tables_def attached_of_def sg_attached_def MAX_SGS_PER_NIC_def)
  have a: "sg_attached \<lparr>smv_count = 2, smv_sgs = [3, 9]\<rparr> = map sg_groupID [ex_sg, ex_db]"
    by (simp add: sg_attached_def MAX_SGS_PER_NIC_def ex_sg_def ex_db_def)
  have "sg_eval ex_sg_tables (sg_membership_lookup ex_sg_tables 5 (bpf_htonl 0xC0000201))
       (sg_membership_lookup ex_sg_tables 5 (bpf_htonl 0xC0000202)) DirIngress 17 53 (bpf_htonl 0xC0000202) = SG_VERDICT_ALLOW"
    by code_simp
  then show ?thesis
    using security_groups_enforced[OF adm d ex_sg_ops_ok run t order.refl m _ a, of "0xC0000202" DirIngress 17 53] p
    by simp
qed

end
