(* ===== verification/BpfMap.thy ===== *)
theory BpfMap
  imports Prelude
begin

text \<open>
  BPF hash maps as the daemon reaches them through the third-party eBPF library: the calls are the
  fields of \<open>hash_map\<close>, over an abstract kernel state, and \<open>hm_view\<close> is what the data plane reads there.
  \<open>hash_map_ok\<close> states what the library documents; \<open>mem_hash\<close> is a map in memory that keeps it.
\<close>

datatype ebpf_error = KeyNotExist | KeyExist | NoSpace | EbpfError string

record ('s, 'k, 'v) hash_map =
  hm_lookup :: "'k \<Rightarrow> ('s, ebpf_error, 'v) api"
  hm_update :: "'k \<Rightarrow> 'v \<Rightarrow> ('s, ebpf_error, unit) api"
  hm_create :: "'k \<Rightarrow> 'v \<Rightarrow> ('s, ebpf_error, unit) api"
  hm_delete :: "'k \<Rightarrow> ('s, ebpf_error, unit) api"
  hm_view :: "'s \<Rightarrow> 'k \<Rightarrow> 'v option"

text \<open>\<open>hm_update\<close> is \<open>Update\<close> with \<open>UpdateAny\<close>, \<open>hm_create\<close> is \<open>Update\<close> with \<open>UpdateNoExist\<close>.\<close>

definition hash_map_ok :: "('s, 'k, 'v) hash_map \<Rightarrow> bool" where
  "hash_map_ok m \<longleftrightarrow>
     (\<forall>k s r s'. hm_lookup m k s = (r, s') \<longrightarrow> hm_view m s' = hm_view m s
        \<and> (case r of Inr v \<Rightarrow> hm_view m s k = Some v | Inl e \<Rightarrow> e = KeyNotExist \<longrightarrow> hm_view m s k = None))
   \<and> (\<forall>k v s r s'. hm_update m k v s = (r, s') \<longrightarrow>
        hm_view m s' = (case r of Inr _ \<Rightarrow> (hm_view m s)(k \<mapsto> v) | Inl _ \<Rightarrow> hm_view m s))
   \<and> (\<forall>k v s r s'. hm_create m k v s = (r, s') \<longrightarrow>
        (case r of Inr _ \<Rightarrow> hm_view m s k = None \<and> hm_view m s' = (hm_view m s)(k \<mapsto> v)
         | Inl e \<Rightarrow> hm_view m s' = hm_view m s \<and> (e = KeyExist \<longrightarrow> hm_view m s k \<noteq> None)))
   \<and> (\<forall>k s r s'. hm_delete m k s = (r, s') \<longrightarrow>
        (case r of Inr _ \<Rightarrow> hm_view m s k \<noteq> None \<and> hm_view m s' = (hm_view m s)(k := None)
         | Inl e \<Rightarrow> hm_view m s' = hm_view m s \<and> (e = KeyNotExist \<longrightarrow> hm_view m s k = None)))"

lemma hm_lookup_spec:
  assumes "hash_map_ok m" "hm_lookup m k s = (r, s')"
  shows "hm_view m s' = hm_view m s" "r = Inr v \<Longrightarrow> hm_view m s k = Some v" "r = Inl KeyNotExist \<Longrightarrow> hm_view m s k = None"
  using assms(1)[unfolded hash_map_ok_def, THEN conjunct1, rule_format, OF assms(2)] by simp_all

lemma hm_update_spec:
  assumes "hash_map_ok m" "hm_update m k v s = (r, s')"
  shows "r = Inr x \<Longrightarrow> hm_view m s' = (hm_view m s)(k \<mapsto> v)" "r = Inl e \<Longrightarrow> hm_view m s' = hm_view m s"
  using assms(1)[unfolded hash_map_ok_def, THEN conjunct2, THEN conjunct1, rule_format, OF assms(2)] by simp_all

lemma hm_create_spec:
  assumes "hash_map_ok m" "hm_create m k v s = (r, s')"
  shows "r = Inr x \<Longrightarrow> hm_view m s' = (hm_view m s)(k \<mapsto> v)" "r = Inr x \<Longrightarrow> hm_view m s k = None"
    "r = Inl e \<Longrightarrow> hm_view m s' = hm_view m s" "r = Inl KeyExist \<Longrightarrow> hm_view m s k \<noteq> None"
  using assms(1)[unfolded hash_map_ok_def, THEN conjunct2, THEN conjunct2, THEN conjunct1, rule_format, OF assms(2)] by simp_all

lemma hm_delete_spec:
  assumes "hash_map_ok m" "hm_delete m k s = (r, s')"
  shows "r = Inr x \<Longrightarrow> hm_view m s' = (hm_view m s)(k := None)" "r = Inr x \<Longrightarrow> hm_view m s k \<noteq> None"
    "r = Inl e \<Longrightarrow> hm_view m s' = hm_view m s" "r = Inl KeyNotExist \<Longrightarrow> hm_view m s k = None"
  using assms(1)[unfolded hash_map_ok_def, THEN conjunct2, THEN conjunct2, THEN conjunct2, rule_format, OF assms(2)] by simp_all

section \<open>A map in memory\<close>

definition mem_hash :: "nat \<Rightarrow> (('k, 'v) gomap, 'k, 'v) hash_map" where
  "mem_hash cap = \<lparr>
     hm_lookup = (\<lambda>k s. (case map_of s k of None \<Rightarrow> Inl KeyNotExist | Some v \<Rightarrow> Inr v, s)),
     hm_update = (\<lambda>k v s. if map_of s k = None \<and> length s \<ge> cap then (Inl (EbpfError ''E2BIG''), s)
                           else (Inr (), AList.update k v s)),
     hm_create = (\<lambda>k v s. if map_of s k \<noteq> None then (Inl KeyExist, s)
                           else if length s \<ge> cap then (Inl (EbpfError ''E2BIG''), s) else (Inr (), AList.update k v s)),
     hm_delete = (\<lambda>k s. if map_of s k = None then (Inl KeyNotExist, s) else (Inr (), AList.delete k s)),
     hm_view = map_of\<rparr>"

lemma mem_hash_ok: "hash_map_ok (mem_hash cap)"
  by (auto simp: hash_map_ok_def mem_hash_def update_conv' delete_conv' split: option.splits if_splits)

end
