(* ===== verification/MapSweep.thy ===== *)
theory MapSweep
  imports BpfMap
begin

text \<open>
  Garbage collection of BPF hash maps (\<open>daemon/internal/daemon/dataplane/internal/mapsweep\<close>): a batched
  snapshot of the whole map, a plan over it, and a remove step that rechecks every group of keys. The
  contract between the sweep and its planners is the locale \<open>sweep_planner\<close>.
\<close>

section \<open>Plans\<close>

record ('k, 'v) current =
  cu_key :: 'k
  cu_value :: "'v option"

text \<open>\<open>Present\<close> is that there is a value.\<close>

record 'k group =
  gr_keys :: "'k list"
  gr_reason :: string

record ('k, 'v) plan =
  pl_groups :: "'k group list"
  pl_confirm :: "'k group \<Rightarrow> ('k, 'v) current list \<Rightarrow> bool"

record stats =
  st_capacity :: nat
  st_read :: nat
  st_removed :: "(string, nat) gomap"
  st_kept :: nat

datatype sweep_error =
    WrongMapType
  | BucketTooLarge nat
  | BatchFailed ebpf_error
  | LookUpFailed ebpf_error
  | DeleteFailed ebpf_error

definition ByEntry :: "('k \<times> 'v) list \<Rightarrow> string \<Rightarrow> ('k \<Rightarrow> 'v \<Rightarrow> bool) \<Rightarrow> ('k, 'v) plan" where
  "ByEntry snapshot reason stale =
     \<lparr>pl_groups = map (\<lambda>(k, v). \<lparr>gr_keys = [k], gr_reason = reason\<rparr>) (filter (\<lambda>(k, v). stale k v) snapshot),
      pl_confirm = (\<lambda>_ current. case current of
         c # _ \<Rightarrow> (case cu_value c of Some v \<Rightarrow> stale (cu_key c) v | None \<Rightarrow> False) | [] \<Rightarrow> False)\<rparr>"

section \<open>The snapshot\<close>

datatype map_type = Hash | LRUHash | OtherMap

record ('s, 'c, 'k, 'v) batch_map =
  bm_type :: map_type
  bm_maxEntries :: nat
  bm_start :: 'c
  bm_batch :: "'c \<Rightarrow> nat \<Rightarrow> 's \<Rightarrow> (('k \<times> 'v) list \<times> ebpf_error option \<times> 'c) \<times> 's"

text \<open>
  The read loop. A call of \<open>BatchLookup\<close> gives the entries read, its error and the moved cursor. The first
  argument bounds the number of calls.
\<close>

fun snapshot_loop :: "nat \<Rightarrow> ('s, 'c, 'k, 'v) batch_map \<Rightarrow> 'c \<Rightarrow> nat \<Rightarrow> ('k \<times> 'v) list \<Rightarrow> 's
    \<Rightarrow> (sweep_error + ('k \<times> 'v) list) option \<times> 's" where
  "snapshot_loop 0 m cursor buf out s = (None, s)"
| "snapshot_loop (Suc fuel) m cursor buf out s =
     (case bm_batch m cursor buf s of ((entries, err, cursor'), s') \<Rightarrow>
        let out' = out @ entries
        in case err of
             Some KeyNotExist \<Rightarrow> (Some (Inr out'), s')
           | Some NoSpace \<Rightarrow>
               if buf \<ge> bm_maxEntries m then (Some (Inl (BucketTooLarge buf)), s')
               else snapshot_loop fuel m cursor' (min (2 * buf) (bm_maxEntries m)) out' s'
           | Some e \<Rightarrow> (Some (Inl (BatchFailed e)), s')
           | None \<Rightarrow> snapshot_loop fuel m cursor' buf out' s')"

definition snapshot :: "nat \<Rightarrow> ('s, 'c, 'k, 'v) batch_map \<Rightarrow> nat \<Rightarrow> 's
    \<Rightarrow> (sweep_error + ('k \<times> 'v) list) option \<times> 's" where
  "snapshot fuel m chunk s =
     (case bm_type m of
        OtherMap \<Rightarrow> (Some (Inl WrongMapType), s)
      | _ \<Rightarrow> snapshot_loop fuel m (bm_start m) (min chunk (bm_maxEntries m)) [] s)"

definition defaultChunk :: nat where "defaultChunk = 4096"

definition Snapshot :: "nat \<Rightarrow> ('s, 'c, 'k, 'v) batch_map \<Rightarrow> 's \<Rightarrow> (sweep_error + ('k \<times> 'v) list) option \<times> 's" where
  "Snapshot fuel m s = snapshot fuel m defaultChunk s"

section \<open>The remove step\<close>

fun recheck :: "('s, 'k, 'v) hash_map \<Rightarrow> 'k list \<Rightarrow> ('s, sweep_error, ('k, 'v) current list) api" where
  "recheck m [] = api_return []"
| "recheck m (key # keys) = api_bind (api_try (hm_lookup m key)) (\<lambda>r.
     case r of
       Inl e \<Rightarrow> if e \<noteq> KeyNotExist then api_throw (LookUpFailed e)
               else api_bind (recheck m keys) (\<lambda>cs. api_return (\<lparr>cu_key = key, cu_value = None\<rparr> # cs))
     | Inr v \<Rightarrow> api_bind (recheck m keys) (\<lambda>cs. api_return (\<lparr>cu_key = key, cu_value = Some v\<rparr> # cs)))"

definition remove :: "('s, 'k, 'v) hash_map \<Rightarrow> 'k \<Rightarrow> ('s, sweep_error, bool) api" where
  "remove m key = api_bind (api_try (hm_delete m key)) (\<lambda>r.
     case r of Inr _ \<Rightarrow> api_return True
     | Inl e \<Rightarrow> if e = KeyNotExist then api_return False else api_throw (DeleteFailed e))"

definition count_removed :: "string \<Rightarrow> stats \<Rightarrow> stats" where
  "count_removed reason st = st\<lparr>st_removed := AList.update reason
     (Suc (case map_of (st_removed st) reason of None \<Rightarrow> 0 | Some n \<Rightarrow> n)) (st_removed st)\<rparr>"

text \<open>The counts are returned next to the error, also when the pass stops part way.\<close>

fun remove_all :: "('s, 'k, 'v) hash_map \<Rightarrow> string \<Rightarrow> ('k, 'v) current list \<Rightarrow> stats \<Rightarrow> 's
    \<Rightarrow> (stats \<times> sweep_error option) \<times> 's" where
  "remove_all m reason [] st s = ((st, None), s)"
| "remove_all m reason (c # cs) st s =
     (if cu_value c = None then remove_all m reason cs st s
      else case remove m (cu_key c) s of
        (Inl e, s') \<Rightarrow> ((st, Some e), s')
      | (Inr removed, s') \<Rightarrow> remove_all m reason cs (if removed then count_removed reason st else st) s')"

fun sweep_groups :: "('s, 'k, 'v) hash_map \<Rightarrow> ('k group \<Rightarrow> ('k, 'v) current list \<Rightarrow> bool) \<Rightarrow> 'k group list \<Rightarrow> stats \<Rightarrow> 's
    \<Rightarrow> (stats \<times> sweep_error option) \<times> 's" where
  "sweep_groups m confirm [] st s = ((st, None), s)"
| "sweep_groups m confirm (g # gs) st s =
     (case recheck m (gr_keys g) s of
        (Inl e, s') \<Rightarrow> ((st, Some e), s')
      | (Inr current, s') \<Rightarrow>
          let present = length (filter (\<lambda>c. cu_value c \<noteq> None) current)
          in if present = 0 then sweep_groups m confirm gs st s'
             else if \<not> confirm g current then sweep_groups m confirm gs (st\<lparr>st_kept := st_kept st + present\<rparr>) s'
             else case remove_all m (gr_reason g) current st s' of
               ((st', Some e), s'') \<Rightarrow> ((st', Some e), s'')
             | ((st', None), s'') \<Rightarrow> sweep_groups m confirm gs st' s'')"

definition Sweep :: "nat \<Rightarrow> ('s, 'c, 'k, 'v) batch_map \<Rightarrow> ('s, 'k, 'v) hash_map \<Rightarrow> (('k \<times> 'v) list \<Rightarrow> ('k, 'v) plan) \<Rightarrow> 's
    \<Rightarrow> (stats \<times> sweep_error option) option \<times> 's" where
  "Sweep fuel bm m planner s =
     (let st = \<lparr>st_capacity = bm_maxEntries bm, st_read = 0, st_removed = [], st_kept = 0\<rparr>
      in case Snapshot fuel bm s of
           (None, s') \<Rightarrow> (None, s')
         | (Some (Inl e), s') \<Rightarrow> (Some (st, Some e), s')
         | (Some (Inr entries), s') \<Rightarrow>
             let p = planner entries
             in case sweep_groups m (pl_confirm p) (pl_groups p) (st\<lparr>st_read := length entries\<rparr>) s' of
                  (res, s'') \<Rightarrow> (Some res, s''))"

section \<open>The snapshot returns\<close>

text \<open>
  What the library and the kernel document about a batch lookup on a map nobody else touches: the cursor
  counts the buckets that are left, a call returns whole buckets in order, the last call says so with
  \<open>ErrKeyNotExist\<close>, and a bucket that does not fit fails with \<open>ENOSPC\<close> and leaves the cursor. \<open>content\<close> is
  what is left to read from a cursor.
\<close>

definition batch_ok :: "('s, 'c, 'k, 'v) batch_map \<Rightarrow> ('c \<Rightarrow> nat) \<Rightarrow> ('c \<Rightarrow> ('k \<times> 'v) list) \<Rightarrow> ('s \<Rightarrow> bool) \<Rightarrow> bool" where
  "batch_ok m rank content I \<longleftrightarrow> bm_maxEntries m > 0
     \<and> (\<forall>c buf s entries err c' s'. I s \<longrightarrow> bm_batch m c buf s = ((entries, err, c'), s') \<longrightarrow> I s'
        \<and> (case err of
             None \<Rightarrow> rank c' < rank c \<and> content c = entries @ content c'
           | Some KeyNotExist \<Rightarrow> content c = entries
           | Some NoSpace \<Rightarrow> rank c' \<le> rank c \<and> entries = [] \<and> content c' = content c \<and> buf < bm_maxEntries m
           | Some e \<Rightarrow> True))"

lemma snapshot_loop_returns:
  assumes ok: "batch_ok m rank content I" and "I s" "0 < buf" "buf \<le> bm_maxEntries m"
    and "rank c * Suc (bm_maxEntries m) + (bm_maxEntries m - buf) < fuel"
  shows "\<exists>r s'. snapshot_loop fuel m c buf out s = (Some r, s') \<and> I s'
    \<and> (case r of Inr es \<Rightarrow> es = out @ content c | Inl e \<Rightarrow> \<exists>x. e = BatchFailed x)"
  using assms(2-)
proof (induction fuel arbitrary: c buf out s)
  case (Suc fuel)
  obtain entries err c' s' where b: "bm_batch m c buf s = ((entries, err, c'), s')" by (metis surj_pair)
  then have law: "I s'" "(case err of
             None \<Rightarrow> rank c' < rank c \<and> content c = entries @ content c'
           | Some KeyNotExist \<Rightarrow> content c = entries
           | Some NoSpace \<Rightarrow> rank c' \<le> rank c \<and> entries = [] \<and> content c' = content c \<and> buf < bm_maxEntries m
           | Some e \<Rightarrow> True)"
    using ok Suc.prems(1) unfolding batch_ok_def by blast+
  consider (more) "err = None" | (last) "err = Some KeyNotExist" | (grow) "err = Some NoSpace"
    | (fail) e where "err = Some e" "e \<noteq> KeyNotExist" "e \<noteq> NoSpace"
    by (cases err) auto
  then show ?case
  proof cases
    case more
    then have r: "rank c' < rank c" "content c = entries @ content c'" using law by simp_all
    then have "rank c' * Suc (bm_maxEntries m) + Suc (bm_maxEntries m) \<le> rank c * Suc (bm_maxEntries m)"
      by (metis Suc_leI add.commute mult_Suc mult_le_mono1)
    then have "rank c' * Suc (bm_maxEntries m) + (bm_maxEntries m - buf) < fuel"
      using Suc.prems by linarith
    then show ?thesis using Suc.IH[OF law(1), of buf c' "out @ entries"] Suc.prems more b r(2) by (simp cong: sum.case_cong)
  next
    case last
    then show ?thesis using law b by simp
  next
    case grow
    then have r: "rank c' \<le> rank c" "entries = []" "content c' = content c" "buf < bm_maxEntries m" using law by simp_all
    let ?buf = "min (2 * buf) (bm_maxEntries m)"
    have "rank c' * Suc (bm_maxEntries m) \<le> rank c * Suc (bm_maxEntries m)" using r(1) by (rule mult_le_mono1)
    moreover have "bm_maxEntries m - ?buf < bm_maxEntries m - buf" using r(4) Suc.prems(2) by auto
    ultimately have "rank c' * Suc (bm_maxEntries m) + (bm_maxEntries m - ?buf) < fuel" using Suc.prems by linarith
    then show ?thesis using Suc.IH[OF law(1), of ?buf c' out] Suc.prems grow b r by (simp cong: sum.case_cong)
  next
    case fail
    then show ?thesis using law b by (cases e) auto
  qed
qed simp

lemma Snapshot_reads:
  assumes "batch_ok m rank content I" "I s" "bm_type m \<noteq> OtherMap"
    and "(rank (bm_start m) + 1) * Suc (bm_maxEntries m) < fuel"
  shows "\<exists>r s'. Snapshot fuel m s = (Some r, s') \<and> I s'
    \<and> (case r of Inr es \<Rightarrow> es = content (bm_start m) | Inl e \<Rightarrow> \<exists>x. e = BatchFailed x)"
proof -
  let ?buf = "min defaultChunk (bm_maxEntries m)"
  have "0 < bm_maxEntries m" using assms(1) by (simp add: batch_ok_def)
  then have "0 < ?buf" "?buf \<le> bm_maxEntries m" by (simp_all add: defaultChunk_def)
  moreover have "rank (bm_start m) * Suc (bm_maxEntries m) + (bm_maxEntries m - ?buf) < fuel" using assms(4) by simp
  ultimately show ?thesis
    using snapshot_loop_returns[OF assms(1,2), of ?buf "bm_start m" fuel "[]"] assms(3)
    by (cases "bm_type m") (simp_all add: Snapshot_def snapshot_def cong: sum.case_cong)
qed

text \<open>
  C27. Reading a whole map terminates and misses nothing. On a hash map that nobody else touches, enough
  calls of the batch lookup, a number that depends on the buckets and on the size of the map only, end
  the read, and its result is every entry of the map unless a call fails; a bucket that does not fit the
  buffer is never a failure.
\<close>

theorem Snapshot_returns:
  assumes "batch_ok m rank content I" "I s" "bm_type m \<noteq> OtherMap"
    and "(rank (bm_start m) + 1) * Suc (bm_maxEntries m) < fuel"
  shows "\<exists>r s'. Snapshot fuel m s = (Some r, s')
    \<and> (case r of Inr es \<Rightarrow> es = content (bm_start m) | Inl e \<Rightarrow> \<exists>x. e = BatchFailed x)"
  using Snapshot_reads[OF assms] by blast

section \<open>The remove step removes what was confirmed\<close>

definition currents :: "('k \<Rightarrow> 'v option) \<Rightarrow> 'k list \<Rightarrow> ('k, 'v) current list" where
  "currents w keys = map (\<lambda>k. \<lparr>cu_key = k, cu_value = w k\<rparr>) keys"

lemma recheck_spec:
  assumes "hash_map_ok m" "recheck m keys s = (r, s')"
  shows "hm_view m s' = hm_view m s \<and> (\<forall>cs. r = Inr cs \<longrightarrow> cs = currents (hm_view m s) keys)"
  using assms(2)
proof (induction keys arbitrary: s r s')
  case (Cons k keys)
  obtain r1 s1 where l: "hm_lookup m k s = (r1, s1)" by (cases "hm_lookup m k s")
  note law = hm_lookup_spec[OF assms(1) l]
  obtain r2 s2 where c: "recheck m keys s1 = (r2, s2)" by (cases "recheck m keys s1")
  note IH = Cons.IH[OF this]
  show ?case
    using Cons.prems l c IH law
    by (cases r1; cases r2) (auto simp: api_bind_def api_try_def currents_def split: if_splits)
qed (simp add: currents_def)

lemma remove_spec:
  assumes "hash_map_ok m" "remove m k s = (r, s')"
  shows "r = Inr b \<Longrightarrow> hm_view m s' = (hm_view m s)(k := None)" "r = Inl e \<Longrightarrow> hm_view m s' = hm_view m s"
proof -
  obtain r1 s1 where d: "hm_delete m k s = (r1, s1)" by (cases "hm_delete m k s")
  note law = hm_delete_spec[OF assms(1) d]
  show "r = Inr b \<Longrightarrow> hm_view m s' = (hm_view m s)(k := None)" "r = Inl e \<Longrightarrow> hm_view m s' = hm_view m s"
    using assms(2) d law by (cases r1; force simp: remove_def api_bind_def api_try_def split: if_splits)+
qed

text \<open>What is left after removing some of a list of keys.\<close>

definition cut :: "'k set \<Rightarrow> ('k \<Rightarrow> 'v option) \<Rightarrow> 'k \<Rightarrow> 'v option" where
  "cut K w = (\<lambda>k. if k \<in> K then None else w k)"

lemma cut_cut [simp]: "cut K (cut L w) = cut (K \<union> L) w"
  by (auto simp: cut_def)

lemma cut_empty [simp]: "cut {} w = w"
  by (simp add: cut_def)

lemma remove_all_spec:
  assumes "hash_map_ok m" "remove_all m reason cs st s = ((st', err), s')"
  shows "\<exists>K. hm_view m s' = cut K (hm_view m s) \<and> K \<subseteq> cu_key ` {c \<in> set cs. cu_value c \<noteq> None}
    \<and> (err = None \<longrightarrow> K = cu_key ` {c \<in> set cs. cu_value c \<noteq> None})"
  using assms(2)
proof (induction cs arbitrary: st s)
  case (Cons c cs)
  let ?ks = "cu_key ` {x \<in> set cs. cu_value x \<noteq> None}"
  show ?case
  proof (cases "cu_value c = None")
    case True
    then have eq: "{x \<in> set (c # cs). cu_value x \<noteq> None} = {x \<in> set cs. cu_value x \<noteq> None}" by auto
    show ?thesis unfolding eq using Cons.IH Cons.prems True by simp
  next
    case False
    then have eq: "cu_key ` {x \<in> set (c # cs). cu_value x \<noteq> None} = insert (cu_key c) ?ks" by auto
    obtain r s1 where d: "remove m (cu_key c) s = (r, s1)" by (cases "remove m (cu_key c) s")
    note law = remove_spec[OF assms(1) d]
    show ?thesis
    proof (cases r)
      case (Inl e)
      then have "err = Some e" "hm_view m s' = hm_view m s" using Cons.prems False d law(2)[OF Inl] by auto
      then show ?thesis by (intro exI[of _ "{}"]) simp
    next
      case (Inr b)
      then obtain K where K: "hm_view m s' = cut K (hm_view m s1)" "K \<subseteq> ?ks" "err = None \<longrightarrow> K = ?ks"
        using Cons.prems False d Cons.IH[of "if b then count_removed reason st else st" s1] by auto
      moreover have "hm_view m s1 = cut {cu_key c} (hm_view m s)" using law(1)[OF Inr] by (auto simp: cut_def)
      ultimately show ?thesis unfolding eq by (intro exI[of _ "insert (cu_key c) K"]) auto
    qed
  qed
qed simp

definition confirmed_keys :: "('k group \<Rightarrow> ('k, 'v) current list \<Rightarrow> bool) \<Rightarrow> 'k group list \<Rightarrow> ('k \<Rightarrow> 'v option) \<Rightarrow> 'k set" where
  "confirmed_keys confirm gs w = {k. w k \<noteq> None \<and> (\<exists>g \<in> set gs. k \<in> set (gr_keys g) \<and> confirm g (currents w (gr_keys g)))}"

lemma currents_cong: "(\<And>k. k \<in> set keys \<Longrightarrow> w k = w' k) \<Longrightarrow> currents w keys = currents w' keys"
  by (simp add: currents_def)

lemma confirmed_keys_cut:
  assumes "\<And>g. g \<in> set gs \<Longrightarrow> set (gr_keys g) \<inter> K = {}"
  shows "confirmed_keys confirm gs (cut K w) = confirmed_keys confirm gs w"
proof -
  have c: "currents (cut K w) (gr_keys g) = currents w (gr_keys g)" if "g \<in> set gs" for g
    using assms[OF that] by (intro currents_cong) (auto simp: cut_def)
  have "cut K w k = w k" if "g \<in> set gs" "k \<in> set (gr_keys g)" for g k
    using assms[OF that(1)] that(2) by (auto simp: cut_def)
  then show ?thesis using c by (auto simp: confirmed_keys_def)
qed

lemma sweep_groups_spec:
  assumes ok: "hash_map_ok m" and "distinct (concat (map gr_keys gs))"
    and "sweep_groups m confirm gs st s = ((st', err), s')"
  shows "\<exists>K. hm_view m s' = cut K (hm_view m s) \<and> K \<subseteq> confirmed_keys confirm gs (hm_view m s)
    \<and> (err = None \<longrightarrow> K = confirmed_keys confirm gs (hm_view m s))"
  using assms(2,3)
proof (induction gs arbitrary: st s)
  case Nil
  then show ?case by (intro exI[of _ "{}"]) (simp add: confirmed_keys_def)
next
  case (Cons g gs)
  let ?w = "hm_view m s" and ?keys = "gr_keys g"
  let ?own = "if confirm g (currents ?w ?keys) then {k \<in> set ?keys. ?w k \<noteq> None} else {}"
  have all: "confirmed_keys confirm (g # gs) ?w = ?own \<union> confirmed_keys confirm gs ?w"
    by (auto simp: confirmed_keys_def)
  obtain r s1 where c: "recheck m ?keys s = (r, s1)" by (cases "recheck m ?keys s")
  then have w1: "hm_view m s1 = ?w" and cs: "\<And>cs. r = Inr cs \<Longrightarrow> cs = currents ?w ?keys"
    using recheck_spec[OF ok] by blast+
  have rest: "\<exists>K. hm_view m s' = cut K (hm_view m s2) \<and> K \<subseteq> confirmed_keys confirm gs ?w
      \<and> (err = None \<longrightarrow> K = confirmed_keys confirm gs ?w)"
    if "sweep_groups m confirm gs st2 s2 = ((st', err), s')" "hm_view m s2 = cut L ?w" "L \<subseteq> set ?keys" for st2 s2 L
  proof -
    have "set (gr_keys h) \<inter> L = {}" if "h \<in> set gs" for h using Cons.prems(1) that \<open>L \<subseteq> set ?keys\<close> by auto
    then have "confirmed_keys confirm gs (cut L ?w) = confirmed_keys confirm gs ?w" by (rule confirmed_keys_cut)
    then show ?thesis using Cons.IH[of st2 s2] Cons.prems(1) that by simp
  qed
  show ?case
  proof (cases r)
    case (Inl e)
    then show ?thesis using Cons.prems(2) c w1 by (intro exI[of _ "{}"]) auto
  next
    case (Inr cs)
    then have cs: "cs = currents ?w ?keys" using cs by simp
    have own: "cu_key ` {c \<in> set cs. cu_value c \<noteq> None} = {k \<in> set ?keys. ?w k \<noteq> None}"
      unfolding cs by (force simp: currents_def)
    show ?thesis
    proof (cases "confirm g cs \<and> {k \<in> set ?keys. ?w k \<noteq> None} \<noteq> {}")
      case False
      have "length (filter (\<lambda>c. cu_value c \<noteq> None) cs) = 0 \<longleftrightarrow> {k \<in> set ?keys. ?w k \<noteq> None} = {}"
        unfolding own[symmetric] by (auto simp: filter_empty_conv)
      then obtain st2 where "sweep_groups m confirm gs st2 s1 = ((st', err), s')"
        using False Cons.prems(2) c Inr by (auto simp: Let_def split: if_splits)
      then have "\<exists>K. hm_view m s' = cut K (hm_view m s1) \<and> K \<subseteq> confirmed_keys confirm gs ?w
          \<and> (err = None \<longrightarrow> K = confirmed_keys confirm gs ?w)" using w1 by (intro rest[where L = "{}"]) simp_all
      moreover have "?own = {}" using False cs by auto
      ultimately show ?thesis unfolding all using w1 by simp
    next
      case True
      obtain st2 err2 s2 where ra: "remove_all m (gr_reason g) cs st s1 = ((st2, err2), s2)" by (metis surj_pair)
      then obtain L where L: "hm_view m s2 = cut L ?w" "L \<subseteq> {k \<in> set ?keys. ?w k \<noteq> None}"
          "err2 = None \<longrightarrow> L = {k \<in> set ?keys. ?w k \<noteq> None}"
        using remove_all_spec[OF ok ra] w1 unfolding own by auto
      have ne: "length (filter (\<lambda>c. cu_value c \<noteq> None) cs) \<noteq> 0"
        using True unfolding own[symmetric] by (auto simp: filter_empty_conv)
      have o: "?own = {k \<in> set ?keys. ?w k \<noteq> None}" using True cs by simp
      show ?thesis
      proof (cases err2)
        case None
        then have "sweep_groups m confirm gs st2 s2 = ((st', err), s')" using Cons.prems(2) c Inr True ne ra by simp
        then obtain K where "hm_view m s' = cut K (hm_view m s2)" "K \<subseteq> confirmed_keys confirm gs ?w"
            "err = None \<longrightarrow> K = confirmed_keys confirm gs ?w"
          using rest[OF _ L(1)] L(2) by blast
        then show ?thesis unfolding all o using L None by (intro exI[of _ "K \<union> L"]) auto
      next
        case (Some e)
        then have "err = Some e" "s' = s2" using Cons.prems(2) c Inr True ne ra by auto
        then show ?thesis unfolding all o using L by (intro exI[of _ L]) auto
      qed
    qed
  qed
qed

section \<open>The planner contract\<close>

text \<open>
  What the sweep relies on and what a planner is for. \<open>removable\<close> says of a key, given the whole map,
  that it may go. A planner puts every key in at most one group, confirms a group only when each of its
  keys is removable, and finds every removable key of its snapshot.
\<close>

locale sweep_planner =
  fixes planner :: "('k \<times> 'v) list \<Rightarrow> ('k, 'v) plan" and removable :: "('k \<Rightarrow> 'v option) \<Rightarrow> 'k \<Rightarrow> bool"
    and key_ok :: "'k \<Rightarrow> bool"
  assumes disjoint: "gomap_wf snap \<Longrightarrow> list_all key_ok (map fst snap) \<Longrightarrow>
      distinct (concat (map gr_keys (pl_groups (planner snap))))"
    and sound: "list_all key_ok (map fst snap) \<Longrightarrow> g \<in> set (pl_groups (planner snap)) \<Longrightarrow> k \<in> set (gr_keys g) \<Longrightarrow>
      pl_confirm (planner snap) g (currents w (gr_keys g)) \<Longrightarrow> w k \<noteq> None \<Longrightarrow> removable w k"
    and complete: "gomap_wf snap \<Longrightarrow> list_all key_ok (map fst snap) \<Longrightarrow> map_of snap k \<noteq> None \<Longrightarrow>
      removable (map_of snap) k \<Longrightarrow>
      \<exists>g \<in> set (pl_groups (planner snap)). k \<in> set (gr_keys g) \<and> pl_confirm (planner snap) g (currents (map_of snap) (gr_keys g))"
begin

text \<open>The recheck makes an old snapshot harmless: a key that went was removable in the map as it was.\<close>

lemma removes_only_removable:
  assumes "hash_map_ok m" "gomap_wf snap" "list_all key_ok (map fst snap)"
    and "sweep_groups m (pl_confirm (planner snap)) (pl_groups (planner snap)) st s = ((st', err), s')"
  shows "hm_view m s' k = hm_view m s k \<or> hm_view m s' k = None \<and> removable (hm_view m s) k"
proof -
  obtain K where K: "hm_view m s' = cut K (hm_view m s)"
      "K \<subseteq> confirmed_keys (pl_confirm (planner snap)) (pl_groups (planner snap)) (hm_view m s)"
    using sweep_groups_spec[OF assms(1) disjoint[OF assms(2,3)] assms(4)] by blast
  have "removable (hm_view m s) k" if "k \<in> K"
    using that K(2) sound[OF assms(3)] by (auto simp: confirmed_keys_def)
  then show ?thesis using K(1) by (auto simp: cut_def)
qed

text \<open>A pass nobody disturbs leaves exactly what is not removable.\<close>

lemma removes_all_removable:
  assumes "hash_map_ok m" "gomap_wf snap" "list_all key_ok (map fst snap)" "map_of snap = hm_view m s"
    and "sweep_groups m (pl_confirm (planner snap)) (pl_groups (planner snap)) st s = ((st', None), s')"
  shows "hm_view m s' = cut {k. removable (hm_view m s) k} (hm_view m s)"
proof -
  let ?C = "confirmed_keys (pl_confirm (planner snap)) (pl_groups (planner snap)) (hm_view m s)"
  have v: "hm_view m s' = cut ?C (hm_view m s)"
    using sweep_groups_spec[OF assms(1) disjoint[OF assms(2,3)] assms(5)] by blast
  have "hm_view m s k \<noteq> None \<Longrightarrow> k \<in> ?C \<longleftrightarrow> removable (hm_view m s) k" for k
    using sound[OF assms(3)] complete[OF assms(2,3)] unfolding assms(4) confirmed_keys_def by blast
  then have "cut ?C (hm_view m s) k = cut {k. removable (hm_view m s) k} (hm_view m s) k" for k
    by (cases "hm_view m s k") (auto simp: cut_def)
  then show ?thesis unfolding v by (rule ext)
qed

end

lemma ByEntry_keys:
  "concat (map gr_keys (pl_groups (ByEntry snap reason stale))) = map fst (filter (\<lambda>(k, v). stale k v) snap)"
  by (induction snap) (auto simp: ByEntry_def)

text \<open>Each entry on its own.\<close>

interpretation by_entry: sweep_planner "\<lambda>snap. ByEntry snap reason stale" "\<lambda>w k. \<exists>v. w k = Some v \<and> stale k v" "\<lambda>_. True"
  for reason :: string and stale :: "'k \<Rightarrow> 'v \<Rightarrow> bool"
proof
  fix snap :: "('k \<times> 'v) list"
  assume "gomap_wf snap"
  then show "distinct (concat (map gr_keys (pl_groups (ByEntry snap reason stale))))"
    by (simp add: ByEntry_keys)
next
  fix snap :: "('k \<times> 'v) list" and g k and w :: "'k \<Rightarrow> 'v option"
  assume "g \<in> set (pl_groups (ByEntry snap reason stale))" "k \<in> set (gr_keys g)"
    "pl_confirm (ByEntry snap reason stale) g (currents w (gr_keys g))" "w k \<noteq> None"
  then show "\<exists>v. w k = Some v \<and> stale k v" by (auto simp: ByEntry_def currents_def)
next
  fix snap :: "('k \<times> 'v) list" and k
  assume "\<exists>v. map_of snap k = Some v \<and> stale k v"
  then obtain v where v: "map_of snap k = Some v" "stale k v" by blast
  then have "\<lparr>gr_keys = [k], gr_reason = reason\<rparr> \<in> set (pl_groups (ByEntry snap reason stale))"
    by (auto simp: ByEntry_def image_iff dest!: map_of_SomeD)
  moreover have "pl_confirm (ByEntry snap reason stale) g (currents (map_of snap) [k])" for g
    using v by (simp add: ByEntry_def currents_def)
  ultimately show "\<exists>g \<in> set (pl_groups (ByEntry snap reason stale)).
      k \<in> set (gr_keys g) \<and> pl_confirm (ByEntry snap reason stale) g (currents (map_of snap) (gr_keys g))"
    by (intro bexI[of _ "\<lparr>gr_keys = [k], gr_reason = reason\<rparr>"]) simp_all
qed

section \<open>A map with buckets in memory\<close>

definition mem_batch :: "nat \<Rightarrow> ((('k \<times> 'v) list) list, nat, 'k, 'v) batch_map" where
  "mem_batch cap = \<lparr>bm_type = Hash, bm_maxEntries = cap, bm_start = 0,
     bm_batch = (\<lambda>c buf s.
       (if c \<ge> length s then ([], Some KeyNotExist, c)
        else if length (s ! c) > buf then ([], Some NoSpace, c)
        else (s ! c, None, Suc c), s))\<rparr>"

lemma mem_batch_ok:
  assumes "cap > 0" "\<forall>b \<in> set bs. length b \<le> cap"
  shows "batch_ok (mem_batch cap) (\<lambda>c. length bs - c) (\<lambda>c. concat (drop c bs)) (\<lambda>s. s = bs)"
proof -
  have "concat (drop c bs) = bs ! c @ concat (drop (Suc c) bs)" if "c < length bs" for c
    using that by (simp add: Cons_nth_drop_Suc[symmetric])
  moreover have "buf < cap" if "c < length bs" "buf < length (bs ! c)" for c buf
    using that assms(2) by (meson less_le_trans nth_mem)
  ultimately show ?thesis
    using assms(1) by (auto simp: batch_ok_def mem_batch_def not_le split: if_splits)
qed

theorem Snapshot_returns_witness:
  "\<exists>r s'. Snapshot 17 (mem_batch 3) [[(1 :: nat, True), (2, False)], [], [(3, True)]] = (Some r, s')
    \<and> r = Inr [(1, True), (2, False), (3, True)]"
proof -
  let ?bs = "[[(1 :: nat, True), (2, False)], [], [(3, True)]]"
  have "batch_ok (mem_batch 3) (\<lambda>c. length ?bs - c) (\<lambda>c. concat (drop c ?bs)) (\<lambda>s. s = ?bs)"
    by (rule mem_batch_ok) simp_all
  moreover have "bm_type (mem_batch 3 :: (((nat \<times> bool) list) list, nat, nat, bool) batch_map) \<noteq> OtherMap"
    by (simp add: mem_batch_def)
  ultimately obtain r s' where r: "Snapshot 17 (mem_batch 3) ?bs = (Some r, s')"
      "case r of Inr es \<Rightarrow> es = concat (drop (bm_start (mem_batch 3 :: (((nat \<times> bool) list) list, nat, nat, bool) batch_map)) ?bs)
       | Inl e \<Rightarrow> \<exists>x. e = BatchFailed x"
    using Snapshot_returns[of "mem_batch 3" "\<lambda>c. length ?bs - c" "\<lambda>c. concat (drop c ?bs)" "\<lambda>s. s = ?bs" ?bs 17]
    by (auto simp: mem_batch_def)
  moreover have "Snapshot 17 (mem_batch 3) ?bs = (Some (Inr (concat ?bs)), ?bs)" by code_simp
  ultimately show ?thesis by simp
qed

end
