(* ===== verification/CtState.thy ===== *)
theory CtState
  imports Bytes
begin

text \<open>
  The TCP state machine both conntrack tables step through, on the data plane
  (\<open>daemon/bpf/ct.h\<close>) and in user space (\<open>daemon/internal/daemon/dataplane/ctstate\<close>), and the idle
  timeouts of the garbage collector. Durations are in nanoseconds.
\<close>

section \<open>States and flags\<close>

definition CT_STATE_NEW :: u8 where "CT_STATE_NEW = 0"
definition CT_STATE_ESTABLISHED :: u8 where "CT_STATE_ESTABLISHED = 1"
definition CT_STATE_FIN_WAIT :: u8 where "CT_STATE_FIN_WAIT = 2"
definition CT_STATE_CLOSED :: u8 where "CT_STATE_CLOSED = 3"

definition TCP_FLAG_FIN :: u8 where "TCP_FLAG_FIN = 0x01"
definition TCP_FLAG_SYN :: u8 where "TCP_FLAG_SYN = 0x02"
definition TCP_FLAG_RST :: u8 where "TCP_FLAG_RST = 0x04"
definition TCP_FLAG_ACK :: u8 where "TCP_FLAG_ACK = 0x10"

unbundle bit_operations_syntax

definition TCP_FLAG_TRACKED :: u8 where
  "TCP_FLAG_TRACKED = TCP_FLAG_FIN OR TCP_FLAG_SYN OR TCP_FLAG_RST OR TCP_FLAG_ACK"

definition StateNew :: u8 where "StateNew = 0"
definition StateEstablished :: u8 where "StateEstablished = 1"
definition StateFinWait :: u8 where "StateFinWait = 2"
definition StateClosed :: u8 where "StateClosed = 3"

definition FlagFin :: u8 where "FlagFin = 0x01"
definition FlagSyn :: u8 where "FlagSyn = 0x02"
definition FlagRst :: u8 where "FlagRst = 0x04"
definition FlagAck :: u8 where "FlagAck = 0x10"

lemmas ct_state_defs = CT_STATE_NEW_def CT_STATE_ESTABLISHED_def CT_STATE_FIN_WAIT_def CT_STATE_CLOSED_def
  StateNew_def StateEstablished_def StateFinWait_def StateClosed_def
lemmas tcp_flag_defs = TCP_FLAG_FIN_def TCP_FLAG_SYN_def TCP_FLAG_RST_def TCP_FLAG_ACK_def
  FlagFin_def FlagSyn_def FlagRst_def FlagAck_def

section \<open>The state machine\<close>

definition ct_derive_next_state :: "u8 \<Rightarrow> u8 \<Rightarrow> u8" where
  "ct_derive_next_state cur flags =
     (if flags AND TCP_FLAG_RST \<noteq> 0 then CT_STATE_CLOSED
      else if flags AND TCP_FLAG_FIN \<noteq> 0
      then (if cur = CT_STATE_FIN_WAIT then CT_STATE_CLOSED else CT_STATE_FIN_WAIT)
      else if cur = CT_STATE_NEW \<and> flags AND TCP_FLAG_ACK \<noteq> 0 then CT_STATE_ESTABLISHED
      else cur)"

definition ct_initial_state_for_syn :: "u8 \<Rightarrow> u8" where
  "ct_initial_state_for_syn flags = (if flags AND TCP_FLAG_SYN \<noteq> 0 then CT_STATE_NEW else CT_STATE_ESTABLISHED)"

definition DeriveNextState :: "u8 \<Rightarrow> u8 \<Rightarrow> u8" where
  "DeriveNextState cur flags =
     (if flags AND FlagRst \<noteq> 0 then StateClosed
      else if flags AND FlagFin \<noteq> 0 then (if cur = StateFinWait then StateClosed else StateFinWait)
      else if cur = StateNew \<and> flags AND FlagAck \<noteq> 0 then StateEstablished
      else cur)"

definition InitialStateForSYN :: "u8 \<Rightarrow> u8" where
  "InitialStateForSYN flags = (if flags AND FlagSyn \<noteq> 0 then StateNew else StateEstablished)"

section \<open>Timeouts (ttl.go)\<close>

definition second :: u64 where "second = 1000000000"

definition TTLNew :: u64 where "TTLNew = 120 * second"
definition TTLEstablished :: u64 where "TTLEstablished = 3600 * second"
definition TTLFinWait :: u64 where "TTLFinWait = 60 * second"
definition TTLUDP :: u64 where "TTLUDP = 60 * second"
definition TTLICMP :: u64 where "TTLICMP = 30 * second"
definition TTLOther :: u64 where "TTLOther = 120 * second"

definition ProtoICMP :: u8 where "ProtoICMP = 1"
definition ProtoTCP :: u8 where "ProtoTCP = 6"
definition ProtoUDP :: u8 where "ProtoUDP = 17"

definition protoTTLs :: "(u8, u64) gomap" where
  "protoTTLs = [(ProtoUDP, TTLUDP), (ProtoICMP, TTLICMP)]"

definition entryTTL :: "u8 \<Rightarrow> u8 \<Rightarrow> u64 option" where
  "entryTTL state proto =
     (if proto \<noteq> ProtoTCP then (case map_of protoTTLs proto of Some ttl \<Rightarrow> Some ttl | None \<Rightarrow> Some TTLOther)
      else if state = StateNew then Some TTLNew
      else if state = StateEstablished then Some TTLEstablished
      else if state = StateFinWait then Some TTLFinWait
      else None)"

definition elapsedNs :: "u64 \<Rightarrow> u64 \<Rightarrow> u64" where
  "elapsedNs lastSeenNs nowNs = (if lastSeenNs \<ge> nowNs then 0 else nowNs - lastSeenNs)"

definition ShouldEvict :: "u8 \<Rightarrow> u8 \<Rightarrow> u64 \<Rightarrow> u64 \<Rightarrow> bool" where
  "ShouldEvict state proto lastSeenNs nowNs =
     (if state = StateClosed then True
      else case entryTTL state proto of
        None \<Rightarrow> False
      | Some ttl \<Rightarrow> elapsedNs lastSeenNs nowNs > ttl)"

section \<open>Properties\<close>

text \<open>
  C29. The data plane and user space run the same state machine: for every state and every flag byte, the
  C and the Go transition agree, and so do the initial states.
\<close>

theorem ctstate_agrees:
  "ct_derive_next_state cur flags = DeriveNextState cur flags \<and> ct_initial_state_for_syn flags = InitialStateForSYN flags"
  by (simp add: ct_derive_next_state_def DeriveNextState_def ct_initial_state_for_syn_def InitialStateForSYN_def
      ct_state_defs tcp_flag_defs)

text \<open>A connection as the flag bytes seen on it, from the state its first packet gave it.\<close>

definition run_flags :: "u8 \<Rightarrow> u8 list \<Rightarrow> u8" where
  "run_flags state fs = foldl ct_derive_next_state state fs"

definition has_rst :: "u8 \<Rightarrow> bool" where "has_rst f \<longleftrightarrow> f AND TCP_FLAG_RST \<noteq> 0"
definition has_fin :: "u8 \<Rightarrow> bool" where "has_fin f \<longleftrightarrow> f AND TCP_FLAG_FIN \<noteq> 0"

lemma derive_cases:
  "has_rst f \<Longrightarrow> ct_derive_next_state s f = CT_STATE_CLOSED"
  "\<not> has_rst f \<Longrightarrow> has_fin f \<Longrightarrow> ct_derive_next_state s f = (if s = CT_STATE_FIN_WAIT then CT_STATE_CLOSED else CT_STATE_FIN_WAIT)"
  "\<not> has_rst f \<Longrightarrow> \<not> has_fin f \<Longrightarrow> ct_derive_next_state s f =
     (if s = CT_STATE_NEW \<and> f AND TCP_FLAG_ACK \<noteq> 0 then CT_STATE_ESTABLISHED else s)"
  by (simp_all add: ct_derive_next_state_def has_rst_def has_fin_def)

text \<open>
  An entry in use is closed by the first packet with RST or the second packet with FIN, and by
  nothing else: as long as no prefix of the flags seen holds a RST or two FINs the state is not CLOSED,
  and it is FIN_WAIT exactly after one FIN.
\<close>

theorem closed_exactly:
  assumes "s = CT_STATE_NEW \<or> s = CT_STATE_ESTABLISHED"
    and "\<not> list_ex has_rst fs" "length (filter has_fin fs) \<le> 1"
  shows "run_flags s fs \<noteq> CT_STATE_CLOSED
       \<and> (run_flags s fs = CT_STATE_FIN_WAIT \<longleftrightarrow> length (filter has_fin fs) = 1)
       \<and> (has_rst f \<or> has_fin f \<and> length (filter has_fin fs) = 1 \<longleftrightarrow> run_flags s (fs @ [f]) = CT_STATE_CLOSED)"
proof -
  have "run_flags s fs \<in> {CT_STATE_NEW, CT_STATE_ESTABLISHED, CT_STATE_FIN_WAIT}
      \<and> (run_flags s fs = CT_STATE_FIN_WAIT \<longleftrightarrow> length (filter has_fin fs) = 1)"
    using assms
  proof (induction fs rule: rev_induct)
    case Nil
    then show ?case by (auto simp: run_flags_def ct_state_defs)
  next
    case (snoc x xs)
    then show ?case by (cases "has_fin x") (auto simp: run_flags_def derive_cases ct_state_defs split: if_splits)
  qed
  then show ?thesis
    by (cases "has_rst f"; cases "has_fin f") (auto simp: run_flags_def derive_cases ct_state_defs)
qed

theorem closed_exactly_witness:
  "run_flags CT_STATE_NEW [0x12, 0x10, 0x11] = CT_STATE_FIN_WAIT
   \<and> run_flags CT_STATE_NEW ([0x12, 0x10, 0x11] @ [0x11]) = CT_STATE_CLOSED"
  using closed_exactly[of CT_STATE_NEW "[0x12, 0x10, 0x11]" "0x11"]
  by (simp add: has_rst_def has_fin_def tcp_flag_defs)

text \<open>
  A packet with FIN reopens an entry that is already CLOSED: the state becomes FIN_WAIT. The table
  test of the package says that CLOSED stays CLOSED on any flag.
\<close>

theorem closed_not_absorbing:
  "DeriveNextState StateClosed FlagFin = StateFinWait"
  by (simp add: DeriveNextState_def ct_state_defs tcp_flag_defs)

end
