(* ===== verification/PolicyStage.thy ===== *)
theory PolicyStage
  imports PolicyEval CtState
begin

text \<open>
  The policy stage of the data plane: reading the tuple of a packet (\<open>nat.h\<close>, \<open>ct.h\<close>,
  \<open>policy_tuple.h\<close>), the admissions it remembers (\<open>policy_ct.h\<close>) and \<open>apply_policy\<close> (\<open>policy.h\<close>). A packet is
  the linear bytes between \<open>data\<close> and \<open>data_end\<close>. What the kernel decides is an argument: the clock at
  each call of \<open>bpf_ktime_get_ns\<close>, and whether it has room for a write to \<open>policy_ct_map\<close>. Trace events
  are not modelled.
\<close>

section \<open>Reading a packet (nat.h, ct.h)\<close>

type_synonym skb = "u8 list"

definition IPPROTO_TCP :: u8 where "IPPROTO_TCP = 6"
definition IPPROTO_UDP :: u8 where "IPPROTO_UDP = 17"

definition ETH_HLEN :: nat where "ETH_HLEN = 14"

text \<open>The IPv4 header, with the bytes from its start to \<open>data_end\<close>. Addresses and ports stay in network order.\<close>

record iphdr =
  ip_bytes :: "u8 list"
  ip_ihl :: u8
  ip_id :: u16
  ip_frag_off :: u16
  ip_protocol :: u8
  ip_saddr :: u32
  ip_daddr :: u32

definition field_at :: "u8 list \<Rightarrow> nat \<Rightarrow> nat \<Rightarrow> u8 list" where
  "field_at bs off n = take n (drop off bs)"

definition iphdr_at :: "u8 list \<Rightarrow> iphdr" where
  "iphdr_at bs = \<lparr>ip_bytes = bs, ip_ihl = bs ! 0 AND 0x0F, ip_id = le_word (field_at bs 4 2),
     ip_frag_off = le_word (field_at bs 6 2), ip_protocol = bs ! 9,
     ip_saddr = le_word (field_at bs 12 4), ip_daddr = le_word (field_at bs 16 4)\<rparr>"

definition nat_load_iph :: "skb \<Rightarrow> iphdr option" where
  "nat_load_iph skb = (if length skb < ETH_HLEN then None
     else if length skb < ETH_HLEN + 20 then None
     else Some (iphdr_at (drop ETH_HLEN skb)))"

definition bpf_ntohs :: "u16 \<Rightarrow> u16" where
  "bpf_ntohs w = be_word (le_bytes 2 w)"

abbreviation bpf_htons :: "u16 \<Rightarrow> u16" where
  "bpf_htons w \<equiv> bpf_ntohs w"

definition nat_read_l4_ports :: "iphdr \<Rightarrow> (u16 \<times> u16) option" where
  "nat_read_l4_ports iph =
     (let ihl = unat (ip_ihl iph); bs = ip_bytes iph;
          ports = (le_word (field_at bs (ihl * 4) 2), le_word (field_at bs (ihl * 4 + 2) 2))
      in if ihl < 5 then None
         else if ip_protocol iph = IPPROTO_TCP then (if ihl * 4 + 20 > length bs then None else Some ports)
         else if ip_protocol iph = IPPROTO_UDP then (if ihl * 4 + 8 > length bs then None else Some ports)
         else None)"

definition ct_read_tcp_flags :: "iphdr \<Rightarrow> u8 option" where
  "ct_read_tcp_flags iph =
     (if ip_ihl iph < 5 then None
      else if ip_protocol iph \<noteq> IPPROTO_TCP then None
      else if unat (ip_ihl iph) * 4 + 20 > length (ip_bytes iph) then None
      else Some (ip_bytes iph ! (unat (ip_ihl iph) * 4 + 13)))"

section \<open>The tuple (policy\_tuple.h)\<close>

definition IP_MF :: u16 where "IP_MF = 0x2000"
definition IP_OFFSET :: u16 where "IP_OFFSET = 0x1FFF"
definition POLICY_FRAG_MAX_AGE_NS :: u64 where "POLICY_FRAG_MAX_AGE_NS = 5000000000"

datatype tuple_status = POLICY_TUPLE_EXACT | POLICY_TUPLE_DEGRADED

record policy_tuple =
  pt_sport :: u16
  pt_dport :: u16
  pt_proto :: u8
  pt_status :: tuple_status

record ipv4_frag_key =
  fk_vpc_id :: u32
  fk_saddr :: u32
  fk_daddr :: u32
  fk_id :: u16
  fk_proto :: u8

record ipv4_frag_val =
  fv_sport :: u16
  fv_dport :: u16
  fv_last_seen_ns :: u64

definition policy_proto_has_ports :: "u8 \<Rightarrow> bool" where
  "policy_proto_has_ports proto \<longleftrightarrow> proto = IPPROTO_TCP \<or> proto = IPPROTO_UDP"

definition policy_frag_is_first :: "iphdr \<Rightarrow> bool" where
  "policy_frag_is_first iph \<longleftrightarrow>
     (let frag_off = bpf_ntohs (ip_frag_off iph) in frag_off AND IP_MF \<noteq> 0 \<and> frag_off AND IP_OFFSET = 0)"

definition policy_frag_is_later :: "iphdr \<Rightarrow> bool" where
  "policy_frag_is_later iph \<longleftrightarrow> bpf_ntohs (ip_frag_off iph) AND IP_OFFSET \<noteq> 0"

definition policy_parse_tuple :: "iphdr \<Rightarrow> policy_tuple" where
  "policy_parse_tuple iph =
     (let t = \<lparr>pt_sport = 0, pt_dport = 0, pt_proto = ip_protocol iph, pt_status = POLICY_TUPLE_EXACT\<rparr>
      in if \<not> policy_proto_has_ports (pt_proto t) then t
         else if policy_frag_is_later iph then t\<lparr>pt_status := POLICY_TUPLE_DEGRADED\<rparr>
         else case nat_read_l4_ports iph of
           None \<Rightarrow> t\<lparr>pt_status := POLICY_TUPLE_DEGRADED\<rparr>
         | Some (sport_be, dport_be) \<Rightarrow> t\<lparr>pt_sport := bpf_ntohs sport_be, pt_dport := bpf_ntohs dport_be\<rparr>)"

definition policy_frag_build_key :: "u32 \<Rightarrow> iphdr \<Rightarrow> ipv4_frag_key" where
  "policy_frag_build_key vpc_id iph = \<lparr>fk_vpc_id = vpc_id, fk_saddr = ip_saddr iph, fk_daddr = ip_daddr iph,
     fk_id = ip_id iph, fk_proto = ip_protocol iph\<rparr>"

type_synonym frag_map = "(ipv4_frag_key, ipv4_frag_val) gomap"

definition policy_frag_record :: "u64 \<Rightarrow> u32 \<Rightarrow> iphdr \<Rightarrow> policy_tuple \<Rightarrow> frag_map \<Rightarrow> frag_map" where
  "policy_frag_record now vpc_id iph t frags =
     (if \<not> policy_proto_has_ports (pt_proto t) then frags
      else AList.update (policy_frag_build_key vpc_id iph)
             \<lparr>fv_sport = bpf_htons (pt_sport t), fv_dport = bpf_htons (pt_dport t), fv_last_seen_ns = now\<rparr> frags)"

definition policy_frag_recover :: "u64 \<Rightarrow> u32 \<Rightarrow> iphdr \<Rightarrow> frag_map \<Rightarrow> policy_tuple \<Rightarrow> policy_tuple" where
  "policy_frag_recover now vpc_id iph frags t =
     (case map_of frags (policy_frag_build_key vpc_id iph) of
        None \<Rightarrow> t
      | Some v \<Rightarrow>
          if now - fv_last_seen_ns v > POLICY_FRAG_MAX_AGE_NS then t
          else t\<lparr>pt_sport := bpf_ntohs (fv_sport v), pt_dport := bpf_ntohs (fv_dport v), pt_status := POLICY_TUPLE_EXACT\<rparr>)"

section \<open>Admissions (policy\_ct.h)\<close>

definition POLICY_HOOK_POD_EGRESS :: u8 where "POLICY_HOOK_POD_EGRESS = 1"
definition POLICY_HOOK_POD_INGRESS :: u8 where "POLICY_HOOK_POD_INGRESS = 2"

record policy_ct_key =
  pk_epoch :: u32
  pk_scope :: u32
  pk_saddr :: u32
  pk_daddr :: u32
  pk_sport :: u16
  pk_dport :: u16
  pk_proto :: u8
  pk_hook :: u8

record policy_ct_val =
  pv_state :: u8
  pv_flags_seen :: u8
  pv_last_seen_ns :: u64

type_synonym ct_table = "(policy_ct_key, policy_ct_val) gomap"

definition policy_ct_peer_hook :: "u8 \<Rightarrow> u8" where
  "policy_ct_peer_hook hook = (if hook = POLICY_HOOK_POD_EGRESS then POLICY_HOOK_POD_INGRESS else POLICY_HOOK_POD_EGRESS)"

definition policy_ct_reverse_key :: "policy_ct_key \<Rightarrow> policy_ct_key" where
  "policy_ct_reverse_key k = \<lparr>pk_epoch = pk_epoch k, pk_scope = pk_scope k, pk_saddr = pk_daddr k, pk_daddr = pk_saddr k,
     pk_sport = pk_dport k, pk_dport = pk_sport k, pk_proto = pk_proto k, pk_hook = policy_ct_peer_hook (pk_hook k)\<rparr>"

definition policy_ct_build_key :: "u8 \<Rightarrow> u32 \<Rightarrow> u32 \<Rightarrow> u32 \<Rightarrow> u32 \<Rightarrow> u16 \<Rightarrow> u16 \<Rightarrow> u8 \<Rightarrow> policy_ct_key" where
  "policy_ct_build_key hook epoch vpc_id saddr daddr sport dport proto =
     \<lparr>pk_epoch = epoch, pk_scope = vpc_id, pk_saddr = saddr, pk_daddr = daddr, pk_sport = sport, pk_dport = dport,
      pk_proto = proto, pk_hook = hook\<rparr>"

record policy_ct_stats =
  st_rev_install_failed :: u64
  st_fwd_install_failed :: u64

text \<open>The state of the stage. The epoch is the value at index 0 of an array map, which is always there.\<close>

record policy_stage =
  ps_tables :: policy_tables
  ps_epoch :: u32
  ps_ct :: ct_table
  ps_frags :: frag_map
  ps_stats :: policy_ct_stats

text \<open>What the kernel decides while one packet is handled.\<close>

record kernel_inputs =
  ki_now_recover :: u64
  ki_now_record :: u64
  ki_now_hit :: u64
  ki_now_install :: u64
  ki_room :: "policy_ct_key \<Rightarrow> bool"

definition policy_ct_install :: "kernel_inputs \<Rightarrow> policy_ct_key \<Rightarrow> u8 \<Rightarrow> u8 \<Rightarrow> policy_stage \<Rightarrow> policy_stage" where
  "policy_ct_install ki fwd_key init_state init_flags s =
     (let val = \<lparr>pv_state = init_state, pv_flags_seen = init_flags, pv_last_seen_ns = ki_now_install ki\<rparr>;
          rev_key = policy_ct_reverse_key fwd_key
      in if \<not> ki_room ki rev_key
         then s\<lparr>ps_stats := (ps_stats s)\<lparr>st_rev_install_failed := st_rev_install_failed (ps_stats s) + 1\<rparr>\<rparr>
         else let s1 = s\<lparr>ps_ct := AList.update rev_key val (ps_ct s)\<rparr>
              in if \<not> ki_room ki fwd_key
                 then s1\<lparr>ps_stats := (ps_stats s1)\<lparr>st_fwd_install_failed := st_fwd_install_failed (ps_stats s1) + 1\<rparr>\<rparr>
                 else s1\<lparr>ps_ct := AList.update fwd_key val (ps_ct s1)\<rparr>)"

definition policy_ct_observe_tcp :: "policy_ct_key \<Rightarrow> policy_ct_val \<Rightarrow> u8 \<Rightarrow> ct_table \<Rightarrow> ct_table" where
  "policy_ct_observe_tcp self pv flags ct =
     (let next = ct_derive_next_state (pv_state pv) flags;
          ct1 = AList.update self (pv\<lparr>pv_flags_seen := pv_flags_seen pv OR (flags AND TCP_FLAG_TRACKED), pv_state := next\<rparr>) ct
      in if next \<noteq> CT_STATE_CLOSED then ct1
         else AList.delete self (AList.delete (policy_ct_reverse_key self) ct1))"

section \<open>The stage (policy.h)\<close>

definition policy_enforced :: "policy_tables \<Rightarrow> u32 \<Rightarrow> u32 \<Rightarrow> direction \<Rightarrow> u32 \<Rightarrow> bool" where
  "policy_enforced t vpc_id acl_id acl_dir self_ip =
     (if acl_id \<noteq> 0 \<and> (case acl_meta_map t acl_id of
            None \<Rightarrow> False
          | Some meta \<Rightarrow> (case acl_dir of DirIngress \<Rightarrow> am_has_ingress_rules meta | DirEgress \<Rightarrow> am_has_egress_rules meta) \<noteq> 0)
      then True
      else case sg_membership_lookup t vpc_id self_ip of None \<Rightarrow> False | Some v \<Rightarrow> smv_count v > 0)"

text \<open>What the two layers say about a packet whose tuple is known, and whether one of them is attached.\<close>

definition hook_dir :: "u8 \<Rightarrow> direction" where
  "hook_dir hook = (if hook = POLICY_HOOK_POD_EGRESS then DirEgress else DirIngress)"

definition self_ip_of :: "u8 \<Rightarrow> iphdr \<Rightarrow> u32" where
  "self_ip_of hook iph = (if hook = POLICY_HOOK_POD_EGRESS then ip_saddr iph else ip_daddr iph)"

definition peer_ip_of :: "u8 \<Rightarrow> iphdr \<Rightarrow> u32" where
  "peer_ip_of hook iph = (if hook = POLICY_HOOK_POD_EGRESS then ip_daddr iph else ip_saddr iph)"

definition sg_attached_to :: "policy_tables \<Rightarrow> u32 \<Rightarrow> u32 \<Rightarrow> bool" where
  "sg_attached_to t vpc_id ip = (case sg_membership_lookup t vpc_id ip of None \<Rightarrow> False | Some v \<Rightarrow> smv_count v > 0)"

definition apply_policy :: "kernel_inputs \<Rightarrow> skb \<Rightarrow> u8 \<Rightarrow> u32 \<Rightarrow> u32 \<Rightarrow> policy_stage \<Rightarrow> int \<times> policy_stage" where
  "apply_policy ki skb hook vpc_id acl_id s =
     (case nat_load_iph skb of
        None \<Rightarrow> (- 2, s)
      | Some iph \<Rightarrow>
         (let t0 = policy_parse_tuple iph;
              self_ip = self_ip_of hook iph;
              peer_ip = peer_ip_of hook iph;
              dir = hook_dir hook;
              t = (if pt_status t0 = POLICY_TUPLE_DEGRADED
                   then policy_frag_recover (ki_now_recover ki) vpc_id iph (ps_frags s) t0 else t0)
          in if pt_status t = POLICY_TUPLE_DEGRADED
             then (if policy_enforced (ps_tables s) vpc_id acl_id dir self_ip then - 4 else 0, s)
             else
               let s1 = (if policy_frag_is_first iph
                         then s\<lparr>ps_frags := policy_frag_record (ki_now_record ki) vpc_id iph t (ps_frags s)\<rparr> else s);
                   ck = policy_ct_build_key hook (ps_epoch s1) vpc_id (ip_saddr iph) (ip_daddr iph)
                          (bpf_htons (pt_sport t)) (bpf_htons (pt_dport t)) (pt_proto t)
               in case map_of (ps_ct s1) ck of
                    Some pv0 \<Rightarrow>
                      (let pv = pv0\<lparr>pv_last_seen_ns := ki_now_hit ki\<rparr>;
                           s2 = s1\<lparr>ps_ct := AList.update ck pv (ps_ct s1)\<rparr>
                       in (0, if pt_proto t = IPPROTO_TCP
                              then (case ct_read_tcp_flags iph of
                                      Some f \<Rightarrow> s2\<lparr>ps_ct := policy_ct_observe_tcp ck pv f (ps_ct s2)\<rparr>
                                    | None \<Rightarrow> s2)
                              else s2))
                  | None \<Rightarrow>
                      if acl_evaluate (ps_tables s1) acl_id dir (pt_proto t) (pt_dport t) peer_ip = ACL_VERDICT_DENY
                      then (- 1, s1)
                      else
                        let self = sg_membership_lookup (ps_tables s1) vpc_id self_ip;
                            peer = sg_membership_lookup (ps_tables s1) vpc_id peer_ip;
                            sg_v = (if sg_attached_to (ps_tables s1) vpc_id self_ip
                                    then sg_eval (ps_tables s1) self peer dir (pt_proto t) (pt_dport t) peer_ip
                                    else SG_VERDICT_PASS)
                        in if sg_v = SG_VERDICT_DENY then (- 3, s1)
                           else if acl_id = 0 \<and> \<not> sg_attached_to (ps_tables s1) vpc_id self_ip then (0, s1)
                           else let (init_state, init_flags) =
                                      (if pt_proto t = IPPROTO_TCP
                                       then (case ct_read_tcp_flags iph of
                                               Some f \<Rightarrow> (ct_initial_state_for_syn f, f AND TCP_FLAG_TRACKED)
                                             | None \<Rightarrow> (CT_STATE_ESTABLISHED, 0))
                                       else (CT_STATE_ESTABLISHED, 0))
                                in (1, policy_ct_install ki ck init_state init_flags s1)))"

end
