(* ===== verification/PolicyFlows.thy ===== *)
theory PolicyFlows
  imports PolicyStage
begin

text \<open>
  What the policy stage guarantees over time. A run interleaves packets, changes of the rules and of the
  NetworkACL attached to an address, bumps of the generation, and the removal of conntrack and fragment
  entries. No packet gets past the stage unless a configuration in force since the last bump admits it,
  or admits the opposite direction of its flow.
\<close>

section \<open>Keys\<close>

lemma bpf_ntohs_ntohs [simp]: "bpf_ntohs (bpf_ntohs w) = w"
proof -
  have "le_bytes 2 (be_word (le_bytes 2 w) :: u16) = rev (le_bytes 2 w)"
    by (simp add: le_bytes_def be_bytes_be_word)
  then show ?thesis by (simp add: bpf_ntohs_def le_bytes_def)
qed

definition policy_hooks :: "u8 set" where
  "policy_hooks = {POLICY_HOOK_POD_EGRESS, POLICY_HOOK_POD_INGRESS}"

lemma peer_hook_involution: "hook \<in> policy_hooks \<Longrightarrow> policy_ct_peer_hook (policy_ct_peer_hook hook) = hook"
  by (auto simp: policy_hooks_def policy_ct_peer_hook_def POLICY_HOOK_POD_EGRESS_def POLICY_HOOK_POD_INGRESS_def)

lemma reverse_key_involution: "pk_hook k \<in> policy_hooks \<Longrightarrow> policy_ct_reverse_key (policy_ct_reverse_key k) = k"
  by (simp add: policy_ct_reverse_key_def peer_hook_involution)

lemma reverse_key_neq: "pk_hook k \<in> policy_hooks \<Longrightarrow> policy_ct_reverse_key k \<noteq> k"
  by (cases k) (auto simp: policy_ct_reverse_key_def policy_ct_peer_hook_def policy_hooks_def
      POLICY_HOOK_POD_EGRESS_def POLICY_HOOK_POD_INGRESS_def)

lemma reverse_key_simps [simp]:
  "pk_epoch (policy_ct_reverse_key k) = pk_epoch k" "pk_hook (policy_ct_reverse_key k) = policy_ct_peer_hook (pk_hook k)"
  by (simp_all add: policy_ct_reverse_key_def)

section \<open>The tuple a packet is judged by\<close>

definition packet_tuple :: "kernel_inputs \<Rightarrow> u32 \<Rightarrow> iphdr \<Rightarrow> policy_stage \<Rightarrow> policy_tuple" where
  "packet_tuple ki vpc_id iph s =
     (let t0 = policy_parse_tuple iph
      in if pt_status t0 = POLICY_TUPLE_DEGRADED
         then policy_frag_recover (ki_now_recover ki) vpc_id iph (ps_frags s) t0 else t0)"

definition packet_key :: "kernel_inputs \<Rightarrow> u8 \<Rightarrow> u32 \<Rightarrow> iphdr \<Rightarrow> policy_stage \<Rightarrow> policy_ct_key" where
  "packet_key ki hook vpc_id iph s =
     (let t = packet_tuple ki vpc_id iph s
      in policy_ct_build_key hook (ps_epoch s) vpc_id (ip_saddr iph) (ip_daddr iph)
           (bpf_htons (pt_sport t)) (bpf_htons (pt_dport t)) (pt_proto t))"

section \<open>What a configuration admits\<close>

text \<open>Which NetworkACL is attached at an address of a Vpc; 0 is none.\<close>

type_synonym acl_attachment = "u32 \<Rightarrow> u32 \<Rightarrow> u32"

definition key_self :: "policy_ct_key \<Rightarrow> u32" where
  "key_self k = (if pk_hook k = POLICY_HOOK_POD_EGRESS then pk_saddr k else pk_daddr k)"

definition key_peer :: "policy_ct_key \<Rightarrow> u32" where
  "key_peer k = (if pk_hook k = POLICY_HOOK_POD_EGRESS then pk_daddr k else pk_saddr k)"

definition key_admitted :: "policy_tables \<times> acl_attachment \<Rightarrow> policy_ct_key \<Rightarrow> bool" where
  "key_admitted c k \<longleftrightarrow> (case c of (t, at) \<Rightarrow>
     acl_evaluate t (at (pk_scope k) (key_self k)) (hook_dir (pk_hook k)) (pk_proto k) (bpf_ntohs (pk_dport k)) (key_peer k)
       \<noteq> ACL_VERDICT_DENY
   \<and> (sg_attached_to t (pk_scope k) (key_self k) \<longrightarrow>
        sg_eval t (sg_membership_lookup t (pk_scope k) (key_self k)) (sg_membership_lookup t (pk_scope k) (key_peer k))
          (hook_dir (pk_hook k)) (pk_proto k) (bpf_ntohs (pk_dport k)) (key_peer k) \<noteq> SG_VERDICT_DENY))"

section \<open>One packet\<close>

lemma packet_key_admitted:
  fixes s :: policy_stage
  assumes "acl_id = at vpc_id (self_ip_of hook iph)" "t = packet_tuple ki vpc_id iph s"
  shows "key_admitted (T, at) (packet_key ki hook vpc_id iph s) \<longleftrightarrow>
     acl_evaluate T acl_id (hook_dir hook) (pt_proto t) (pt_dport t) (peer_ip_of hook iph) \<noteq> ACL_VERDICT_DENY
   \<and> (sg_attached_to T vpc_id (self_ip_of hook iph) \<longrightarrow>
        sg_eval T (sg_membership_lookup T vpc_id (self_ip_of hook iph)) (sg_membership_lookup T vpc_id (peer_ip_of hook iph))
          (hook_dir hook) (pt_proto t) (pt_dport t) (peer_ip_of hook iph) \<noteq> SG_VERDICT_DENY)"
  using assms by (simp add: key_admitted_def packet_key_def Let_def policy_ct_build_key_def key_self_def key_peer_def
      self_ip_of_def peer_ip_of_def)

lemma packet_key_fields [simp]:
  "pk_hook (packet_key ki hook vpc_id iph s) = hook" "pk_epoch (packet_key ki hook vpc_id iph s) = ps_epoch s"
  by (simp_all add: packet_key_def Let_def policy_ct_build_key_def)

text \<open>The state after the ports of a first fragment were recorded, and the value a new admission starts with.\<close>

definition frag_recorded :: "kernel_inputs \<Rightarrow> u32 \<Rightarrow> iphdr \<Rightarrow> policy_stage \<Rightarrow> policy_stage" where
  "frag_recorded ki vpc_id iph s =
     (if policy_frag_is_first iph
      then s\<lparr>ps_frags := policy_frag_record (ki_now_record ki) vpc_id iph (packet_tuple ki vpc_id iph s) (ps_frags s)\<rparr> else s)"

lemma frag_recorded_simps [simp]:
  "ps_tables (frag_recorded ki vpc_id iph s) = ps_tables s" "ps_epoch (frag_recorded ki vpc_id iph s) = ps_epoch s"
  "ps_ct (frag_recorded ki vpc_id iph s) = ps_ct s"
  by (simp_all add: frag_recorded_def)

definition first_value :: "policy_tuple \<Rightarrow> iphdr \<Rightarrow> u8 \<times> u8" where
  "first_value t iph = (if pt_proto t = IPPROTO_TCP
     then (case ct_read_tcp_flags iph of
             Some f \<Rightarrow> (ct_initial_state_for_syn f, f AND TCP_FLAG_TRACKED) | None \<Rightarrow> (CT_STATE_ESTABLISHED, 0))
     else (CT_STATE_ESTABLISHED, 0))"

definition hit_table :: "kernel_inputs \<Rightarrow> policy_tuple \<Rightarrow> iphdr \<Rightarrow> policy_ct_key \<Rightarrow> policy_ct_val \<Rightarrow> ct_table \<Rightarrow> ct_table" where
  "hit_table ki t iph k pv0 ct =
     (let pv = pv0\<lparr>pv_last_seen_ns := ki_now_hit ki\<rparr>; ct1 = AList.update k pv ct
      in if pt_proto t = IPPROTO_TCP
         then (case ct_read_tcp_flags iph of Some f \<Rightarrow> policy_ct_observe_tcp k pv f ct1 | None \<Rightarrow> ct1)
         else ct1)"

lemma apply_policy_eq:
  assumes "nat_load_iph skb = Some iph" and "acl_id = at vpc_id (self_ip_of hook iph)"
  shows "apply_policy ki skb hook vpc_id acl_id s =
     (let t = packet_tuple ki vpc_id iph s; k = packet_key ki hook vpc_id iph s; s1 = frag_recorded ki vpc_id iph s
      in if pt_status t = POLICY_TUPLE_DEGRADED
         then (if policy_enforced (ps_tables s) vpc_id acl_id (hook_dir hook) (self_ip_of hook iph) then - 4 else 0, s)
         else case map_of (ps_ct s) k of
           Some pv0 \<Rightarrow> (0, s1\<lparr>ps_ct := hit_table ki t iph k pv0 (ps_ct s)\<rparr>)
         | None \<Rightarrow>
             if \<not> key_admitted (ps_tables s, at) k
             then (if acl_evaluate (ps_tables s) acl_id (hook_dir hook) (pt_proto t) (pt_dport t) (peer_ip_of hook iph) =
                      ACL_VERDICT_DENY then - 1 else - 3, s1)
             else if acl_id = 0 \<and> \<not> sg_attached_to (ps_tables s) vpc_id (self_ip_of hook iph) then (0, s1)
             else (1, policy_ct_install ki k (fst (first_value t iph)) (snd (first_value t iph)) s1))"
proof -
  define t where "t = packet_tuple ki vpc_id iph s"
  have t: "(if pt_status (policy_parse_tuple iph) = POLICY_TUPLE_DEGRADED
      then policy_frag_recover (ki_now_recover ki) vpc_id iph (ps_frags s) (policy_parse_tuple iph)
      else policy_parse_tuple iph) = t"
    by (simp add: t_def packet_tuple_def Let_def)
  have k: "policy_ct_build_key hook (ps_epoch s) vpc_id (ip_saddr iph) (ip_daddr iph)
      (bpf_htons (pt_sport t)) (bpf_htons (pt_dport t)) (pt_proto t) = packet_key ki hook vpc_id iph s"
    by (simp add: packet_key_def t_def Let_def)
  have s1: "(if policy_frag_is_first iph
      then s\<lparr>ps_frags := policy_frag_record (ki_now_record ki) vpc_id iph t (ps_frags s)\<rparr> else s) = frag_recorded ki vpc_id iph s"
    by (simp add: frag_recorded_def t_def)
  note adm = packet_key_admitted[of acl_id at vpc_id hook iph t ki s, OF assms(2) t_def]
  have v: "SG_VERDICT_PASS \<noteq> SG_VERDICT_DENY" by (simp add: policy_verdict_defs)
  show ?thesis
    unfolding apply_policy_def assms(1) option.case Let_def t s1 frag_recorded_simps k adm first_value_def hit_table_def
      t_def[symmetric]
    by (cases "map_of (ps_ct s) (packet_key ki hook vpc_id iph s)")
      (simp_all add: v split: option.split)
qed

lemma observe_dom: "dom (map_of (policy_ct_observe_tcp k pv f ct)) \<subseteq> insert k (dom (map_of ct))"
  by (auto simp: policy_ct_observe_tcp_def Let_def update_conv' delete_conv' split: if_splits)

lemma hit_table_dom:
  assumes "map_of ct k = Some pv"
  shows "dom (map_of (hit_table ki t iph k pv ct)) \<subseteq> dom (map_of ct)"
proof -
  let ?pv = "pv\<lparr>pv_last_seen_ns := ki_now_hit ki\<rparr>"
  have d: "dom (map_of (AList.update k ?pv ct)) = dom (map_of ct)" using assms by (auto simp: update_conv')
  then have "dom (map_of (policy_ct_observe_tcp k ?pv f (AList.update k ?pv ct))) \<subseteq> dom (map_of ct)" for f
    using observe_dom[of k ?pv f "AList.update k ?pv ct"] assms by auto
  then show ?thesis using d by (simp add: hit_table_def Let_def split: option.split)
qed

lemma install_simps [simp]:
  "ps_tables (policy_ct_install ki k st fl s) = ps_tables s" "ps_epoch (policy_ct_install ki k st fl s) = ps_epoch s"
  "ps_frags (policy_ct_install ki k st fl s) = ps_frags s"
  by (simp_all add: policy_ct_install_def Let_def)

lemma install_dom:
  "dom (map_of (ps_ct (policy_ct_install ki k st fl s))) \<subseteq> dom (map_of (ps_ct s)) \<union> {k, policy_ct_reverse_key k}"
  by (auto simp: policy_ct_install_def Let_def update_conv' split: if_splits)

text \<open>
  What one packet does: the rules and the generation stay, and an entry that was not there belongs to the
  packet's own key or to its reverse, both of the current generation, after the rules admitted the key.
\<close>

lemma apply_policy_step:
  assumes i: "nat_load_iph skb = Some iph" and a: "acl_id = at vpc_id (self_ip_of hook iph)"
    and run: "apply_policy ki skb hook vpc_id acl_id s = (r, s')"
  defines "k \<equiv> packet_key ki hook vpc_id iph s"
  shows "ps_tables s' = ps_tables s \<and> ps_epoch s' = ps_epoch s"
    and "x \<in> dom (map_of (ps_ct s')) \<Longrightarrow>
      x \<in> dom (map_of (ps_ct s)) \<or> x \<in> {k, policy_ct_reverse_key k} \<and> key_admitted (ps_tables s, at) k"
    and "r \<ge> 0 \<Longrightarrow>
      (if pt_status (packet_tuple ki vpc_id iph s) = POLICY_TUPLE_DEGRADED
       then \<not> policy_enforced (ps_tables s) vpc_id acl_id (hook_dir hook) (self_ip_of hook iph)
       else k \<in> dom (map_of (ps_ct s)) \<or> key_admitted (ps_tables s, at) k)"
proof -
  let ?t = "packet_tuple ki vpc_id iph s"
  note eq = apply_policy_eq[of skb iph acl_id at vpc_id hook ki s, OF i a, folded k_def, unfolded Let_def run]
  have "(ps_tables s' = ps_tables s \<and> ps_epoch s' = ps_epoch s)
      \<and> (x \<in> dom (map_of (ps_ct s')) \<longrightarrow>
        x \<in> dom (map_of (ps_ct s)) \<or> x \<in> {k, policy_ct_reverse_key k} \<and> key_admitted (ps_tables s, at) k)
      \<and> (r \<ge> 0 \<longrightarrow>
        (if pt_status (packet_tuple ki vpc_id iph s) = POLICY_TUPLE_DEGRADED
         then \<not> policy_enforced (ps_tables s) vpc_id acl_id (hook_dir hook) (self_ip_of hook iph)
         else k \<in> dom (map_of (ps_ct s)) \<or> key_admitted (ps_tables s, at) k))" for x
  proof (cases "map_of (ps_ct s) k")
    case None
    then show ?thesis
      using eq install_dom[of ki k "fst (first_value ?t iph)" "snd (first_value ?t iph)" "frag_recorded ki vpc_id iph s"]
      by (auto split: if_splits)
  next
    case (Some pv)
    then show ?thesis
      using eq hit_table_dom[OF Some, of ki ?t iph] by (auto split: if_splits)
  qed
  then show "ps_tables s' = ps_tables s \<and> ps_epoch s' = ps_epoch s"
    and "x \<in> dom (map_of (ps_ct s')) \<Longrightarrow>
      x \<in> dom (map_of (ps_ct s)) \<or> x \<in> {k, policy_ct_reverse_key k} \<and> key_admitted (ps_tables s, at) k"
    and "r \<ge> 0 \<Longrightarrow>
      (if pt_status (packet_tuple ki vpc_id iph s) = POLICY_TUPLE_DEGRADED
       then \<not> policy_enforced (ps_tables s) vpc_id acl_id (hook_dir hook) (self_ip_of hook iph)
       else k \<in> dom (map_of (ps_ct s)) \<or> key_admitted (ps_tables s, at) k)"
    by blast+
qed

section \<open>Runs\<close>

text \<open>
  A run from generation \<open>e0\<close> with an empty table: the stage, the attachment of NetworkACLs, the number of
  bumps so far and the configurations in force since the last one. The daemon writes its tables in
  several steps, each a change of configuration; the collector and the kernel may drop entries.
\<close>

inductive policy_run ::
  "u32 \<Rightarrow> policy_stage \<Rightarrow> acl_attachment \<Rightarrow> nat \<Rightarrow> (policy_tables \<times> acl_attachment) list \<Rightarrow> bool" for e0 where
  start: "ps_ct s = [] \<Longrightarrow> ps_epoch s = e0 \<Longrightarrow> policy_run e0 s at 0 [(ps_tables s, at)]"
| packet: "policy_run e0 s at n cs \<Longrightarrow> hook \<in> policy_hooks \<Longrightarrow> nat_load_iph skb = Some iph \<Longrightarrow>
    policy_run e0 (snd (apply_policy ki skb hook vpc_id (at vpc_id (self_ip_of hook iph)) s)) at n cs"
| configure: "policy_run e0 s at n cs \<Longrightarrow> policy_run e0 (s\<lparr>ps_tables := t\<rparr>) at' n ((t, at') # cs)"
| bump: "policy_run e0 s at n cs \<Longrightarrow>
    policy_run e0 (s\<lparr>ps_epoch := ps_epoch s + 1\<rparr>) at (Suc n) [(ps_tables s, at)]"
| forget: "policy_run e0 s at n cs \<Longrightarrow> policy_run e0 (s\<lparr>ps_ct := AList.delete k (ps_ct s)\<rparr>) at n cs"
| evict: "policy_run e0 s at n cs \<Longrightarrow> policy_run e0 (s\<lparr>ps_frags := AList.delete f (ps_frags s)\<rparr>) at n cs"

definition flow_admitted :: "(policy_tables \<times> acl_attachment) list \<Rightarrow> policy_ct_key \<Rightarrow> bool" where
  "flow_admitted cs k \<longleftrightarrow> (\<exists>c \<in> set cs. key_admitted c k \<or> key_admitted c (policy_ct_reverse_key k))"

definition ct_sound :: "u32 \<Rightarrow> nat \<Rightarrow> (policy_tables \<times> acl_attachment) list \<Rightarrow> policy_stage \<Rightarrow> bool" where
  "ct_sound e0 n cs s \<longleftrightarrow> ps_epoch s = e0 + of_nat n
     \<and> (\<forall>k \<in> dom (map_of (ps_ct s)). pk_hook k \<in> policy_hooks
          \<and> (\<exists>i \<le> n. pk_epoch k = e0 + of_nat i) \<and> (pk_epoch k = ps_epoch s \<longrightarrow> flow_admitted cs k))"

lemma ct_soundD:
  "ct_sound e0 n cs s \<Longrightarrow> k \<in> dom (map_of (ps_ct s)) \<Longrightarrow> pk_hook k \<in> policy_hooks"
  "ct_sound e0 n cs s \<Longrightarrow> k \<in> dom (map_of (ps_ct s)) \<Longrightarrow> \<exists>i \<le> n. pk_epoch k = e0 + of_nat i"
  "ct_sound e0 n cs s \<Longrightarrow> k \<in> dom (map_of (ps_ct s)) \<Longrightarrow> pk_epoch k = ps_epoch s \<Longrightarrow> flow_admitted cs k"
  by (simp_all only: ct_sound_def)

lemma flow_admitted_reverse: "pk_hook k \<in> policy_hooks \<Longrightarrow> flow_admitted cs (policy_ct_reverse_key k) = flow_admitted cs k"
  by (auto simp: flow_admitted_def reverse_key_involution)

lemma peer_hook_policy: "hook \<in> policy_hooks \<Longrightarrow> policy_ct_peer_hook hook \<in> policy_hooks"
  by (simp add: policy_hooks_def policy_ct_peer_hook_def)

lemma ct_sound_packet:
  assumes inv: "ct_sound e0 n cs s" "(ps_tables s, at) \<in> set cs" and hook: "hook \<in> policy_hooks"
    and i: "nat_load_iph skb = Some iph"
    and run: "apply_policy ki skb hook vpc_id (at vpc_id (self_ip_of hook iph)) s = (r, s')"
  shows "ct_sound e0 n cs s'" "ps_tables s' = ps_tables s"
proof -
  note st = apply_policy_step[of skb iph "at vpc_id (self_ip_of hook iph)" at vpc_id hook ki s r s', OF i refl run]
  define k where "k = packet_key ki hook vpc_id iph s"
  have "flow_admitted cs x" "pk_hook x \<in> policy_hooks" "pk_epoch x = e0 + of_nat n"
    if "x \<in> {k, policy_ct_reverse_key k}" "key_admitted (ps_tables s, at) k" for x
  proof -
    have "flow_admitted cs k" using that(2) inv(2) by (auto simp: flow_admitted_def)
    then show "flow_admitted cs x" using that(1) hook flow_admitted_reverse[of k cs] by (auto simp: k_def)
    show "pk_hook x \<in> policy_hooks" "pk_epoch x = e0 + of_nat n"
      using that(1) hook inv(1) by (auto simp: k_def peer_hook_policy ct_sound_def)
  qed
  note new = this
  have "pk_hook x \<in> policy_hooks \<and> (\<exists>i \<le> n. pk_epoch x = e0 + of_nat i) \<and> (pk_epoch x = ps_epoch s \<longrightarrow> flow_admitted cs x)"
    if x: "x \<in> dom (map_of (ps_ct s'))" for x
  proof (cases "x \<in> dom (map_of (ps_ct s))")
    case True
    then show ?thesis using ct_soundD[OF inv(1) True] by (intro conjI impI)
  next
    case False
    then have "x \<in> {k, policy_ct_reverse_key k}" "key_admitted (ps_tables s, at) k"
      using st(2)[OF x] by (simp_all add: k_def)
    then show ?thesis using new[of x] by blast
  qed
  then show "ct_sound e0 n cs s'" using inv(1) st(1) by (simp add: ct_sound_def)
  show "ps_tables s' = ps_tables s" using st(1) by simp
qed

lemma policy_run_sound:
  assumes "policy_run e0 s at n cs" "n < 2 ^ 32"
  shows "ct_sound e0 n cs s \<and> (ps_tables s, at) \<in> set cs"
  using assms
proof (induction rule: policy_run.induct)
  case (start s at)
  then show ?case by (simp add: ct_sound_def)
next
  case (packet s at n cs hook skb iph ki vpc_id)
  then show ?case
    using ct_sound_packet[of e0 n cs s at hook skb iph ki vpc_id] by (metis prod.collapse)
next
  case (configure s at n cs t at')
  then have "flow_admitted cs k \<Longrightarrow> flow_admitted ((t, at') # cs) k" for k by (auto simp: flow_admitted_def)
  then show ?case using configure by (auto simp: ct_sound_def)
next
  case (bump s at n cs)
  then have inv: "ct_sound e0 n cs s" by simp
  have "e0 + of_nat i \<noteq> e0 + of_nat (Suc n)" if "i \<le> n" for i :: nat
  proof -
    have "unat (of_nat i :: u32) = i" "unat (of_nat (Suc n) :: u32) = Suc n"
      using that bump.prems by (simp_all only: unat_of_nat take_bit_nat_eq_self_iff word_size) auto
    then have "(of_nat i :: u32) \<noteq> of_nat (Suc n)" using that by fastforce
    then show ?thesis by (simp only: add_left_cancel) simp
  qed
  note fresh = this
  have e: "ps_epoch s + 1 = e0 + of_nat (Suc n)" using inv by (simp add: ct_sound_def algebra_simps)
  have "pk_hook k \<in> policy_hooks \<and> (\<exists>i \<le> Suc n. pk_epoch k = e0 + of_nat i) \<and> pk_epoch k \<noteq> ps_epoch s + 1"
    if k: "k \<in> dom (map_of (ps_ct s))" for k
  proof -
    obtain i where i: "i \<le> n" "pk_epoch k = e0 + of_nat i" using ct_soundD(2)[OF inv k] by (elim exE conjE)
    then show ?thesis
      using ct_soundD(1)[OF inv k] fresh[OF i(1)] unfolding e by (intro conjI exI[of _ i]) (simp_all only: le_SucI, simp)
  qed
  then show ?case using e by (simp add: ct_sound_def del: of_nat_Suc)
next
  case (forget s at n cs k)
  then show ?case by (auto simp: ct_sound_def delete_conv' split: if_splits)
next
  case (evict s at n cs f)
  then show ?case by (simp add: ct_sound_def)
qed

text \<open>
  C4. The policy stage is never bypassed. In every run with fewer than \<open>2 ^ 32\<close> bumps, a packet the stage
  lets through is one that a configuration in force since the last bump admits, or whose opposite
  direction one of them admits; a packet whose ports cannot be known passes only when the direction is
  not policed. In particular an admission of an older generation never lets a packet through.
\<close>

theorem policy_never_bypassed:
  assumes "policy_run e0 s at n cs" "n < 2 ^ 32" "hook \<in> policy_hooks" "nat_load_iph skb = Some iph"
    and "apply_policy ki skb hook vpc_id (at vpc_id (self_ip_of hook iph)) s = (r, s')" "r \<ge> 0"
  shows "if pt_status (packet_tuple ki vpc_id iph s) = POLICY_TUPLE_DEGRADED
         then \<not> policy_enforced (ps_tables s) vpc_id (at vpc_id (self_ip_of hook iph)) (hook_dir hook) (self_ip_of hook iph)
         else flow_admitted cs (packet_key ki hook vpc_id iph s)"
proof -
  have inv: "ct_sound e0 n cs s" "(ps_tables s, at) \<in> set cs" using policy_run_sound[OF assms(1,2)] by simp_all
  let ?k = "packet_key ki hook vpc_id iph s"
  have "flow_admitted cs ?k" if "?k \<in> dom (map_of (ps_ct s))"
    using inv(1) that unfolding ct_sound_def by force
  moreover have "flow_admitted cs ?k" if "key_admitted (ps_tables s, at) ?k"
    using inv(2) that by (auto simp: flow_admitted_def)
  ultimately show ?thesis
    using apply_policy_step(3)[of skb iph "at vpc_id (self_ip_of hook iph)" at vpc_id hook ki s r s',
        OF assms(4) refl assms(5,6)]
    by (auto split: if_splits)
qed

section \<open>Fragments\<close>

lemma frag_recorded_frags:
  assumes "nat_load_iph skb = Some iph" "pt_status (packet_tuple ki vpc_id iph s) = POLICY_TUPLE_EXACT"
  shows "ps_frags (snd (apply_policy ki skb hook vpc_id acl_id s)) = ps_frags (frag_recorded ki vpc_id iph s)"
  using apply_policy_eq[of skb iph acl_id "\<lambda>_ _. acl_id" vpc_id hook ki s] assms
  by (simp add: Let_def split: option.split)

lemma packet_tuple_proto: "pt_proto (packet_tuple ki vpc_id iph s) = ip_protocol iph"
  by (simp add: packet_tuple_def policy_parse_tuple_def policy_frag_recover_def Let_def split: option.split)

text \<open>
  C26. The fragments of a datagram are judged alike. Once its first fragment, with readable ports, went
  past the stage at either hook, a later fragment that arrives within five seconds, while the entry is
  still there, is matched on the ports of the first one.
\<close>

theorem later_fragment_follows_first:
  assumes "nat_load_iph skb = Some first" "policy_frag_is_first first" "policy_proto_has_ports (ip_protocol first)"
    and "pt_status (packet_tuple ki vpc_id first s) = POLICY_TUPLE_EXACT"
    and "policy_frag_is_later later" "policy_frag_build_key vpc_id later = policy_frag_build_key vpc_id first"
    and "map_of (ps_frags s2) (policy_frag_build_key vpc_id first) =
           map_of (ps_frags (snd (apply_policy ki skb hook vpc_id acl_id s))) (policy_frag_build_key vpc_id first)"
    and "ki_now_recover ki2 - ki_now_record ki \<le> POLICY_FRAG_MAX_AGE_NS"
  shows "packet_tuple ki2 vpc_id later s2 = packet_tuple ki vpc_id first s"
proof -
  let ?t = "packet_tuple ki vpc_id first s"
  have pr: "ip_protocol later = ip_protocol first" using assms(6) by (simp add: policy_frag_build_key_def)
  have "map_of (ps_frags s2) (policy_frag_build_key vpc_id first) =
      Some \<lparr>fv_sport = bpf_htons (pt_sport ?t), fv_dport = bpf_htons (pt_dport ?t), fv_last_seen_ns = ki_now_record ki\<rparr>"
    unfolding assms(7) frag_recorded_frags[OF assms(1,4)]
    using assms(2,3) by (simp add: frag_recorded_def policy_frag_record_def packet_tuple_proto update_conv')
  moreover have "policy_parse_tuple later =
      \<lparr>pt_sport = 0, pt_dport = 0, pt_proto = ip_protocol first, pt_status = POLICY_TUPLE_DEGRADED\<rparr>"
    using assms(3,5) by (simp add: policy_parse_tuple_def Let_def pr)
  ultimately have "packet_tuple ki2 vpc_id later s2 =
      \<lparr>pt_sport = pt_sport ?t, pt_dport = pt_dport ?t, pt_proto = ip_protocol first, pt_status = POLICY_TUPLE_EXACT\<rparr>"
    using assms(6,8) by (simp add: packet_tuple_def policy_frag_recover_def Let_def not_less)
  then show ?thesis using assms(4) packet_tuple_proto[of ki vpc_id first s] by (cases ?t) simp
qed

section \<open>Two gaps\<close>


text \<open>
  C32. The flags of a later fragment are payload. When a later fragment of an admitted TCP flow carries, at
  the place where the flags byte would be, a byte with the RST bit, the stage takes it for a reset and
  removes both halves of the admission.
\<close>

theorem later_fragment_resets_flow:
  assumes "nat_load_iph skb = Some iph" "policy_frag_is_later iph" "ip_protocol iph = IPPROTO_TCP"
    and "pt_status (packet_tuple ki vpc_id iph s) = POLICY_TUPLE_EXACT"
    and "map_of (ps_ct s) (packet_key ki hook vpc_id iph s) = Some pv"
    and "ct_read_tcp_flags iph = Some f" "has_rst f"
  shows "map_of (ps_ct (snd (apply_policy ki skb hook vpc_id acl_id s))) (packet_key ki hook vpc_id iph s) = None
       \<and> map_of (ps_ct (snd (apply_policy ki skb hook vpc_id acl_id s)))
           (policy_ct_reverse_key (packet_key ki hook vpc_id iph s)) = None"
proof -
  have "ct_derive_next_state st f = CT_STATE_CLOSED" for st using assms(7) by (rule derive_cases)
  then show ?thesis
    using apply_policy_eq[of skb iph acl_id "\<lambda>_ _. acl_id" vpc_id hook ki s] assms packet_tuple_proto[of ki vpc_id iph s]
    by (simp add: Let_def hit_table_def policy_ct_observe_tcp_def delete_conv')
qed

section \<open>An example\<close>

text \<open>A TCP packet to port 80, or a fragment of one, with the byte at the place of the flags.\<close>

definition ex_tcp :: "u16 \<Rightarrow> u8 \<Rightarrow> skb" where
  "ex_tcp frag flags = replicate 12 0 @ [0x08, 0x00]
     @ [0x45, 0, 0, 40] @ [0, 9] @ be_bytes 2 frag @ [64, 6, 0, 0] @ [10, 0, 0, 1] @ [10, 0, 0, 2]
     @ [0x9C, 0x40] @ [0, 80] @ replicate 9 0 @ [flags] @ replicate 6 0"

definition ex_iph :: "u16 \<Rightarrow> u8 \<Rightarrow> iphdr" where
  "ex_iph frag flags = iphdr_at (drop ETH_HLEN (ex_tcp frag flags))"

lemma ex_tcp_load: "nat_load_iph (ex_tcp frag flags) = Some (ex_iph frag flags)"
  by (simp add: nat_load_iph_def ex_tcp_def ETH_HLEN_def ex_iph_def)

text \<open>NetworkACL 7 allows TCP port 80 to anywhere; 8 declares egress rules and has none.\<close>

definition zero_entry :: acl_rule where
  "zero_entry = \<lparr>bar_proto = 0, bar_port_lo = 0, bar_port_hi = 0, bar_priority = 0, bar_peer_v4 = 0, bar_direction = 0,
     bar_prefixlen = 0, bar_verdict = 0\<rparr>"

definition ex_stage :: policy_stage where
  "ex_stage = \<lparr>ps_tables = \<lparr>
       acl_meta_map = [7 \<mapsto> \<lparr>am_ingress_count = 0, am_egress_count = 1, am_ruleset_version = 1, am_has_ingress_rules = 0,
                             am_has_egress_rules = 1\<rparr>,
                       8 \<mapsto> \<lparr>am_ingress_count = 0, am_egress_count = 0, am_ruleset_version = 1, am_has_ingress_rules = 0,
                             am_has_egress_rules = 1\<rparr>],
       acl_rule_table = (\<lambda>g. Some (replicate 16 zero_entry @ [if g = 7 then zero_entry\<lparr>bar_proto := 6, bar_port_lo := 80,
                             bar_port_hi := 80, bar_direction := 1, bar_verdict := 1\<rparr> else zero_entry] @ replicate 15 zero_entry)),
       sg_meta_map = (\<lambda>_. None), sg_rule_table = (\<lambda>_. None), sg_membership_map = (\<lambda>_. None)\<rparr>,
     ps_epoch = 1, ps_ct = [], ps_frags = [], ps_stats = \<lparr>st_rev_install_failed = 0, st_fwd_install_failed = 0\<rparr>\<rparr>"

definition ex_inputs :: kernel_inputs where
  "ex_inputs = \<lparr>ki_now_recover = 5, ki_now_record = 5, ki_now_hit = 5, ki_now_install = 5, ki_room = (\<lambda>_. True)\<rparr>"

text \<open>The stage after the first fragment of the datagram was admitted.\<close>

definition ex_admitted :: policy_stage where
  "ex_admitted = snd (apply_policy ex_inputs (ex_tcp 0x2000 0x10) POLICY_HOOK_POD_EGRESS 5 7 ex_stage)"

lemma ex_hit: "map_of (ps_ct ex_admitted) (packet_key ex_inputs POLICY_HOOK_POD_EGRESS 5 (ex_iph 0x2000 0x10) ex_admitted) =
    Some \<lparr>pv_state = CT_STATE_ESTABLISHED, pv_flags_seen = 0x10, pv_last_seen_ns = 5\<rparr>"
  by code_simp

theorem policy_never_bypassed_witness:
  "fst (apply_policy ex_inputs (ex_tcp 0x2000 0x10) POLICY_HOOK_POD_EGRESS 5 7 ex_admitted) = 0
   \<and> flow_admitted [(ps_tables ex_stage, \<lambda>_ _. 7)]
       (packet_key ex_inputs POLICY_HOOK_POD_EGRESS 5 (ex_iph 0x2000 0x10) ex_admitted)"
proof -
  have h: "POLICY_HOOK_POD_EGRESS \<in> policy_hooks" by (simp add: policy_hooks_def)
  have run: "policy_run 1 ex_admitted (\<lambda>_ _. 7) 0 [(ps_tables ex_stage, \<lambda>_ _. 7)]"
    unfolding ex_admitted_def
    by (rule packet[where at = "\<lambda>_ _. 7", OF start h ex_tcp_load]) (simp_all add: ex_stage_def)
  have r: "fst (apply_policy ex_inputs (ex_tcp 0x2000 0x10) POLICY_HOOK_POD_EGRESS 5 7 ex_admitted) = 0" by code_simp
  then have r': "apply_policy ex_inputs (ex_tcp 0x2000 0x10) POLICY_HOOK_POD_EGRESS 5 7 ex_admitted =
      (0, snd (apply_policy ex_inputs (ex_tcp 0x2000 0x10) POLICY_HOOK_POD_EGRESS 5 7 ex_admitted))"
    by (metis prod.collapse)
  have t: "pt_status (packet_tuple ex_inputs 5 (ex_iph 0x2000 0x10) ex_admitted) = POLICY_TUPLE_EXACT" by code_simp
  show ?thesis
    using policy_never_bypassed[OF run _ h ex_tcp_load r'] r t by simp
qed

theorem later_fragment_follows_first_witness:
  "packet_tuple ex_inputs 5 (ex_iph 0x0005 0xFF) ex_admitted =
     \<lparr>pt_sport = 40000, pt_dport = 80, pt_proto = 6, pt_status = POLICY_TUPLE_EXACT\<rparr>"
proof -
  have t: "packet_tuple ex_inputs 5 (ex_iph 0x2000 0x10) ex_stage =
     \<lparr>pt_sport = 40000, pt_dport = 80, pt_proto = 6, pt_status = POLICY_TUPLE_EXACT\<rparr>" by code_simp
  have f: "policy_frag_is_first (ex_iph 0x2000 0x10)" "policy_proto_has_ports (ip_protocol (ex_iph 0x2000 0x10))"
      "policy_frag_is_later (ex_iph 0x0005 0xFF)"
      "policy_frag_build_key 5 (ex_iph 0x0005 0xFF) = policy_frag_build_key 5 (ex_iph 0x2000 0x10)"
      "ki_now_recover ex_inputs - ki_now_record ex_inputs \<le> POLICY_FRAG_MAX_AGE_NS"
    by code_simp+
  show ?thesis
    using later_fragment_follows_first[OF ex_tcp_load f(1,2) _ f(3,4) _ f(5), of ex_stage ex_admitted POLICY_HOOK_POD_EGRESS 7] t
    by (simp add: ex_admitted_def)
qed


theorem later_fragment_resets_flow_witness:
  "map_of (ps_ct (snd (apply_policy ex_inputs (ex_tcp 0x0005 0xFF) POLICY_HOOK_POD_EGRESS 5 7 ex_admitted)))
     (packet_key ex_inputs POLICY_HOOK_POD_EGRESS 5 (ex_iph 0x2000 0x10) ex_admitted) = None"
proof -
  have f: "policy_frag_is_later (ex_iph 0x0005 0xFF)" "ip_protocol (ex_iph 0x0005 0xFF) = IPPROTO_TCP"
      "pt_status (packet_tuple ex_inputs 5 (ex_iph 0x0005 0xFF) ex_admitted) = POLICY_TUPLE_EXACT"
      "ct_read_tcp_flags (ex_iph 0x0005 0xFF) = Some 0xFF" "has_rst 0xFF"
    by code_simp+
  have k: "packet_key ex_inputs POLICY_HOOK_POD_EGRESS 5 (ex_iph 0x0005 0xFF) ex_admitted =
      packet_key ex_inputs POLICY_HOOK_POD_EGRESS 5 (ex_iph 0x2000 0x10) ex_admitted" by code_simp
  show ?thesis
    using later_fragment_resets_flow[OF ex_tcp_load f(1,2,3) ex_hit[folded k] f(4,5)] unfolding k by simp
qed

end
