(* ===== verification/ConntrackGC.thy ===== *)
theory ConntrackGC
  imports MapSweep PolicyFlows
begin

text \<open>
  The garbage collectors over \<open>mapsweep\<close>: the conntrack tables (\<open>reconciler/conntrack.go\<close>,
  \<open>policyct/policyct.go\<close>), the L2 forwarding tables (\<open>l2/fdb_gc.go\<close>) and the Service affinity table
  (\<open>reconciler/service/affinity_gc.go\<close>), each a planner of the contract of \<open>MapSweep\<close>.
\<close>

section \<open>Pairs (policyct.go)\<close>

definition HookPodEgress :: u8 where "HookPodEgress = 1"
definition HookPodIngress :: u8 where "HookPodIngress = 2"

definition peerHook :: "u8 \<Rightarrow> u8" where
  "peerHook hook = (if hook = HookPodEgress then HookPodIngress else HookPodEgress)"

definition Reverse :: "policy_ct_key \<Rightarrow> policy_ct_key" where
  "Reverse key = \<lparr>pk_epoch = pk_epoch key, pk_scope = pk_scope key, pk_saddr = pk_daddr key, pk_daddr = pk_saddr key,
     pk_sport = pk_dport key, pk_dport = pk_sport key, pk_proto = pk_proto key, pk_hook = peerHook (pk_hook key)\<rparr>"

lemma Reverse_eq: "Reverse k = policy_ct_reverse_key k"
  by (simp add: Reverse_def policy_ct_reverse_key_def peerHook_def policy_ct_peer_hook_def HookPodEgress_def HookPodIngress_def
      POLICY_HOOK_POD_EGRESS_def POLICY_HOOK_POD_INGRESS_def)

text \<open>
  User space pairs the halves of an admission the way the data plane does: for every key the C and
  the Go function agree, and on the keys of the two hooks the pairing is an involution without a fixed
  point.
\<close>

theorem Reverse_pairs:
  "Reverse k = policy_ct_reverse_key k
   \<and> (pk_hook k \<in> policy_hooks \<longrightarrow> Reverse (Reverse k) = k \<and> Reverse k \<noteq> k)"
  using reverse_key_involution[of k] reverse_key_neq[of k] by (simp add: Reverse_eq)

theorem Reverse_pairs_witness:
  "Reverse (Reverse (policy_ct_build_key POLICY_HOOK_POD_EGRESS 1 2 3 4 5 6 17)) =
     policy_ct_build_key POLICY_HOOK_POD_EGRESS 1 2 3 4 5 6 17"
proof -
  have "pk_hook (policy_ct_build_key POLICY_HOOK_POD_EGRESS 1 2 3 4 5 6 17) \<in> policy_hooks"
    by (simp add: policy_hooks_def policy_ct_build_key_def)
  then show ?thesis using Reverse_pairs[of "policy_ct_build_key POLICY_HOOK_POD_EGRESS 1 2 3 4 5 6 17"] by blast
qed

section \<open>The conntrack tables (conntrack.go)\<close>

record ct_key =
  ck_scope :: u32
  ck_saddr :: u32
  ck_daddr :: u32
  ck_sport :: u16
  ck_dport :: u16
  ck_proto :: u8

record ct_val =
  cv_new_saddr :: u32
  cv_new_daddr :: u32
  cv_new_sport :: u16
  cv_new_dport :: u16
  cv_next_subnet_id :: u32
  cv_action :: u8
  cv_state :: u8
  cv_flags_seen :: u8
  cv_last_seen_ns :: u64

definition reasonExpired :: string where "reasonExpired = ''expired''"
definition reasonStaleEpoch :: string where "reasonStaleEpoch = ''staleEpoch''"

definition planNATCT :: "(ct_key \<times> ct_val) list \<Rightarrow> u64 \<Rightarrow> (ct_key, ct_val) plan" where
  "planNATCT snap nowNs =
     ByEntry snap reasonExpired (\<lambda>k v. ShouldEvict (cv_state v) (ck_proto k) (cv_last_seen_ns v) nowNs)"

definition policy_idle :: "u64 \<Rightarrow> policy_ct_key \<Rightarrow> policy_ct_val \<Rightarrow> bool" where
  "policy_idle nowNs k v = ShouldEvict (pv_state v) (pk_proto k) (pv_last_seen_ns v) nowNs"

text \<open>The loop over the snapshot, with the keys already planned as the partner of another.\<close>

fun policy_groups :: "u32 \<Rightarrow> u64 \<Rightarrow> (policy_ct_key, policy_ct_val) gomap \<Rightarrow> policy_ct_key list
    \<Rightarrow> (policy_ct_key \<times> policy_ct_val) list \<Rightarrow> policy_ct_key group list" where
  "policy_groups epoch nowNs current planned [] = []"
| "policy_groups epoch nowNs current planned ((k, v) # es) =
     (if pk_epoch k \<noteq> epoch
      then \<lparr>gr_keys = [k], gr_reason = reasonStaleEpoch\<rparr> # policy_groups epoch nowNs current planned es
      else if k \<in> set planned \<or> \<not> policy_idle nowNs k v then policy_groups epoch nowNs current planned es
      else let partner = Reverse k
           in if (case map_of current partner of Some v' \<Rightarrow> \<not> policy_idle nowNs partner v' | None \<Rightarrow> False)
              then policy_groups epoch nowNs current planned es
              else \<lparr>gr_keys = [k, partner], gr_reason = reasonExpired\<rparr>
                   # policy_groups epoch nowNs current (partner # planned) es)"

definition planPolicyCT :: "(policy_ct_key \<times> policy_ct_val) list \<Rightarrow> u32 \<Rightarrow> u64 \<Rightarrow> (policy_ct_key, policy_ct_val) plan" where
  "planPolicyCT snap epoch nowNs =
     (let current = filter (\<lambda>e. pk_epoch (fst e) = epoch) snap
      in \<lparr>pl_groups = policy_groups epoch nowNs current [] snap,
          pl_confirm = (\<lambda>g now. if gr_reason g = reasonStaleEpoch then True
             else list_all (\<lambda>c. case cu_value c of None \<Rightarrow> True | Some v \<Rightarrow> policy_idle nowNs (cu_key c) v) now)\<rparr>)"

record installFailures =
  if_reverse :: u64
  if_forward :: u64

definition failures_since :: "installFailures \<Rightarrow> installFailures \<Rightarrow> installFailures" where
  "failures_since f earlier = \<lparr>if_reverse = if_reverse f - if_reverse earlier, if_forward = if_forward f - if_forward earlier\<rparr>"

definition failures_any :: "installFailures \<Rightarrow> bool" where
  "failures_any f \<longleftrightarrow> if_reverse f \<noteq> 0 \<or> if_forward f \<noteq> 0"

text \<open>\<open>lookup\<close> reads one slot of \<open>policy_ct_stats\<close>, a counter per CPU.\<close>

definition StatReverseInstallFailed :: u32 where "StatReverseInstallFailed = 0"
definition StatForwardInstallFailed :: u32 where "StatForwardInstallFailed = 1"

datatype gc_error = SweepFailed sweep_error | StatsFailed u32 ebpf_error

definition sumPerCPU :: "(u32 \<Rightarrow> ('s, ebpf_error, u64 list) api) \<Rightarrow> u32 \<Rightarrow> ('s, gc_error, u64) api" where
  "sumPerCPU lookup slot = api_bind (api_try (lookup slot)) (\<lambda>r.
     case r of Inl e \<Rightarrow> api_throw (StatsFailed slot e)
     | Inr perCPU \<Rightarrow> api_return (fold (\<lambda>v total. total + v) perCPU 0))"

definition readInstallFailures :: "(u32 \<Rightarrow> ('s, ebpf_error, u64 list) api) \<Rightarrow> ('s, gc_error, installFailures) api" where
  "readInstallFailures lookup =
     api_bind (sumPerCPU lookup StatReverseInstallFailed) (\<lambda>reverse.
     api_bind (sumPerCPU lookup StatForwardInstallFailed) (\<lambda>forward.
     api_return \<lparr>if_reverse = reverse, if_forward = forward\<rparr>))"

text \<open>\<open>mapsweep.Report\<close>: the errors joined, the extra fields and the warnings.\<close>

record report =
  rp_map :: string
  rp_stats :: stats
  rp_errs :: "gc_error list"
  rp_fields :: "(string \<times> u64) list"
  rp_warnings :: "string list"

definition sweep_report :: "string \<Rightarrow> stats \<times> sweep_error option \<Rightarrow> report" where
  "sweep_report name res = \<lparr>rp_map = name, rp_stats = fst res,
     rp_errs = (case snd res of None \<Rightarrow> [] | Some e \<Rightarrow> [SweepFailed e]), rp_fields = [], rp_warnings = []\<rparr>"

definition natTable_sweep :: "nat \<Rightarrow> ('s, 'c, ct_key, ct_val) batch_map \<Rightarrow> ('s, ct_key, ct_val) hash_map \<Rightarrow> u64 \<Rightarrow> 's
    \<Rightarrow> report option \<times> 's" where
  "natTable_sweep fuel bm m nowNs s =
     (case Sweep fuel bm m (\<lambda>snap. planNATCT snap nowNs) s of
        (None, s') \<Rightarrow> (None, s')
      | (Some res, s') \<Rightarrow> (Some (sweep_report ''ct_map'' res), s'))"

text \<open>
  The policy table remembers the failures of the last pass in the sweeper; \<open>epoch\<close> is what
  \<open>EpochSource.Current\<close> returns when the planner runs.
\<close>

definition policySweeper_sweep :: "nat \<Rightarrow> ('s, 'c, policy_ct_key, policy_ct_val) batch_map
    \<Rightarrow> ('s, policy_ct_key, policy_ct_val) hash_map \<Rightarrow> (u32 \<Rightarrow> ('s, ebpf_error, u64 list) api) \<Rightarrow> u32 \<Rightarrow> u64
    \<Rightarrow> installFailures \<Rightarrow> 's \<Rightarrow> (report \<times> installFailures) option \<times> 's" where
  "policySweeper_sweep fuel bm m lookup epoch nowNs earlier s =
     (case Sweep fuel bm m (\<lambda>snap. planPolicyCT snap epoch nowNs) s of
        (None, s') \<Rightarrow> (None, s')
      | (Some res, s') \<Rightarrow>
          let report = sweep_report ''policy_ct_map'' res
          in case readInstallFailures lookup s' of
               (Inl e, s'') \<Rightarrow> (Some (report\<lparr>rp_errs := rp_errs report @ [e]\<rparr>, earlier), s'')
             | (Inr failures, s'') \<Rightarrow>
                 let grown = failures_since failures earlier
                 in (Some (report\<lparr>rp_fields := [(''reverseInstallFailures'', if_reverse grown), (''forwardInstallFailures'', if_forward grown)],
                            rp_warnings := (if failures_any grown then [''policy_ct_install could not write some pairs''] else [])\<rparr>, failures), s''))"

text \<open>A pass over every table; a table that fails does not stop the others.\<close>

fun Conntrack_sweep :: "(u64 \<Rightarrow> 's \<Rightarrow> report option \<times> 's) list \<Rightarrow> u64 \<Rightarrow> 's \<Rightarrow> report list option \<times> 's" where
  "Conntrack_sweep [] nowNs s = (Some [], s)"
| "Conntrack_sweep (table # tables) nowNs s =
     (case table nowNs s of
        (None, s') \<Rightarrow> (None, s')
      | (Some report, s') \<Rightarrow>
          (case Conntrack_sweep tables nowNs s' of
             (None, s'') \<Rightarrow> (None, s'')
           | (Some reports, s'') \<Rightarrow> (Some (report # reports), s'')))"

section \<open>The other tables\<close>

definition FdbFlagGateway :: u32 where "FdbFlagGateway = 1"
definition FdbAging :: u64 where "FdbAging = 300 * second"

record fdb_val =
  fv_ifindex :: u32
  fv_vtep_ip :: u32
  fv_seen_ns :: u64
  fv_flags :: u32

type_synonym fdb_key = "u8 list"

definition reasonAged :: string where "reasonAged = ''aged''"

definition planFdbAging :: "(fdb_key \<times> fdb_val) list \<Rightarrow> u64 \<Rightarrow> u64 \<Rightarrow> (fdb_key, fdb_val) plan" where
  "planFdbAging snap nowNs aging = ByEntry snap reasonAged (\<lambda>_ val.
     if fv_flags val AND FdbFlagGateway \<noteq> 0 then False
     else fv_seen_ns val \<le> nowNs \<and> nowNs - fv_seen_ns val \<ge> aging)"

record affinity_key =
  ak_cluster_ip :: u32
  ak_port :: u16
  ak_proto :: u8
  ak_client_ip :: u32

record affinity_val =
  av_backend_index :: u32
  av_backend_gen :: u32
  av_expires_at_ns :: u64

definition planAffinityExpiry :: "(affinity_key \<times> affinity_val) list \<Rightarrow> u64 \<Rightarrow> (affinity_key, affinity_val) plan" where
  "planAffinityExpiry snap nowNs = ByEntry snap reasonExpired (\<lambda>_ val. av_expires_at_ns val \<le> nowNs)"

section \<open>The policy planner keeps the contract\<close>

text \<open>An entry may go when its generation is over, or when every half of its pair that is there is idle.\<close>

definition policy_removable :: "u32 \<Rightarrow> u64 \<Rightarrow> (policy_ct_key \<Rightarrow> policy_ct_val option) \<Rightarrow> policy_ct_key \<Rightarrow> bool" where
  "policy_removable epoch nowNs w k \<longleftrightarrow> pk_epoch k \<noteq> epoch
     \<or> (\<forall>v. w k = Some v \<longrightarrow> policy_idle nowNs k v) \<and> (\<forall>v. w (Reverse k) = Some v \<longrightarrow> policy_idle nowNs (Reverse k) v)"

definition hook_ok :: "policy_ct_key \<Rightarrow> bool" where
  "hook_ok k \<longleftrightarrow> pk_hook k \<in> policy_hooks"

lemma Reverse_Reverse [simp]: "hook_ok k \<Longrightarrow> Reverse (Reverse k) = k"
  by (simp add: Reverse_eq hook_ok_def reverse_key_involution)

lemma Reverse_neq: "hook_ok k \<Longrightarrow> Reverse k \<noteq> k"
  by (simp add: Reverse_eq hook_ok_def reverse_key_neq)

lemma Reverse_epoch [simp]: "pk_epoch (Reverse k) = pk_epoch k"
  by (simp add: Reverse_def)

lemma policy_groups_shape:
  assumes "g \<in> set (policy_groups epoch nowNs current planned es)"
  obtains (stale) k where "g = \<lparr>gr_keys = [k], gr_reason = reasonStaleEpoch\<rparr>" "pk_epoch k \<noteq> epoch" "k \<in> fst ` set es"
  | (pair) k where "g = \<lparr>gr_keys = [k, Reverse k], gr_reason = reasonExpired\<rparr>" "pk_epoch k = epoch" "k \<in> fst ` set es"
  using assms
  by (induction epoch nowNs current planned es rule: policy_groups.induct)
    (auto simp: Let_def split: if_splits)

lemma policy_groups_keys:
  assumes "gomap_wf es" "list_all hook_ok (map fst es)"
  shows "distinct (concat (map gr_keys (policy_groups epoch nowNs current planned es)))
    \<and> (\<forall>x \<in> set (concat (map gr_keys (policy_groups epoch nowNs current planned es))).
         x \<in> fst ` set es \<and> (pk_epoch x = epoch \<longrightarrow> x \<notin> set planned)
       \<or> pk_epoch x = epoch \<and> Reverse x \<in> fst ` set es \<and> Reverse x \<notin> set planned \<and> hook_ok x)"
  using assms
proof (induction es arbitrary: planned)
  case (Cons e es)
  obtain k v where e: "e = (k, v)" by (cases e)
  let ?rest = "\<lambda>p. concat (map gr_keys (policy_groups epoch nowNs current p es))"
  have wf: "gomap_wf es" "list_all hook_ok (map fst es)" "k \<notin> fst ` set es" and hk: "hook_ok k" using Cons.prems e by auto
  consider (stale) "pk_epoch k \<noteq> epoch" | (skip) "pk_epoch k = epoch"
      "policy_groups epoch nowNs current planned ((k, v) # es) = policy_groups epoch nowNs current planned es"
    | (pair) "pk_epoch k = epoch" "k \<notin> set planned" "policy_groups epoch nowNs current planned ((k, v) # es) =
        \<lparr>gr_keys = [k, Reverse k], gr_reason = reasonExpired\<rparr> # policy_groups epoch nowNs current (Reverse k # planned) es"
      "policy_idle nowNs k v"
      "\<not> (case map_of current (Reverse k) of None \<Rightarrow> False | Some v' \<Rightarrow> \<not> policy_idle nowNs (Reverse k) v')"
    by (cases "pk_epoch k = epoch"; cases "k \<in> set planned \<or> \<not> policy_idle nowNs k v";
        cases "case map_of current (Reverse k) of None \<Rightarrow> False | Some v' \<Rightarrow> \<not> policy_idle nowNs (Reverse k) v'")
      (simp_all add: Let_def)
  then show ?case
  proof cases
    case stale
    have "distinct (?rest planned) \<and> (\<forall>x \<in> set (?rest planned).
         x \<in> fst ` set es \<and> (pk_epoch x = epoch \<longrightarrow> x \<notin> set planned)
       \<or> pk_epoch x = epoch \<and> Reverse x \<in> fst ` set es \<and> Reverse x \<notin> set planned \<and> hook_ok x)"
      by (rule Cons.IH[OF wf(1,2)])
    then show ?thesis using stale wf(3) e by auto
  next
    case skip
    have "distinct (?rest planned) \<and> (\<forall>x \<in> set (?rest planned).
         x \<in> fst ` set es \<and> (pk_epoch x = epoch \<longrightarrow> x \<notin> set planned)
       \<or> pk_epoch x = epoch \<and> Reverse x \<in> fst ` set es \<and> Reverse x \<notin> set planned \<and> hook_ok x)"
      by (rule Cons.IH[OF wf(1,2)])
    then show ?thesis unfolding e skip(2) by auto
  next
    case pair
    have IH: "distinct (?rest (Reverse k # planned)) \<and> (\<forall>x \<in> set (?rest (Reverse k # planned)).
         x \<in> fst ` set es \<and> (pk_epoch x = epoch \<longrightarrow> x \<notin> set (Reverse k # planned))
       \<or> pk_epoch x = epoch \<and> Reverse x \<in> fst ` set es \<and> Reverse x \<notin> set (Reverse k # planned) \<and> hook_ok x)"
      by (rule Cons.IH[OF wf(1,2)])
    have out: "x \<notin> set (?rest (Reverse k # planned))" if "pk_epoch x = epoch"
        "x \<in> fst ` set es \<Longrightarrow> x \<in> set (Reverse k # planned)" "Reverse x \<in> fst ` set es \<Longrightarrow> Reverse x \<in> set (Reverse k # planned)" for x
      using IH that by blast
    have "k \<notin> set (?rest (Reverse k # planned))" using wf(3) pair(1) by (intro out) simp_all
    moreover have "Reverse k \<notin> set (?rest (Reverse k # planned))" using wf(3) pair(1) hk by (intro out) simp_all
    moreover have "hook_ok (Reverse k)" using hk by (simp add: hook_ok_def Reverse_eq peer_hook_policy)
    ultimately show ?thesis unfolding e pair(3) using IH pair(1,2) hk Reverse_neq[OF hk] by auto
  qed
qed simp

lemma policy_groups_complete:
  assumes "(k, v) \<in> set es" "policy_removable epoch nowNs w k" "w k = Some v"
    and "\<And>x y. map_of current x = Some y \<Longrightarrow> w x = Some y" "gomap_wf es"
  shows "k \<in> set planned \<or> (\<exists>g \<in> set (policy_groups epoch nowNs current planned es). k \<in> set (gr_keys g))"
  using assms(1,5)
proof (induction es arbitrary: planned)
  case (Cons e es)
  obtain a va where e: "e = (a, va)" by (cases e)
  show ?case
  proof (cases "a = k")
    case True
    then have "va = v" using Cons.prems e by (auto simp: rev_image_eqI)
    moreover have "policy_idle nowNs (Reverse k) v'" if "pk_epoch k = epoch" "map_of current (Reverse k) = Some v'" for v'
      using that assms(2,4) by (simp add: policy_removable_def)
    ultimately show ?thesis
      using True assms(2,3) e by (auto simp: policy_removable_def Let_def split: option.split)
  next
    case False
    then have k: "(k, v) \<in> set es" "gomap_wf es" using Cons.prems e by auto
    show ?thesis
      using Cons.IH[OF k, of planned] Cons.IH[OF k, of "Reverse a # planned"] e by (auto simp: Let_def)
  qed
qed simp

lemma planPolicyCT_simps:
  "pl_groups (planPolicyCT snap epoch nowNs) =
     policy_groups epoch nowNs (filter (\<lambda>e. pk_epoch (fst e) = epoch) snap) [] snap"
  "pl_confirm (planPolicyCT snap epoch nowNs) g now \<longleftrightarrow> gr_reason g = reasonStaleEpoch
     \<or> list_all (\<lambda>c. case cu_value c of None \<Rightarrow> True | Some v \<Rightarrow> policy_idle nowNs (cu_key c) v) now"
  by (simp_all add: planPolicyCT_def Let_def)

lemma pair_confirm:
  assumes "hook_ok k" "pk_epoch k = epoch" "x \<in> {k, Reverse k}"
  shows "list_all (\<lambda>c. case cu_value c of None \<Rightarrow> True | Some v \<Rightarrow> policy_idle nowNs (cu_key c) v) (currents w [k, Reverse k])
    \<longleftrightarrow> policy_removable epoch nowNs w x"
  using assms by (auto simp: currents_def policy_removable_def split: option.splits)

interpretation policy_ct: sweep_planner "\<lambda>snap. planPolicyCT snap epoch nowNs" "policy_removable epoch nowNs" hook_ok
  for epoch :: u32 and nowNs :: u64
proof
  fix snap :: "(policy_ct_key \<times> policy_ct_val) list"
  assume "gomap_wf snap" "list_all hook_ok (map fst snap)"
  then show "distinct (concat (map gr_keys (pl_groups (planPolicyCT snap epoch nowNs))))"
    unfolding planPolicyCT_simps by (rule policy_groups_keys[THEN conjunct1])
next
  fix snap :: "(policy_ct_key \<times> policy_ct_val) list" and g k and w :: "policy_ct_key \<Rightarrow> policy_ct_val option"
  assume h: "list_all hook_ok (map fst snap)" and g: "g \<in> set (pl_groups (planPolicyCT snap epoch nowNs))"
    and k: "k \<in> set (gr_keys g)" and c: "pl_confirm (planPolicyCT snap epoch nowNs) g (currents w (gr_keys g))"
  show "policy_removable epoch nowNs w k"
    using g[unfolded planPolicyCT_simps]
  proof (cases rule: policy_groups_shape)
    case (stale a)
    then show ?thesis using k by (simp add: policy_removable_def)
  next
    case (pair a)
    then have "hook_ok a" using h by (auto simp: list_all_iff)
    then show ?thesis
      using pair_confirm[of a epoch k nowNs w] pair(1,2) k c
      by (simp add: planPolicyCT_simps reasonExpired_def reasonStaleEpoch_def)
  qed
next
  fix snap :: "(policy_ct_key \<times> policy_ct_val) list" and k
  assume wf: "gomap_wf snap" and h: "list_all hook_ok (map fst snap)" and k: "map_of snap k \<noteq> None"
    and r: "policy_removable epoch nowNs (map_of snap) k"
  obtain v where v: "map_of snap k = Some v" using k by blast
  have cur: "map_of (filter (\<lambda>e. pk_epoch (fst e) = epoch) snap) x = Some y \<Longrightarrow> map_of snap x = Some y" for x y
    using map_of_filter_fst[of "\<lambda>k. pk_epoch k = epoch" snap x] by (simp split: if_splits)
  obtain g where g: "g \<in> set (pl_groups (planPolicyCT snap epoch nowNs))" "k \<in> set (gr_keys g)"
    using policy_groups_complete[where planned = "[]", OF map_of_SomeD[OF v] r v cur wf] by (auto simp: planPolicyCT_simps)
  have "pl_confirm (planPolicyCT snap epoch nowNs) g (currents (map_of snap) (gr_keys g))"
    using g(1)[unfolded planPolicyCT_simps]
  proof (cases rule: policy_groups_shape)
    case (stale a)
    then show ?thesis by (simp add: planPolicyCT_simps)
  next
    case (pair a)
    then have "hook_ok a" using h by (auto simp: list_all_iff)
    then show ?thesis using pair_confirm[of a epoch k nowNs "map_of snap"] pair(1,2) g(2) r by (simp add: planPolicyCT_simps)
  qed
  then show "\<exists>g \<in> set (pl_groups (planPolicyCT snap epoch nowNs)). k \<in> set (gr_keys g)
      \<and> pl_confirm (planPolicyCT snap epoch nowNs) g (currents (map_of snap) (gr_keys g))"
    using g by blast
qed

section \<open>What the collectors remove\<close>

text \<open>
  C25. The collector of \<open>policy_ct_map\<close> leaves exactly the admissions in use. Over a snapshot of whatever
  age, a pass removes an entry only when its generation is over or when no half of its pair is in use; a
  pass that nobody disturbs removes every such entry, so a half in use never loses its partner.
\<close>

theorem policy_sweep_exact:
  assumes "hash_map_ok m" "gomap_wf snap" "list_all hook_ok (map fst snap)"
    and "sweep_groups m (pl_confirm (planPolicyCT snap epoch nowNs)) (pl_groups (planPolicyCT snap epoch nowNs)) st s =
           ((st', err), s')"
  shows "(hm_view m s' k = hm_view m s k \<or> hm_view m s' k = None \<and> policy_removable epoch nowNs (hm_view m s) k)
    \<and> (map_of snap = hm_view m s \<longrightarrow> err = None \<longrightarrow>
         hm_view m s' = (\<lambda>k. if policy_removable epoch nowNs (hm_view m s) k then None else hm_view m s k))"
proof -
  have "hm_view m s' = cut {k. policy_removable epoch nowNs (hm_view m s) k} (hm_view m s)"
    if "map_of snap = hm_view m s" "err = None"
    using policy_ct.removes_all_removable[OF assms(1-3)] that assms(4) by blast
  then show ?thesis
    using policy_ct.removes_only_removable[OF assms] by (auto simp: cut_def)
qed

text \<open>
  C28. An aged forwarding entry is removed and the gateway's own entry never is: a pass over an L2
  forwarding table removes only entries that were learned, stamped in the past and unseen for the aging
  time, whatever happened since its snapshot.
\<close>

theorem fdb_sweep_keeps_gateway:
  assumes "hash_map_ok m" "gomap_wf snap"
    and "sweep_groups m (pl_confirm (planFdbAging snap nowNs aging)) (pl_groups (planFdbAging snap nowNs aging)) st s =
           ((st', err), s')"
    and "hm_view m s mac = Some val" "fv_flags val AND FdbFlagGateway \<noteq> 0 \<or> nowNs < fv_seen_ns val
           \<or> nowNs - fv_seen_ns val < aging"
  shows "hm_view m s' mac = Some val"
  using by_entry.removes_only_removable[OF assms(1,2) _ assms(3)[unfolded planFdbAging_def], of mac] assms(4,5)
  by (auto simp: list.pred_True not_le split: if_splits)

text \<open>The tables of the conntrack and affinity collectors, entry by entry.\<close>

lemma nat_sweep_only_idle:
  assumes "hash_map_ok m" "gomap_wf snap"
    and "sweep_groups m (pl_confirm (planNATCT snap nowNs)) (pl_groups (planNATCT snap nowNs)) st s = ((st', err), s')"
    and "hm_view m s k = Some v" "\<not> ShouldEvict (cv_state v) (ck_proto k) (cv_last_seen_ns v) nowNs"
  shows "hm_view m s' k = Some v"
  using by_entry.removes_only_removable[OF assms(1,2) _ assms(3)[unfolded planNATCT_def], of k] assms(4,5)
  by (auto simp: list.pred_True)

lemma affinity_sweep_only_expired:
  assumes "hash_map_ok m" "gomap_wf snap"
    and "sweep_groups m (pl_confirm (planAffinityExpiry snap nowNs)) (pl_groups (planAffinityExpiry snap nowNs)) st s = ((st', err), s')"
    and "hm_view m s k = Some v" "nowNs < av_expires_at_ns v"
  shows "hm_view m s' k = Some v"
  using by_entry.removes_only_removable[OF assms(1,2) _ assms(3)[unfolded planAffinityExpiry_def], of k] assms(4,5)
  by (auto simp: list.pred_True)

text \<open>One admission of an old generation, one idle pair and one in use.\<close>

definition gc_k :: "u32 \<Rightarrow> u32 \<Rightarrow> policy_ct_key" where
  "gc_k epoch saddr = \<lparr>pk_epoch = epoch, pk_scope = 1, pk_saddr = saddr, pk_daddr = 9, pk_sport = 53, pk_dport = 80,
     pk_proto = ProtoUDP, pk_hook = HookPodEgress\<rparr>"

definition gc_v :: "u64 \<Rightarrow> policy_ct_val" where
  "gc_v seen = \<lparr>pv_state = StateEstablished, pv_flags_seen = 0, pv_last_seen_ns = seen\<rparr>"

definition gc_table :: "(policy_ct_key, policy_ct_val) gomap" where
  "gc_table = [(gc_k 1 5, gc_v (120 * second)), (gc_k 2 6, gc_v 1), (Reverse (gc_k 2 6), gc_v 2),
     (gc_k 2 7, gc_v (110 * second))]"

definition gc_sweep :: "(stats \<times> sweep_error option) \<times> (policy_ct_key, policy_ct_val) gomap" where
  "gc_sweep = sweep_groups (mem_hash 8) (pl_confirm (planPolicyCT gc_table 2 (120 * second)))
     (pl_groups (planPolicyCT gc_table 2 (120 * second))) \<lparr>st_capacity = 8, st_read = 4, st_removed = [], st_kept = 0\<rparr> gc_table"

theorem policy_sweep_exact_witness:
  "map_of (snd gc_sweep) (gc_k 1 5) = None \<and> map_of (snd gc_sweep) (gc_k 2 7) = Some (gc_v (110 * second))"
proof -
  have "hook_ok (gc_k 1 5)" "hook_ok (gc_k 2 6)" "hook_ok (Reverse (gc_k 2 6))" "hook_ok (gc_k 2 7)" by code_simp+
  then have hooks: "list_all hook_ok (map fst gc_table)" by (simp add: gc_table_def)
  have wf: "gomap_wf gc_table" by code_simp
  have run: "sweep_groups (mem_hash 8) (pl_confirm (planPolicyCT gc_table 2 (120 * second)))
     (pl_groups (planPolicyCT gc_table 2 (120 * second))) \<lparr>st_capacity = 8, st_read = 4, st_removed = [], st_kept = 0\<rparr> gc_table
     = ((fst (fst gc_sweep), None), snd gc_sweep)"
    unfolding gc_sweep_def by code_simp
  have view: "hm_view (mem_hash 8) s = map_of s" for s :: "(policy_ct_key, policy_ct_val) gomap" by (simp add: mem_hash_def)
  have all: "map_of (snd gc_sweep) k = (if policy_removable 2 (120 * second) (map_of gc_table) k then None else map_of gc_table k)" for k
    using policy_sweep_exact[OF mem_hash_ok wf hooks run, of k] unfolding view by simp
  have "policy_removable 2 (120 * second) (map_of gc_table) (gc_k 1 5)" by (simp add: policy_removable_def gc_k_def)
  moreover have lk: "map_of gc_table (gc_k 2 7) = Some (gc_v (110 * second))" by code_simp
  moreover have "\<not> policy_idle (120 * second) (gc_k 2 7) (gc_v (110 * second))" by code_simp
  then have "\<not> policy_removable 2 (120 * second) (map_of gc_table) (gc_k 2 7)"
    using lk by (auto simp: policy_removable_def gc_k_def)
  ultimately show ?thesis using all[of "gc_k 1 5"] all[of "gc_k 2 7"] by simp
qed

theorem fdb_sweep_keeps_gateway_witness:
  "map_of (snd (sweep_groups (mem_hash 4) (pl_confirm (planFdbAging [([1], \<lparr>fv_ifindex = 3, fv_vtep_ip = 0, fv_seen_ns = 0, fv_flags = 1\<rparr>)] (900 * second) FdbAging))
      (pl_groups (planFdbAging [([1], \<lparr>fv_ifindex = 3, fv_vtep_ip = 0, fv_seen_ns = 0, fv_flags = 1\<rparr>)] (900 * second) FdbAging))
      \<lparr>st_capacity = 4, st_read = 1, st_removed = [], st_kept = 0\<rparr>
      [([1 :: u8], \<lparr>fv_ifindex = 3, fv_vtep_ip = 0, fv_seen_ns = 0, fv_flags = 1\<rparr>)])) [1] =
    Some \<lparr>fv_ifindex = 3, fv_vtep_ip = 0, fv_seen_ns = 0, fv_flags = 1\<rparr>" (is "map_of (snd ?run) _ = Some ?v")
proof -
  obtain st' err s' where run: "?run = ((st', err), s')" by (metis surj_pair)
  have view: "hm_view (mem_hash 4) s = map_of s" for s :: "(fdb_key, fdb_val) gomap" by (simp add: mem_hash_def)
  have "hm_view (mem_hash 4) s' [1] = Some ?v"
    by (rule fdb_sweep_keeps_gateway[OF mem_hash_ok _ run]) (simp_all add: view FdbFlagGateway_def)
  then show ?thesis unfolding run by (simp add: view)
qed

section \<open>A whole pass\<close>

text \<open>A pass over a map that nobody else touches reads it all, then removes what the planner asks for.\<close>

lemma Sweep_returns:
  assumes "batch_ok bm rank content I" "I s" "bm_type bm \<noteq> OtherMap"
    and "(rank (bm_start bm) + 1) * Suc (bm_maxEntries bm) < fuel"
  shows "(\<exists>st x s'. Sweep fuel bm m planner s = (Some (st, Some (BatchFailed x)), s') \<and> I s')
    \<or> (\<exists>st s' res s''. I s' \<and> Sweep fuel bm m planner s = (Some res, s'') \<and>
        sweep_groups m (pl_confirm (planner (content (bm_start bm)))) (pl_groups (planner (content (bm_start bm)))) st s' = (res, s''))"
proof -
  obtain r s' where "Snapshot fuel bm s = (Some r, s')" "I s'"
      "case r of Inr es \<Rightarrow> es = content (bm_start bm) | Inl e \<Rightarrow> \<exists>x. e = BatchFailed x"
    using Snapshot_reads[OF assms] by blast
  then show ?thesis
    by (cases r) (auto simp: Sweep_def Let_def split: prod.splits)
qed

lemma sumPerCPU_view:
  assumes "\<And>slot s. w (snd (lookup slot s)) = w s"
  shows "w (snd (sumPerCPU lookup slot s)) = w s"
  using assms[of slot s] by (auto simp: sumPerCPU_def api_bind_def api_try_def api_throw_def api_return_def split: prod.splits sum.splits)

lemma readInstallFailures_view:
  assumes "\<And>slot s. w (snd (lookup slot s)) = w s"
  shows "w (snd (readInstallFailures lookup s)) = w s"
  using sumPerCPU_view[of w lookup StatReverseInstallFailed s, OF assms]
    sumPerCPU_view[of w lookup StatForwardInstallFailed "snd (sumPerCPU lookup StatReverseInstallFailed s)", OF assms]
  by (auto simp: readInstallFailures_def api_bind_def api_return_def split: prod.splits sum.splits)


text \<open>A table in memory of one bucket, read from and deleted from.\<close>

definition table_batch :: "nat \<Rightarrow> (('k, 'v) gomap, nat, 'k, 'v) batch_map" where
  "table_batch cap = \<lparr>bm_type = Hash, bm_maxEntries = cap, bm_start = 0,
     bm_batch = (\<lambda>c buf s. (if c > 0 then ([], Some KeyNotExist, c)
        else if length s > buf then ([], Some NoSpace, c) else (s, Some KeyNotExist, 1), s))\<rparr>"

lemma table_batch_sel [simp]:
  "bm_type (table_batch cap) = Hash" "bm_maxEntries (table_batch cap) = cap" "bm_start (table_batch cap) = 0"
  by (simp_all add: table_batch_def)

lemma table_batch_ok:
  "0 < cap \<Longrightarrow> length es \<le> cap \<Longrightarrow> batch_ok (table_batch cap) (\<lambda>c. 1 - c) (\<lambda>c. if c = 0 then es else []) (\<lambda>s. s = es)"
  by (auto simp: batch_ok_def table_batch_def split: if_splits)

definition gc_pass :: "(report \<times> installFailures) option \<times> (policy_ct_key, policy_ct_val) gomap" where
  "gc_pass = policySweeper_sweep 99 (table_batch 8) (mem_hash 8) (\<lambda>slot s. (Inr [3, 4], s)) 2 (120 * second)
     \<lparr>if_reverse = 5, if_forward = 7\<rparr> gc_table"


end
