(* ===== verification/GoNet.thy ===== *)
theory GoNet
  imports Netip
begin

text \<open>
  The older address type of Go's standard library, \<open>net.IP\<close>: a slice of 4 or 16 bytes, with \<open>nil\<close> as
  the empty slice. \<open>net.ParseIP\<close> and \<open>net.ParseCIDR\<close> read the text with \<open>netip.ParseAddr\<close>, so they rest on
  \<open>Netip\<close>. The second part is \<open>convert.go\<close>, the encodings the daemon writes into BPF map fields.
\<close>

section \<open>The net package\<close>

type_synonym IP = "u8 list"

definition v4InV6Prefix :: "u8 list" where
  "v4InV6Prefix = replicate 10 0 @ [0xFF, 0xFF]"

definition To4 :: "IP \<Rightarrow> IP option" where
  "To4 ip = (if length ip = 4 then Some ip
     else if length ip = 16 \<and> take 12 ip = v4InV6Prefix then Some (drop 12 ip) else None)"

definition net_parseIP :: "string \<Rightarrow> addr option" where
  "net_parseIP s = (case ParseAddr s of None \<Rightarrow> None | Some a \<Rightarrow> if Zone a \<noteq> [] then None else Some a)"

definition net_ParseIP :: "string \<Rightarrow> IP option" where
  "net_ParseIP s = map_option As16 (net_parseIP s)"

definition CIDRMask :: "nat \<Rightarrow> nat \<Rightarrow> u8 list" where
  "CIDRMask ones bits = map (\<lambda>i. if 8 * i + 8 \<le> ones then 0xFF else NOT (drop_bit (ones - 8 * i) 0xFF)) [0..<bits div 8]"

fun leading_ones :: "nat \<Rightarrow> u8 \<Rightarrow> nat" where
  "leading_ones 0 v = 0"
| "leading_ones (Suc n) v = (if v AND 0x80 \<noteq> 0 then Suc (leading_ones n (push_bit 1 v)) else 0)"

fun simpleMaskLength :: "u8 list \<Rightarrow> nat option" where
  "simpleMaskLength [] = Some 0"
| "simpleMaskLength (v # vs) =
     (if v = 0xFF then map_option (\<lambda>n. 8 + n) (simpleMaskLength vs)
      else if push_bit (leading_ones 8 v) v \<noteq> 0 \<or> list_ex (\<lambda>w. w \<noteq> 0) vs then None
      else Some (leading_ones 8 v))"

text \<open>\<open>IPMask.Size\<close>, of which the callers use the first result.\<close>

definition Mask_Size :: "u8 list \<Rightarrow> nat" where
  "Mask_Size m = (case simpleMaskLength m of None \<Rightarrow> 0 | Some n \<Rightarrow> n)"

definition and_bytes :: "u8 list \<Rightarrow> u8 list \<Rightarrow> u8 list" where
  "and_bytes xs ys = map2 (\<lambda>x y. x AND y) xs ys"

text \<open>\<open>IP.Mask\<close>; the empty slice stands for the \<open>nil\<close> of a mask that does not fit.\<close>

definition IP_Mask :: "IP \<Rightarrow> u8 list \<Rightarrow> IP" where
  "IP_Mask ip msk =
     (let msk = (if length msk = 16 \<and> length ip = 4 \<and> take 12 msk = replicate 12 0xFF then drop 12 msk else msk);
          ip = (if length msk = 4 \<and> length ip = 16 \<and> take 12 ip = v4InV6Prefix then drop 12 ip else ip)
      in if length ip \<noteq> length msk then [] else and_bytes ip msk)"

definition first_slash :: "string \<Rightarrow> (string \<times> string) option" where
  "first_slash s = (if CHR ''/'' \<in> set s
     then Some (takeWhile (\<lambda>c. c \<noteq> CHR ''/'') s, drop 1 (dropWhile (\<lambda>c. c \<noteq> CHR ''/'') s)) else None)"

text \<open>
  \<open>net.ParseCIDR\<close>: the address and the mask of the network. \<open>dtoi\<close> reads digits and gives up at \<open>0xFFFFFF\<close>,
  far above the longest prefix, so reading a number and comparing it is the same.
\<close>

definition ParseCIDR :: "string \<Rightarrow> (IP \<times> u8 list) option" where
  "ParseCIDR s =
     (case first_slash s of
        None \<Rightarrow> None
      | Some (a, msk) \<Rightarrow>
          (case net_parseIP a of
             None \<Rightarrow> None
           | Some ip \<Rightarrow>
               (case atoi msk of
                  None \<Rightarrow> None
                | Some n \<Rightarrow> if int n > BitLen ip then None else Some (As16 ip, CIDRMask n (nat (BitLen ip))))))"

section \<open>Map encodings (convert.go)\<close>

definition HardwareAddrToUint8Array :: "u8 list \<Rightarrow> u8 list option" where
  "HardwareAddrToUint8Array mac = (if length mac \<noteq> 6 then None else Some mac)"

definition IPv4ToUint32 :: "IP \<Rightarrow> u32 option" where
  "IPv4ToUint32 ip = map_option be_word (To4 ip)"

definition Uint32ToIPv4 :: "u32 \<Rightarrow> IP" where
  "Uint32ToIPv4 value = be_bytes 4 value"

definition IPv4ToBPFNetworkOrder :: "IP \<Rightarrow> u32 option" where
  "IPv4ToBPFNetworkOrder ip = map_option le_word (To4 ip)"

definition IPv4ToLPMTrieUint32 :: "IP \<Rightarrow> u32 option" where
  "IPv4ToLPMTrieUint32 ip = IPv4ToBPFNetworkOrder ip"

definition IPMaskToUint32 :: "u8 list \<Rightarrow> u32 option" where
  "IPMaskToUint32 msk = (if length msk \<noteq> 4 then None else Some (be_word msk))"

definition BPFNetworkOrderToIPv4 :: "u32 \<Rightarrow> IP" where
  "BPFNetworkOrderToIPv4 value = le_bytes 4 value"

section \<open>Facts\<close>

lemma length_CIDRMask [simp]: "length (CIDRMask n bits) = bits div 8"
  by (simp add: CIDRMask_def)

lemma To4_As16 [simp]: "To4 (As16 (V4 w)) = Some (be_bytes 4 w)"
  by (simp add: To4_def v4InV6Prefix_def numeral_eq_Suc)

lemma Size_CIDRMask: "n \<le> 32 \<Longrightarrow> Mask_Size (CIDRMask n 32) = n"
proof -
  have "list_all (\<lambda>n. Mask_Size (CIDRMask n 32) = n) [0..<33]" by code_simp
  then show "n \<le> 32 \<Longrightarrow> Mask_Size (CIDRMask n 32) = n" by (auto simp: list_all_iff)
qed

lemma first_slash_append: "CHR ''/'' \<notin> set a \<Longrightarrow> first_slash (a @ CHR ''/'' # b) = Some (a, b)"
  by (simp add: first_slash_def takeWhile_append dropWhile_append)

lemma string4_no_slash: "CHR ''/'' \<notin> set (string4 w)"
  using string4_chars[of "CHR ''/''" w] by (auto simp: is_digit_def)

text \<open>
  The two encodings of an address in a map field and their inverses: on every IPv4 address the decoder
  gives the address back, on every field the encoder gives the field back, and the two encodings differ by
  a reversal of the bytes.
\<close>

theorem convert_roundtrip:
  "IPv4ToUint32 (Uint32ToIPv4 v) = Some v \<and> IPv4ToBPFNetworkOrder (BPFNetworkOrderToIPv4 v) = Some v
   \<and> (case To4 ip of
        None \<Rightarrow> IPv4ToUint32 ip = None \<and> IPv4ToBPFNetworkOrder ip = None
      | Some b \<Rightarrow> (\<exists>be ne. IPv4ToUint32 ip = Some be \<and> Uint32ToIPv4 be = b
           \<and> IPv4ToBPFNetworkOrder ip = Some ne \<and> BPFNetworkOrderToIPv4 ne = b \<and> be_bytes 4 be = rev (be_bytes 4 ne)))"
proof (cases "To4 ip")
  case None
  then show ?thesis
    by (simp add: IPv4ToUint32_def Uint32ToIPv4_def IPv4ToBPFNetworkOrder_def BPFNetworkOrderToIPv4_def To4_def)
next
  case (Some b)
  then have b: "length b = 4" by (auto simp: To4_def split: if_splits)
  have "be_bytes 4 (be_word b :: u32) = b" "le_bytes 4 (le_word b :: u32) = b"
    using b by (simp_all add: be_bytes_be_word le_bytes_le_word)
  moreover have "rev (be_bytes 4 (le_word b :: u32)) = b" using calculation(2) by (simp only: le_bytes_def)
  moreover have "To4 (be_bytes 4 v) = Some (be_bytes 4 v)" "To4 (le_bytes 4 v) = Some (le_bytes 4 v)" by (simp_all add: To4_def)
  ultimately show ?thesis using Some
    by (simp add: IPv4ToUint32_def Uint32ToIPv4_def IPv4ToBPFNetworkOrder_def BPFNetworkOrderToIPv4_def)
qed

end
