(* ===== verification/OwnedAddr.thy ===== *)
theory OwnedAddr
  imports GoNet BpfMap
begin

text \<open>
  The prefixes the node answers for (\<open>reconciler/ownedaddr\<close>): reading a prefix into a key of the
  \<open>external_address_pools\<close> trie, and the store that keeps the trie equal to the union of what the
  reconcilers claim. The trie is reached through \<open>BpfMap\<close>: every key the store writes has its host bits
  masked off, so the exact calls on the trie behave as those on a hash map.
\<close>

section \<open>Keys (key.go)\<close>

datatype pkey = Key (Prefixlen: u32) (Addr: u32)

datatype prefix_error = EmptyAddress | InvalidCIDR | InvalidIP | IPv6NotSupported

definition ParsePrefixKey :: "string \<Rightarrow> prefix_error + pkey" where
  "ParsePrefixKey raw0 =
     (let raw = trim_space raw0
      in if raw = [] then Inl EmptyAddress
         else case (if CHR ''/'' \<in> set raw
                    then (case ParseCIDR raw of None \<Rightarrow> Inl InvalidCIDR | Some (ip, msk) \<Rightarrow> Inr (IP_Mask ip msk, msk))
                    else (case net_ParseIP raw of None \<Rightarrow> Inl InvalidIP | Some ip \<Rightarrow> Inr (ip, CIDRMask 32 32))) of
           Inl e \<Rightarrow> Inl e
         | Inr (ip, msk) \<Rightarrow>
             (case To4 ip of
                None \<Rightarrow> Inl IPv6NotSupported
              | Some ip4 \<Rightarrow>
                  (case IPv4ToLPMTrieUint32 ip4 of
                     None \<Rightarrow> Inl IPv6NotSupported
                   | Some a \<Rightarrow> Inr (Key (word_of_nat (Mask_Size msk)) a))))"

definition key_String :: "pkey \<Rightarrow> string" where
  "key_String k = string4 (be_word (BPFNetworkOrderToIPv4 (Addr k))) @ ''/'' @ itoa (unat (Prefixlen k))"

text \<open>The order of \<open>sortedKeys\<close>: by length, then by address.\<close>

instantiation pkey :: linorder
begin

definition less_eq_pkey :: "pkey \<Rightarrow> pkey \<Rightarrow> bool" where
  "less_eq_pkey a b \<longleftrightarrow> (Prefixlen a, Addr a) \<le> (Prefixlen b, Addr b)"

definition less_pkey :: "pkey \<Rightarrow> pkey \<Rightarrow> bool" where
  "less_pkey a b \<longleftrightarrow> (Prefixlen a, Addr a) < (Prefixlen b, Addr b)"

instance
  by standard (auto simp: less_eq_pkey_def less_pkey_def pkey.expand prod_eq_iff)

end

section \<open>The store (store.go)\<close>

definition DeliveredHere :: u8 where "DeliveredHere = 1"
definition DeliveredElsewhere :: u8 where "DeliveredElsewhere = 2"

type_synonym deliveries = "(pkey, u8) gomap"

record owner =
  ow_scope :: string
  ow_name :: string

record store =
  sr_claims :: "(owner, deliveries) gomap"
  sr_installed :: deliveries

definition NewStore :: store where
  "NewStore = \<lparr>sr_claims = [], sr_installed = []\<rparr>"

datatype store_error = StaleDelete pkey ebpf_error | MissingUpdate pkey ebpf_error

definition preferredDelivery :: "u8 \<Rightarrow> u8 \<Rightarrow> u8" where
  "preferredDelivery cur nxt = (if cur = DeliveredHere \<or> nxt = DeliveredHere then DeliveredHere else nxt)"

text \<open>One claim merged into a map; reading an absent key of a Go map gives 0.\<close>

definition merge_claim :: "deliveries \<Rightarrow> pkey \<times> u8 \<Rightarrow> deliveries" where
  "merge_claim acc c =
     AList.update (fst c) (preferredDelivery (case map_of acc (fst c) of None \<Rightarrow> 0 | Some d \<Rightarrow> d) (snd c)) acc"

definition desired_of :: "(owner, deliveries) gomap \<Rightarrow> deliveries" where
  "desired_of claims = foldl merge_claim [] (concat (map snd claims))"

definition sortedKeys :: "deliveries \<Rightarrow> pkey list" where
  "sortedKeys m = sort (map fst m)"

fun drop_stale :: "('s, pkey, u8) hash_map \<Rightarrow> deliveries \<Rightarrow> pkey list \<Rightarrow> deliveries \<Rightarrow> 's
    \<Rightarrow> (store_error list \<times> deliveries) \<times> 's" where
  "drop_stale m desired [] installed s = (([], installed), s)"
| "drop_stale m desired (key # keys) installed s =
     (if map_of desired key \<noteq> None then drop_stale m desired keys installed s
      else case hm_delete m key s of
        (r, s') \<Rightarrow>
          (if (case r of Inl e \<Rightarrow> e \<noteq> KeyNotExist | Inr _ \<Rightarrow> False)
           then (case drop_stale m desired keys installed s' of
                   ((errs, inst), s'') \<Rightarrow> ((StaleDelete key (case r of Inl e \<Rightarrow> e | Inr _ \<Rightarrow> KeyNotExist) # errs, inst), s''))
           else drop_stale m desired keys (AList.delete key installed) s'))"

fun put_missing :: "('s, pkey, u8) hash_map \<Rightarrow> deliveries \<Rightarrow> pkey list \<Rightarrow> deliveries \<Rightarrow> 's
    \<Rightarrow> (store_error list \<times> deliveries) \<times> 's" where
  "put_missing m desired [] installed s = (([], installed), s)"
| "put_missing m desired (key # keys) installed s =
     (let delivery = the (map_of desired key)
      in if map_of installed key = Some delivery then put_missing m desired keys installed s
         else case hm_update m key delivery s of
           (Inl e, s') \<Rightarrow>
             (case put_missing m desired keys installed s' of
                ((errs, inst), s'') \<Rightarrow> ((MissingUpdate key e # errs, inst), s''))
         | (Inr _, s') \<Rightarrow> put_missing m desired keys (AList.update key delivery installed) s')"

definition store_apply :: "('s, pkey, u8) hash_map \<Rightarrow> store \<Rightarrow> 's \<Rightarrow> (store_error list \<times> store) \<times> 's" where
  "store_apply m st s =
     (let desired = desired_of (sr_claims st)
      in case drop_stale m desired (sortedKeys (sr_installed st)) (sr_installed st) s of
        ((errs, inst), s') \<Rightarrow>
          (case put_missing m desired (sortedKeys desired) inst s' of
             ((errs', inst'), s'') \<Rightarrow> ((errs @ errs', st\<lparr>sr_installed := inst'\<rparr>), s'')))"

definition store_set :: "('s, pkey, u8) hash_map \<Rightarrow> owner \<Rightarrow> (pkey \<times> u8) list \<Rightarrow> store \<Rightarrow> 's
    \<Rightarrow> (store_error list \<times> store) \<times> 's" where
  "store_set m ow claims st s =
     store_apply m (st\<lparr>sr_claims := (if claims = [] then AList.delete ow (sr_claims st)
        else AList.update ow (foldl merge_claim [] claims) (sr_claims st))\<rparr>) s"

definition releaseScope :: "('s, pkey, u8) hash_map \<Rightarrow> string \<Rightarrow> store \<Rightarrow> 's \<Rightarrow> (store_error list \<times> store) \<times> 's" where
  "releaseScope m scope st s =
     store_apply m (st\<lparr>sr_claims := filter (\<lambda>e. ow_scope (fst e) \<noteq> scope) (sr_claims st)\<rparr>) s"

text \<open>The methods of a \<open>Scope\<close>.\<close>

definition SetClaims :: "('s, pkey, u8) hash_map \<Rightarrow> string \<Rightarrow> string \<Rightarrow> (pkey \<times> u8) list \<Rightarrow> store \<Rightarrow> 's
    \<Rightarrow> (store_error list \<times> store) \<times> 's" where
  "SetClaims m scope name claims = store_set m \<lparr>ow_scope = scope, ow_name = name\<rparr> claims"

definition Scope_Set :: "('s, pkey, u8) hash_map \<Rightarrow> string \<Rightarrow> string \<Rightarrow> pkey list \<Rightarrow> store \<Rightarrow> 's
    \<Rightarrow> (store_error list \<times> store) \<times> 's" where
  "Scope_Set m scope name keys = SetClaims m scope name (map (\<lambda>k. (k, DeliveredHere)) keys)"

definition Scope_Release :: "('s, pkey, u8) hash_map \<Rightarrow> string \<Rightarrow> string \<Rightarrow> store \<Rightarrow> 's \<Rightarrow> (store_error list \<times> store) \<times> 's" where
  "Scope_Release m scope name = SetClaims m scope name []"

definition ReleaseAll :: "('s, pkey, u8) hash_map \<Rightarrow> string \<Rightarrow> store \<Rightarrow> 's \<Rightarrow> (store_error list \<times> store) \<times> 's" where
  "ReleaseAll m scope = releaseScope m scope"

section \<open>Reading a prefix\<close>

lemma itoa_no_space: "\<forall>c \<in> set (itoa n). \<not> is_space c"
  using itoa_digits[of n] by (fastforce simp: is_space_def is_digit_def list_all_iff)

text \<open>A key whose host bits are zero, as \<open>ParsePrefix\<close> makes them.\<close>

definition key_canonical :: "pkey \<Rightarrow> bool" where
  "key_canonical k \<longleftrightarrow> Prefixlen k \<le> 32
     \<and> and_bytes (le_bytes 4 (Addr k)) (CIDRMask (unat (Prefixlen k)) 32) = le_bytes 4 (Addr k)"

lemma IP_Mask_V4: "IP_Mask (As16 (V4 w)) (CIDRMask n 32) = and_bytes (be_bytes 4 w) (CIDRMask n 32)"
proof -
  have "length (As16 (V4 w)) = 16" "take 12 (As16 (V4 w)) = v4InV6Prefix" "drop 12 (As16 (V4 w)) = be_bytes 4 w"
    using To4_As16[of w] by (simp_all add: To4_def split: if_splits)
  then show ?thesis by (simp add: IP_Mask_def Let_def del: As16.simps)
qed

text \<open>
  The text of a key is read back as the key: for every prefix of at most 32 bits with its host bits
  masked off, \<open>ParsePrefix\<close> of \<open>String\<close> gives the same key.
\<close>

theorem ParsePrefix_String:
  assumes "key_canonical k"
  shows "ParsePrefixKey (key_String k) = Inr k"
proof -
  let ?w = "be_word (le_bytes 4 (Addr k)) :: u32" and ?n = "unat (Prefixlen k)"
  have n: "?n \<le> 32" using assms by (simp add: key_canonical_def word_le_nat_alt)
  then have "int ?n \<le> 32" by linarith
  then have le_int: "\<not> 32 < uint (Prefixlen k)" by simp
  have w: "be_bytes 4 ?w = le_bytes 4 (Addr k)" by (simp add: be_bytes_be_word)
  have raw: "key_String k = string4 ?w @ ''/'' @ itoa ?n" by (simp add: key_String_def BPFNetworkOrderToIPv4_def)
  have sp: "trim_space (key_String k) = key_String k"
    unfolding raw using string4_no_space[of ?w] itoa_no_space[of ?n] by (intro trim_space_id) (simp add: is_space_def ball_Un)
  have "net_parseIP (string4 ?w) = Some (V4 ?w)" by (simp add: net_parseIP_def ParseAddr_string4)
  then have "ParseCIDR (key_String k) = Some (As16 (V4 ?w), CIDRMask ?n 32)"
    using n le_int by (simp add: ParseCIDR_def raw first_slash_append string4_no_slash atoi_itoa)
  moreover have "IP_Mask (As16 (V4 ?w)) (CIDRMask ?n 32) = le_bytes 4 (Addr k)"
    using assms by (simp only: IP_Mask_V4 w key_canonical_def)
  moreover have "CHR ''/'' \<in> set (key_String k)" "key_String k \<noteq> []" by (simp_all add: raw)
  ultimately show ?thesis
    using n by (simp add: ParsePrefixKey_def sp Let_def To4_def IPv4ToLPMTrieUint32_def IPv4ToBPFNetworkOrder_def
        Size_CIDRMask del: As16.simps)
qed

theorem ParsePrefix_String_witness:
  "ParsePrefixKey (key_String (Key 24 (le_word [10, 16, 3, 0]))) = Inr (Key 24 (le_word [10, 16, 3, 0]))"
  by (rule ParsePrefix_String) code_simp

section \<open>The trie is the union of the claims\<close>

text \<open>Where a prefix is delivered when several claims of it are merged.\<close>

definition merged :: "(pkey \<times> u8) set \<Rightarrow> pkey \<Rightarrow> u8 option" where
  "merged C k = (if (k, DeliveredHere) \<in> C then Some DeliveredHere
     else if (k, DeliveredElsewhere) \<in> C then Some DeliveredElsewhere else None)"

definition claims_ok :: "(pkey \<times> u8) set \<Rightarrow> bool" where
  "claims_ok C \<longleftrightarrow> snd ` C \<subseteq> {DeliveredHere, DeliveredElsewhere}"

lemma merge_claim_map:
  "map_of (merge_claim acc c) = (map_of acc)(fst c \<mapsto> preferredDelivery (case map_of acc (fst c) of None \<Rightarrow> 0 | Some d \<Rightarrow> d) (snd c))"
  "gomap_wf acc \<Longrightarrow> gomap_wf (merge_claim acc c)"
  by (simp_all add: merge_claim_def update_conv')

lemma merge_fold:
  assumes "claims_ok (set cs)"
  shows "map_of (foldl merge_claim [] cs) = merged (set cs) \<and> gomap_wf (foldl merge_claim [] cs)"
  using assms
proof (induction cs rule: rev_induct)
  case (snoc c cs)
  obtain k d where c: "c = (k, d)" by (cases c)
  have ok: "claims_ok (set cs)" and d: "d = DeliveredHere \<or> d = DeliveredElsewhere"
    using snoc.prems c by (auto simp: claims_ok_def)
  have IH: "map_of (foldl merge_claim [] cs) = merged (set cs)" "gomap_wf (foldl merge_claim [] cs)"
    using snoc.IH[OF ok] by simp_all
  have "merged (set (cs @ [c])) = (merged (set cs))(k \<mapsto> preferredDelivery (case merged (set cs) k of None \<Rightarrow> 0 | Some d \<Rightarrow> d) d)"
    using d by (auto simp: fun_eq_iff merged_def c preferredDelivery_def DeliveredHere_def DeliveredElsewhere_def)
  then show ?case using IH merge_claim_map[of "foldl merge_claim [] cs" c] c by simp
qed (simp add: merged_def fun_eq_iff)

lemma sortedKeys_set [simp]: "set (sortedKeys m) = dom (map_of m)"
  by (simp add: sortedKeys_def dom_map_of_conv_image_fst)

lemma drop_stale_spec:
  assumes "hash_map_ok m" "drop_stale m desired keys installed s = ((errs, inst), s')" "map_of installed = hm_view m s"
  shows "map_of inst = hm_view m s' \<and> (\<forall>k. k \<notin> set keys \<or> map_of desired k \<noteq> None \<longrightarrow> map_of inst k = map_of installed k)
    \<and> (errs = [] \<longrightarrow> (\<forall>k \<in> set keys. map_of desired k = None \<longrightarrow> map_of inst k = None))"
  using assms(2,3)
proof (induction keys arbitrary: installed s errs)
  case (Cons key keys)
  obtain r s1 where d: "hm_delete m key s = (r, s1)" by (metis surj_pair)
  note spec = hm_delete_spec[OF assms(1) d]
  consider (keep) "map_of desired key \<noteq> None"
    | (gone) "map_of desired key = None" "r = Inl KeyNotExist \<or> (\<exists>u. r = Inr u)"
    | (fail) e where "map_of desired key = None" "r = Inl e" "e \<noteq> KeyNotExist"
    by (cases r) auto
  then show ?case
  proof cases
    case keep
    then show ?thesis using Cons.IH[of installed s errs] Cons.prems by auto
  next
    case gone
    then have run: "drop_stale m desired keys (AList.delete key installed) s1 = ((errs, inst), s')"
      using Cons.prems(1) d by (auto split: if_splits)
    have "map_of (AList.delete key installed) = hm_view m s1"
      using gone(2) spec Cons.prems(2) by (auto simp: delete_conv' fun_eq_iff)
    from Cons.IH[OF run this] show ?thesis using gone(1) by (cases "key \<in> set keys") (auto simp: delete_conv')
  next
    case fail
    then obtain errs' where run: "drop_stale m desired keys installed s1 = ((errs', inst), s')" "errs = StaleDelete key e # errs'"
      using Cons.prems(1) d by (auto split: prod.splits)
    have "map_of installed = hm_view m s1" using fail spec Cons.prems(2) by auto
    from Cons.IH[OF run(1) this] show ?thesis using run(2) by auto
  qed
qed auto

lemma put_missing_spec:
  assumes "hash_map_ok m" "put_missing m desired keys installed s = ((errs, inst), s')" "map_of installed = hm_view m s"
    and "set keys \<subseteq> dom (map_of desired)"
  shows "map_of inst = hm_view m s' \<and> (\<forall>k. map_of inst k = map_of installed k \<or> k \<in> set keys \<and> map_of inst k = map_of desired k)
    \<and> (errs = [] \<longrightarrow> (\<forall>k \<in> set keys. map_of inst k = map_of desired k))"
  using assms(2-)
proof (induction keys arbitrary: installed s errs)
  case (Cons key keys)
  obtain d where d: "map_of desired key = Some d" using Cons.prems(3) by auto
  obtain r s1 where u: "hm_update m key d s = (r, s1)" by (metis surj_pair)
  note spec = hm_update_spec[OF assms(1) u]
  have sub: "set keys \<subseteq> dom (map_of desired)" using Cons.prems(3) by simp
  consider (held) "map_of installed key = Some d" | (put) x where "map_of installed key \<noteq> Some d" "r = Inr x"
    | (fail) e where "map_of installed key \<noteq> Some d" "r = Inl e"
    by (cases r) auto
  then show ?case
  proof cases
    case held
    then have run: "put_missing m desired keys installed s = ((errs, inst), s')" using Cons.prems(1) d by (simp add: Let_def)
    from Cons.IH[OF run Cons.prems(2) sub] show ?thesis using held d by (cases "key \<in> set keys") (auto, metis)
  next
    case put
    then have run: "put_missing m desired keys (AList.update key d installed) s1 = ((errs, inst), s')"
      using Cons.prems(1) d u by (simp add: Let_def)
    have "map_of (AList.update key d installed) = hm_view m s1" using put spec Cons.prems(2) by (simp add: update_conv')
    note IH = Cons.IH[OF run this sub]
    have at: "map_of inst key = Some d" using IH d by (metis fun_upd_same update_conv')
    have other: "map_of (AList.update key d installed) k = map_of installed k" if "k \<noteq> key" for k using that by (simp add: update_conv')
    show ?thesis
    proof (intro conjI allI impI ballI)
      show "map_of inst k = map_of installed k \<or> k \<in> set (key # keys) \<and> map_of inst k = map_of desired k" for k
        using IH[THEN conjunct2, THEN conjunct1, rule_format, of k] at other[of k] d by (cases "k = key") auto
      show "map_of inst k = map_of desired k" if "errs = []" "k \<in> set (key # keys)" for k
        using IH at d that by (cases "k = key") auto
    qed (use IH in blast)
  next
    case fail
    then obtain errs' where run: "put_missing m desired keys installed s1 = ((errs', inst), s')" "errs = MissingUpdate key e # errs'"
      using Cons.prems(1) d u by (auto simp: Let_def split: prod.splits)
    have "map_of installed = hm_view m s1" using fail spec Cons.prems(2) by simp
    from Cons.IH[OF run(1) this sub] show ?thesis using run(2) by auto
  qed
qed auto

lemma store_apply_spec:
  assumes "hash_map_ok m" "store_apply m st s = ((errs, st'), s')" "map_of (sr_installed st) = hm_view m s"
  shows "sr_claims st' = sr_claims st" "map_of (sr_installed st') = hm_view m s'"
    "errs = [] \<Longrightarrow> hm_view m s' = map_of (desired_of (sr_claims st))"
proof -
  let ?des = "desired_of (sr_claims st)"
  obtain e1 i1 s1 where d: "drop_stale m ?des (sortedKeys (sr_installed st)) (sr_installed st) s = ((e1, i1), s1)" by (metis surj_pair)
  obtain e2 i2 s2 where p: "put_missing m ?des (sortedKeys ?des) i1 s1 = ((e2, i2), s2)" by (metis surj_pair)
  have r: "errs = e1 @ e2" "st' = st\<lparr>sr_installed := i2\<rparr>" "s' = s2" using assms(2) d p by (auto simp: store_apply_def Let_def)
  note D = drop_stale_spec[OF assms(1) d assms(3)]
  have v1: "map_of i1 = hm_view m s1" using D by blast
  note P0 = put_missing_spec[OF assms(1) p v1, unfolded sortedKeys_set, OF subset_refl]
  note P = P0[THEN conjunct1] P0[THEN conjunct2, THEN conjunct1, rule_format] P0[THEN conjunct2, THEN conjunct2, rule_format]
  show "sr_claims st' = sr_claims st" "map_of (sr_installed st') = hm_view m s'" using P(1) r by simp_all
  assume "errs = []"
  then have e: "e1 = []" "e2 = []" using r by simp_all
  have "map_of i2 k = map_of ?des k" for k
  proof (cases "map_of ?des k")
    case None
    then have "map_of i1 k = None"
      using D[THEN conjunct2, THEN conjunct2] D[THEN conjunct2, THEN conjunct1, rule_format, of k] e(1)
      by (cases "map_of (sr_installed st) k") (auto simp: dom_def)
    then show ?thesis using P(2)[of k] None by auto
  next
    case (Some d)
    then show ?thesis using P(3)[OF e(2), of k] by (auto simp: dom_def)
  qed
  then show "hm_view m s' = map_of ?des" using P(1) r by (simp add: fun_eq_iff)
qed

section \<open>What the owners ask for\<close>

text \<open>The contract: each owner has a set of prefixes, and the trie is their union.\<close>

type_synonym ownership = "owner \<Rightarrow> pkey \<Rightarrow> u8 option"

datatype owned_op = SetOp string string "(pkey \<times> u8) list" | ReleaseAllOp string

fun spec_op :: "ownership \<Rightarrow> owned_op \<Rightarrow> ownership" where
  "spec_op A (SetOp scope name claims) = A(\<lparr>ow_scope = scope, ow_name = name\<rparr> := merged (set claims))"
| "spec_op A (ReleaseAllOp scope) = (\<lambda>ow. if ow_scope ow = scope then Map.empty else A ow)"

definition owned :: "ownership \<Rightarrow> pkey \<Rightarrow> u8 option" where
  "owned A = merged {(k, d). \<exists>ow. A ow k = Some d}"

fun exec_op :: "('s, pkey, u8) hash_map \<Rightarrow> owned_op \<Rightarrow> store \<Rightarrow> 's \<Rightarrow> (store_error list \<times> store) \<times> 's" where
  "exec_op m (SetOp scope name claims) = SetClaims m scope name claims"
| "exec_op m (ReleaseAllOp scope) = ReleaseAll m scope"

fun run_ops :: "('s, pkey, u8) hash_map \<Rightarrow> owned_op list \<Rightarrow> store \<Rightarrow> 's \<Rightarrow> (store_error list list \<times> store) \<times> 's" where
  "run_ops m [] st s = (([], st), s)"
| "run_ops m (op # ops) st s =
     (case exec_op m op st s of ((errs, st'), s') \<Rightarrow>
        (case run_ops m ops st' s' of ((errss, st''), s'') \<Rightarrow> ((errs # errss, st''), s'')))"

definition op_ok :: "owned_op \<Rightarrow> bool" where
  "op_ok op = (case op of SetOp _ _ claims \<Rightarrow> claims_ok (set claims) | ReleaseAllOp _ \<Rightarrow> True)"

definition ownership_of :: "(owner, deliveries) gomap \<Rightarrow> ownership" where
  "ownership_of claims ow = (case map_of claims ow of None \<Rightarrow> Map.empty | Some m \<Rightarrow> map_of m)"

definition store_ok :: "store \<Rightarrow> bool" where
  "store_ok st \<longleftrightarrow> gomap_wf (sr_claims st) \<and> (\<forall>m \<in> ran (map_of (sr_claims st)). claims_ok (set m) \<and> gomap_wf m)"

lemma merged_range: "merged C k = Some d \<Longrightarrow> d = DeliveredHere \<or> d = DeliveredElsewhere"
  by (auto simp: merged_def split: if_splits)

lemma merge_fold_ok: "claims_ok (set cs) \<Longrightarrow> claims_ok (set (foldl merge_claim [] cs))"
  using merge_fold[of cs] by (auto simp: claims_ok_def map_of_eq_Some_iff[symmetric] dest: merged_range)

lemma desired_owned:
  assumes "store_ok st"
  shows "map_of (desired_of (sr_claims st)) = owned (ownership_of (sr_claims st))"
proof -
  let ?C = "sr_claims st"
  have ran: "ran (map_of ?C) = snd ` set ?C" using assms by (simp add: store_ok_def ran_distinct)
  have wf: "m \<in> ran (map_of ?C) \<Longrightarrow> gomap_wf m" for m using assms by (simp add: store_ok_def)
  have "claims_ok (set (concat (map snd ?C)))" using assms by (fastforce simp: store_ok_def claims_ok_def ran)
  then have "map_of (desired_of ?C) = merged (set (concat (map snd ?C)))" unfolding desired_of_def using merge_fold by blast
  moreover have "set (concat (map snd ?C)) = {(k, d). \<exists>ow. ownership_of ?C ow k = Some d}"
  proof -
    have "(k, d) \<in> set (concat (map snd ?C)) \<longleftrightarrow> (\<exists>ow. ownership_of ?C ow k = Some d)" for k d
    proof -
    have "(k, d) \<in> set (concat (map snd ?C)) \<longleftrightarrow> (\<exists>m \<in> ran (map_of ?C). (k, d) \<in> set m)" by (auto simp: ran)
    also have "\<dots> \<longleftrightarrow> (\<exists>m \<in> ran (map_of ?C). map_of m k = Some d)" by (intro bex_cong refl gomap_entry_iff wf)
    also have "\<dots> \<longleftrightarrow> (\<exists>ow. ownership_of ?C ow k = Some d)" by (auto simp: ownership_of_def ran_def split: option.splits)
    finally show ?thesis .
    qed
    then show ?thesis unfolding set_eq_iff split_paired_All mem_Collect_eq case_prod_conv by blast
  qed
  ultimately show ?thesis by (simp only: owned_def)
qed

lemma ran_subsets:
  "ran (map_of (AList.update k v m)) \<subseteq> insert v (ran (map_of m))" "ran (map_of (AList.delete k m)) \<subseteq> ran (map_of m)"
  "ran (map_of (filter (\<lambda>e. P (fst e)) m)) \<subseteq> ran (map_of m)"
  by (auto simp: update_conv' delete_conv' map_of_filter_fst ran_def split: if_splits)

lemma store_ok_mono:
  "store_ok st \<Longrightarrow> gomap_wf C \<Longrightarrow> ran (map_of C) \<subseteq> insert m (ran (map_of (sr_claims st))) \<Longrightarrow> claims_ok (set m) \<Longrightarrow> gomap_wf m
    \<Longrightarrow> store_ok (st\<lparr>sr_claims := C\<rparr>)"
  unfolding store_ok_def by auto

lemma exec_op_spec:
  assumes "hash_map_ok m" "exec_op m op st s = ((errs, st'), s')" "map_of (sr_installed st) = hm_view m s" "store_ok st" "op_ok op"
  shows "map_of (sr_installed st') = hm_view m s'" "store_ok st'"
    "ownership_of (sr_claims st') = spec_op (ownership_of (sr_claims st)) op"
    "errs = [] \<Longrightarrow> hm_view m s' = owned (ownership_of (sr_claims st'))"
proof -
  define C where "C = (case op of
      SetOp scope name claims \<Rightarrow> (if claims = [] then AList.delete \<lparr>ow_scope = scope, ow_name = name\<rparr> (sr_claims st)
        else AList.update \<lparr>ow_scope = scope, ow_name = name\<rparr> (foldl merge_claim [] claims) (sr_claims st))
    | ReleaseAllOp scope \<Rightarrow> filter (\<lambda>e. ow_scope (fst e) \<noteq> scope) (sr_claims st))"
  have run: "store_apply m (st\<lparr>sr_claims := C\<rparr>) s = ((errs, st'), s')"
    using assms(2) by (cases op) (simp_all add: C_def SetClaims_def store_set_def ReleaseAll_def releaseScope_def)
  note A = store_apply_spec[OF assms(1) run, simplified, OF assms(3)]
  show "map_of (sr_installed st') = hm_view m s'" by (rule A(2))
  have ok: "store_ok (st\<lparr>sr_claims := C\<rparr>)"
  proof (cases op)
    case (SetOp scope name claims)
    then have cl: "claims_ok (set claims)" using assms(5) by (simp add: op_ok_def)
    have wf: "gomap_wf (sr_claims st)" using assms(4) by (simp add: store_ok_def)
    show ?thesis
      by (rule store_ok_mono[OF assms(4), where m = "foldl merge_claim [] claims"])
        (use wf merge_fold[OF cl] merge_fold_ok[OF cl] in \<open>auto simp: C_def SetOp dest: ran_subsets(1,2)[THEN subsetD]\<close>)
  next
    case (ReleaseAllOp scope)
    have wf: "gomap_wf (sr_claims st)" using assms(4) by (simp add: store_ok_def)
    show ?thesis
      by (rule store_ok_mono[OF assms(4), where m = "[]"])
        (use wf ran_subsets(3)[of "\<lambda>ow. ow_scope ow \<noteq> scope" "sr_claims st"] in \<open>auto simp: C_def ReleaseAllOp claims_ok_def\<close>)
  qed
  then show "store_ok st'" using A(1) by (simp add: store_ok_def)
  show "ownership_of (sr_claims st') = spec_op (ownership_of (sr_claims st)) op"
  proof (cases op)
    case (SetOp scope name claims)
    then have "claims_ok (set claims)" using assms(5) by (simp add: op_ok_def)
    then have "map_of (foldl merge_claim [] claims) = merged (set claims)" using merge_fold by blast
    then show ?thesis unfolding A(1)
      by (auto simp: fun_eq_iff ownership_of_def C_def SetOp delete_conv' update_conv' merged_def)
  next
    case (ReleaseAllOp scope)
    then show ?thesis unfolding A(1) by (auto simp: fun_eq_iff ownership_of_def C_def map_of_filter_fst[of "\<lambda>ow. ow_scope ow \<noteq> scope"])
  qed
  show "hm_view m s' = owned (ownership_of (sr_claims st'))" if "errs = []"
    using A(3)[OF that] desired_owned[OF ok] A(1) by simp
qed

lemma run_ops_spec:
  assumes "hash_map_ok m" "run_ops m ops st s = ((errss, st'), s')" "map_of (sr_installed st) = hm_view m s" "store_ok st"
    and "list_all op_ok ops"
  shows "map_of (sr_installed st') = hm_view m s' \<and> ownership_of (sr_claims st') = foldl spec_op (ownership_of (sr_claims st)) ops
    \<and> (ops \<noteq> [] \<longrightarrow> last errss = [] \<longrightarrow> hm_view m s' = owned (ownership_of (sr_claims st')))"
  using assms(2-)
proof (induction ops arbitrary: st s errss)
  case (Cons op ops)
  obtain errs st1 s1 where x: "exec_op m op st s = ((errs, st1), s1)" by (metis surj_pair)
  obtain errss' where r: "run_ops m ops st1 s1 = ((errss', st'), s')" "errss = errs # errss'"
    using Cons.prems(1) x by (auto split: prod.splits)
  have op: "op_ok op" "list_all op_ok ops" using Cons.prems(4) by simp_all
  note E = exec_op_spec[OF assms(1) x Cons.prems(2,3) op(1)]
  show ?case using Cons.IH[OF r(1) E(1,2) op(2)] E(3,4) r
    by (cases ops) (auto split: prod.splits)
qed simp

text \<open>
  C9. The prefixes the node answers for are always the union of what its reconcilers claim. Start from an
  empty trie and run any sequence of \<open>Set\<close>, \<open>SetClaims\<close>, \<open>Release\<close> and \<open>ReleaseAll\<close> calls, any of whose map calls may
  fail. After every call that returns no error the trie holds exactly the prefixes some owner claims, each
  delivered here when some owner says so; so an earlier failure is made up for, and an owner that drops a
  prefix never takes it from another.
\<close>

theorem owned_union:
  assumes "hash_map_ok m" "hm_view m s = Map.empty" "list_all op_ok ops" "ops \<noteq> []"
    and "run_ops m ops NewStore s = ((errss, st), s')" "last errss = []"
  shows "hm_view m s' = owned (foldl spec_op (\<lambda>_. Map.empty) ops)"
proof -
  have "store_ok NewStore" "ownership_of (sr_claims NewStore) = (\<lambda>_. Map.empty)" "map_of (sr_installed NewStore) = hm_view m s"
    using assms(2) by (auto simp: NewStore_def store_ok_def ownership_of_def)
  then show ?thesis using run_ops_spec[OF assms(1,5)] assms(3,4,6) by simp
qed

theorem owned_union_witness:
  "map_of (snd (run_ops (mem_hash 9) [SetOp ''napt'' ''a'' [(Key 32 7, DeliveredHere)], SetOp ''arp'' ''b'' [(Key 32 7, DeliveredElsewhere), (Key 24 5, DeliveredElsewhere)],
      ReleaseAllOp ''napt''] NewStore [])) (Key 32 7) = Some DeliveredElsewhere" (is "map_of (snd ?run) _ = _")
proof -
  let ?ops = "[SetOp ''napt'' ''a'' [(Key 32 7, DeliveredHere)], SetOp ''arp'' ''b'' [(Key 32 7, DeliveredElsewhere), (Key 24 5, DeliveredElsewhere)],
      ReleaseAllOp ''napt'']"
  have view: "hm_view (mem_hash 9) s = map_of s" for s :: "(pkey, u8) gomap" by (simp add: mem_hash_def)
  have "last (fst (fst ?run)) = []" by code_simp
  then obtain errss st s' where run: "?run = ((errss, st), s')" "last errss = []" by (metis fst_conv surj_pair)
  have "hm_view (mem_hash 9) s' = owned (foldl spec_op (\<lambda>_. Map.empty) ?ops)"
    by (rule owned_union[OF mem_hash_ok _ _ _ run]) (simp_all add: view op_ok_def claims_ok_def)
  moreover have "owned (foldl spec_op (\<lambda>_. Map.empty) ?ops) (Key 32 7) = Some DeliveredElsewhere"
  proof -
    let ?C = "{(Key 32 7, DeliveredElsewhere), (Key 24 5, DeliveredElsewhere)}"
    have A: "foldl spec_op (\<lambda>_. Map.empty) ?ops ow = (if ow = \<lparr>ow_scope = ''arp'', ow_name = ''b''\<rparr> then merged ?C else Map.empty)" for ow
      by simp
    have "merged ?C (Key 32 7) = Some DeliveredElsewhere" by (simp add: merged_def DeliveredHere_def DeliveredElsewhere_def)
    then show ?thesis unfolding owned_def A merged_def[of "{(k, d). _ k d}"] by (auto simp: DeliveredHere_def DeliveredElsewhere_def)
  qed
  ultimately show ?thesis unfolding run(1) by (simp add: view)
qed

end
