(* ===== verification/PacketPlane.thy ===== *)
theory PacketPlane
  imports Bytes Netip BpfMap
begin

text \<open>
  The packet plane of the virtual services (\<open>virtservice/packetplane\<close>: \<open>flowtable.go\<close>, \<open>builder.go\<close>,
  \<open>dispatcher.go\<close>) and the classifier that feeds it (\<open>handle_virtual_service\<close> in \<open>pod_egress.c\<close>). Frames are
  byte lists. A map key is given by the bytes the kernel compares: the daemon writes host integers on a
  little-endian machine, the classifier copies header bytes. Reading the TAP device and the socket frames
  are sent on are not modelled: a handler call is the value \<open>handleFrame\<close> returns.
\<close>

section \<open>Flows (flowtable.go)\<close>

type_synonym mac = "u8 list"

record flow_key =
  fk_subnetID :: u32
  fk_srcIP :: "u8 list"
  fk_dstIP :: "u8 list"
  fk_srcPort :: "u8 list"
  fk_dstPort :: "u8 list"
  fk_proto :: u8

record flow_val =
  fv_vpcID :: u32
  fv_serviceID :: u32
  fv_podIfindex :: u32
  fv_podMAC :: mac
  fv_serviceMAC :: mac
  fv_lastSeenNS :: u64

record flow =
  fl_subnetID :: u32
  fl_vpcID :: u32
  fl_serviceID :: u32
  fl_clientIP :: addr
  fl_clientPort :: u16
  fl_serviceIP :: addr
  fl_servicePort :: u16
  fl_proto :: u8
  fl_podIfindex :: int
  fl_podMAC :: mac
  fl_serviceMAC :: mac

definition htons :: "u16 \<Rightarrow> u16" where
  "htons x = (push_bit 8 x AND 0xff00) OR drop_bit 8 x"

definition flow_key_of :: "u32 \<Rightarrow> addr \<Rightarrow> addr \<Rightarrow> u16 \<Rightarrow> u16 \<Rightarrow> u8 \<Rightarrow> flow_key" where
  "flow_key_of subnetID srcIP dstIP srcPort dstPort proto =
     \<lparr>fk_subnetID = subnetID, fk_srcIP = As4 srcIP, fk_dstIP = As4 dstIP, fk_srcPort = le_bytes 2 (htons srcPort),
      fk_dstPort = le_bytes 2 (htons dstPort), fk_proto = proto\<rparr>"

datatype flow_error = NotIPv4Flow | FlowLookup ebpf_error

definition FlowTable_Lookup ::
  "('s, flow_key, flow_val) hash_map \<Rightarrow> u32 \<Rightarrow> addr \<Rightarrow> addr \<Rightarrow> u16 \<Rightarrow> u16 \<Rightarrow> u8 \<Rightarrow> ('s, flow_error, flow option) api" where
  "FlowTable_Lookup m subnetID srcIP dstIP srcPort dstPort proto =
     (if \<not> Is4 srcIP \<or> \<not> Is4 dstIP then api_throw NotIPv4Flow
      else (\<lambda>s. case hm_lookup m (flow_key_of subnetID srcIP dstIP srcPort dstPort proto) s of
        (Inl e, s') \<Rightarrow> if e = KeyNotExist then (Inr None, s') else (Inl (FlowLookup e), s')
      | (Inr val, s') \<Rightarrow>
          (Inr (Some \<lparr>fl_subnetID = subnetID, fl_vpcID = fv_vpcID val, fl_serviceID = fv_serviceID val, fl_clientIP = srcIP,
             fl_clientPort = srcPort, fl_serviceIP = dstIP, fl_servicePort = dstPort, fl_proto = proto,
             fl_podIfindex = uint (fv_podIfindex val), fl_podMAC = fv_podMAC val, fl_serviceMAC = fv_serviceMAC val\<rparr>), s')))"

section \<open>Building a response (builder.go)\<close>

definition EthernetHeaderLen :: nat where "EthernetHeaderLen = 14"
definition EtherTypeIPv4 :: u16 where "EtherTypeIPv4 = 0x0800"
definition IPv4HeaderLen :: nat where "IPv4HeaderLen = 20"
definition UDPHeaderLen :: nat where "UDPHeaderLen = 8"

text \<open>The loop over byte pairs, with the odd byte at the end, in 32-bit arithmetic; and the folding of the carries.\<close>

fun sum_words :: "u32 \<Rightarrow> u8 list \<Rightarrow> u32" where
  "sum_words acc [] = acc"
| "sum_words acc [b] = acc + push_bit 8 (ucast b)"
| "sum_words acc (a # b # bs) = sum_words (acc + (push_bit 8 (ucast a) OR ucast b)) bs"

lemma fold_step: "unat ((acc AND 0xFFFF) + drop_bit 16 acc :: u32) = unat acc mod 65536 + unat acc div 65536"
proof -
  have "acc AND 0xFFFF = take_bit 16 acc" by (simp add: take_bit_eq_mask mask_eq_exp_minus_1)
  then have lo: "unat (acc AND 0xFFFF) = unat acc mod 65536" by (simp add: unsigned_take_bit_eq take_bit_eq_mod unat_mod)
  have hi: "unat (drop_bit 16 acc) = unat acc div 65536" by (simp add: drop_bit_eq_div unat_div)
  have "unat acc div 65536 < 65536" using unsigned_less[of acc, where 'a = nat] by (simp add: less_mult_imp_div_less)
  moreover have "unat acc mod 65536 < 65536" by simp
  ultimately have "unat (acc AND 0xFFFF) + unat (drop_bit 16 acc) < 2 ^ LENGTH(32)" unfolding lo hi by simp
  then show ?thesis by (simp add: unat_word_ariths(1) lo hi)
qed

lemma carry_iff: "0 < drop_bit 16 (acc :: u32) \<longleftrightarrow> 65536 \<le> unat acc"
  by (simp add: word_less_nat_alt drop_bit_eq_div unat_div div_greater_zero_iff)

function fold_carry :: "u32 \<Rightarrow> u32" where
  "fold_carry acc = (if drop_bit 16 acc > 0 then fold_carry ((acc AND 0xFFFF) + drop_bit 16 acc) else acc)"
  by pat_completeness auto
termination
proof (relation "measure unat")
  fix acc :: u32 assume "0 < drop_bit 16 acc"
  then have "65536 \<le> unat acc" by (simp add: carry_iff)
  then have "1 \<le> unat acc div 65536" by simp
  then have "unat acc mod 65536 + unat acc div 65536 < unat acc" using div_mult_mod_eq[of "unat acc" 65536] by linarith
  then show "((acc AND 0xFFFF) + drop_bit 16 acc, acc) \<in> measure unat" by (simp add: fold_step)
qed simp

definition onesComplementChecksum_of :: "u32 \<Rightarrow> u16" where
  "onesComplementChecksum_of acc = NOT (ucast (fold_carry acc))"

definition onesComplementChecksum :: "u8 list \<Rightarrow> u16" where
  "onesComplementChecksum b = onesComplementChecksum_of (sum_words 0 b)"

definition udpPseudo :: "u8 list \<Rightarrow> u8 list \<Rightarrow> nat \<Rightarrow> u8 list" where
  "udpPseudo srcIP dstIP len = srcIP @ dstIP @ [0, 17] @ be_bytes 2 (of_nat len :: u16)"

definition udpChecksum :: "u8 list \<Rightarrow> u8 list \<Rightarrow> u8 list \<Rightarrow> u8 list \<Rightarrow> u16" where
  "udpChecksum srcIP dstIP udpHeader payload =
     onesComplementChecksum_of (sum_words (sum_words (sum_words 0 (udpPseudo srcIP dstIP (length udpHeader + length payload))) udpHeader) payload)"

definition ip_header :: "nat \<Rightarrow> u8 \<Rightarrow> u8 list \<Rightarrow> u8 list \<Rightarrow> u16 \<Rightarrow> u8 list" where
  "ip_header totalIP proto srcIP dstIP csum =
     [0x45, 0] @ be_bytes 2 (of_nat totalIP :: u16) @ be_bytes 2 (0 :: u16) @ be_bytes 2 (0x4000 :: u16)
     @ [64, proto] @ be_bytes 2 csum @ srcIP @ dstIP"

definition udp_header :: "u16 \<Rightarrow> u16 \<Rightarrow> nat \<Rightarrow> u16 \<Rightarrow> u8 list" where
  "udp_header srcPort dstPort len csum = be_bytes 2 srcPort @ be_bytes 2 dstPort @ be_bytes 2 (of_nat len :: u16) @ be_bytes 2 csum"

datatype build_error = NeedsIPv4 | NeedsMACs | TooLarge

definition BuildUDPResponse :: "flow \<Rightarrow> u8 list \<Rightarrow> build_error + u8 list" where
  "BuildUDPResponse fl payload =
     (if \<not> Is4 (fl_serviceIP fl) \<or> \<not> Is4 (fl_clientIP fl) then Inl NeedsIPv4
      else if length (fl_serviceMAC fl) \<noteq> 6 \<or> length (fl_podMAC fl) \<noteq> 6 then Inl NeedsMACs
      else let totalIP = IPv4HeaderLen + UDPHeaderLen + length payload
        in if totalIP > 0xFFFF then Inl TooLarge
           else let srcIP = As4 (fl_serviceIP fl); dstIP = As4 (fl_clientIP fl);
                    ipCsum = onesComplementChecksum (ip_header totalIP (fl_proto fl) srcIP dstIP 0);
                    udp0 = udp_header (fl_servicePort fl) (fl_clientPort fl) (UDPHeaderLen + length payload) 0;
                    udpCsum = udpChecksum srcIP dstIP udp0 payload;
                    udpCsum = (if udpCsum = 0 then 0xFFFF else udpCsum)
             in Inr (fl_podMAC fl @ fl_serviceMAC fl @ be_bytes 2 EtherTypeIPv4
                  @ ip_header totalIP (fl_proto fl) srcIP dstIP ipCsum
                  @ udp_header (fl_servicePort fl) (fl_clientPort fl) (UDPHeaderLen + length payload) udpCsum
                  @ payload))"

definition addrFromBytes :: "u8 list \<Rightarrow> addr" where
  "addrFromBytes b = (if length b \<noteq> 4 then AddrZero else AddrFrom4 b)"

section \<open>The dispatcher (dispatcher.go)\<close>

record handler_key =
  hk_subnetID :: u32
  hk_dstIP :: addr
  hk_dstPort :: u16
  hk_proto :: u8

record ('u, 't) dispatcher =
  ds_handlers :: "(handler_key, 'u) gomap"
  ds_tcpHandlers :: "(handler_key, 't) gomap"

definition NewDispatcher :: "('u, 't) dispatcher" where
  "NewDispatcher = \<lparr>ds_handlers = [], ds_tcpHandlers = []\<rparr>"

datatype dispatcher_error = NilHandler | HandlerTaken handler_key

definition RegisterUDP :: "handler_key \<Rightarrow> 'u option \<Rightarrow> ('u, 't) dispatcher \<Rightarrow> dispatcher_error + ('u, 't) dispatcher" where
  "RegisterUDP key handler d =
     (case handler of
        None \<Rightarrow> Inl NilHandler
      | Some h \<Rightarrow> if map_of (ds_handlers d) key \<noteq> None then Inl (HandlerTaken key)
                  else Inr (d\<lparr>ds_handlers := AList.update key h (ds_handlers d)\<rparr>))"

definition UnregisterUDP :: "handler_key \<Rightarrow> ('u, 't) dispatcher \<Rightarrow> ('u, 't) dispatcher" where
  "UnregisterUDP key d = d\<lparr>ds_handlers := AList.delete key (ds_handlers d)\<rparr>"

definition RegisterTCP :: "handler_key \<Rightarrow> 't option \<Rightarrow> ('u, 't) dispatcher \<Rightarrow> dispatcher_error + ('u, 't) dispatcher" where
  "RegisterTCP key handler d =
     (case handler of
        None \<Rightarrow> Inl NilHandler
      | Some h \<Rightarrow> if map_of (ds_tcpHandlers d) key \<noteq> None then Inl (HandlerTaken key)
                  else Inr (d\<lparr>ds_tcpHandlers := AList.update key h (ds_tcpHandlers d)\<rparr>))"

definition UnregisterTCP :: "handler_key \<Rightarrow> ('u, 't) dispatcher \<Rightarrow> ('u, 't) dispatcher" where
  "UnregisterTCP key d = d\<lparr>ds_tcpHandlers := AList.delete key (ds_tcpHandlers d)\<rparr>"

text \<open>What becomes of a frame: dropped, or one handler is called.\<close>

datatype ('u, 't) dispatch = Dropped | CallUDP 'u flow "u8 list" | CallTCP 't flow "u8 list"

definition handleUDP ::
  "('s, flow_key, flow_val) hash_map \<Rightarrow> ('u, 't) dispatcher \<Rightarrow> u32 \<Rightarrow> u8 list \<Rightarrow> addr \<Rightarrow> addr \<Rightarrow> 's \<Rightarrow> ('u, 't) dispatch \<times> 's" where
  "handleUDP m d subnetID l4 srcIP dstIP s =
     (if length l4 < UDPHeaderLen then (Dropped, s)
      else let srcPort = be_word (take 2 l4); dstPort = be_word (take 2 (drop 2 l4)); udpLen = unat (be_word (take 2 (drop 4 l4)) :: u16)
        in if udpLen < UDPHeaderLen \<or> udpLen > length l4 then (Dropped, s)
           else case FlowTable_Lookup m subnetID srcIP dstIP srcPort dstPort 17 s of
             (Inl _, s') \<Rightarrow> (Dropped, s')
           | (Inr None, s') \<Rightarrow> (Dropped, s')
           | (Inr (Some fl), s') \<Rightarrow>
               (case map_of (ds_handlers d) \<lparr>hk_subnetID = subnetID, hk_dstIP = dstIP, hk_dstPort = dstPort, hk_proto = 17\<rparr> of
                  None \<Rightarrow> (Dropped, s')
                | Some h \<Rightarrow> (CallUDP h fl (take (udpLen - UDPHeaderLen) (drop UDPHeaderLen l4)), s')))"

definition handleTCP ::
  "('s, flow_key, flow_val) hash_map \<Rightarrow> ('u, 't) dispatcher \<Rightarrow> u32 \<Rightarrow> u8 list \<Rightarrow> u8 list \<Rightarrow> addr \<Rightarrow> addr \<Rightarrow> 's \<Rightarrow> ('u, 't) dispatch \<times> 's" where
  "handleTCP m d subnetID ipPacket l4 srcIP dstIP s =
     (if length l4 < 20 then (Dropped, s)
      else let srcPort = be_word (take 2 l4); dstPort = be_word (take 2 (drop 2 l4))
        in case FlowTable_Lookup m subnetID srcIP dstIP srcPort dstPort 6 s of
             (Inl _, s') \<Rightarrow> (Dropped, s')
           | (Inr None, s') \<Rightarrow> (Dropped, s')
           | (Inr (Some fl), s') \<Rightarrow>
               (case map_of (ds_tcpHandlers d) \<lparr>hk_subnetID = subnetID, hk_dstIP = dstIP, hk_dstPort = dstPort, hk_proto = 6\<rparr> of
                  None \<Rightarrow> (Dropped, s')
                | Some h \<Rightarrow> (CallTCP h fl ipPacket, s')))"

definition handleFrame ::
  "('s, flow_key, flow_val) hash_map \<Rightarrow> ('u, 't) dispatcher \<Rightarrow> u8 list \<Rightarrow> 's \<Rightarrow> ('u, 't) dispatch \<times> 's" where
  "handleFrame m d frame s =
     (if length frame < EthernetHeaderLen + IPv4HeaderLen then (Dropped, s)
      else if (be_word (take 2 (drop 12 frame)) :: u16) \<noteq> EtherTypeIPv4 then (Dropped, s)
      else let ip = drop EthernetHeaderLen frame; ihl = unat (ip ! 0 AND 0x0F) * 4
        in if ihl < IPv4HeaderLen \<or> ihl > length ip then (Dropped, s)
           else let totalLen = unat (be_word (take 2 (drop 2 ip)) :: u16)
             in if totalLen < ihl \<or> totalLen > length ip then (Dropped, s)
                else let subnetID = ucast (be_word (take 2 (drop 4 ip)) :: u16); proto = ip ! 9;
                         srcIP = addrFromBytes (take 4 (drop 12 ip)); dstIP = addrFromBytes (take 4 (drop 16 ip));
                         l4 = take (totalLen - ihl) (drop ihl ip)
                  in if proto = 17 then handleUDP m d subnetID l4 srcIP dstIP s
                     else if proto = 6 then handleTCP m d subnetID (take totalLen ip) l4 srcIP dstIP s
                     else (Dropped, s))"

section \<open>The classifier (pod\_egress.c)\<close>

record virtual_service_key =
  vk_subnetID :: u32
  vk_dstIP :: "u8 list"
  vk_dstPort :: "u8 list"
  vk_proto :: u8

record virtual_service_val =
  vv_serviceID :: u32
  vv_tapIfindex :: u32
  vv_serviceMAC :: mac

datatype classified = ParseError | ChecksumError flow_key flow_val | NoService | Redirect u32 "u8 list" flow_key flow_val

definition put_bytes :: "nat \<Rightarrow> u8 list \<Rightarrow> u8 list \<Rightarrow> u8 list" where
  "put_bytes off bs frame = take off frame @ bs @ drop (off + length bs) frame"

text \<open>
  \<open>csum\<close> is the kernel's helper that replaces two bytes under a checksum. The caller has checked that the
  frame holds an Ethernet and an IPv4 header. The flow is recorded before the helper runs, so a failure of the
  helper drops the packet and keeps the flow; a failure to record the flow is not looked at.
\<close>

definition handle_virtual_service ::
  "(u8 list \<Rightarrow> u8 list \<Rightarrow> u8 list \<Rightarrow> u8 list option) \<Rightarrow> (virtual_service_key \<Rightarrow> virtual_service_val option) \<Rightarrow>
   u8 list \<Rightarrow> u32 \<Rightarrow> u32 \<Rightarrow> u32 \<Rightarrow> u64 \<Rightarrow> classified" where
  "handle_virtual_service csum services frame ifindex subnet_id vpc_id now =
     (let ip = drop 14 frame; proto = ip ! 9
      in if proto \<noteq> 17 \<and> proto \<noteq> 6 then NoService
         else let ihl = unat (ip ! 0 AND 0x0F)
           in if ihl < 5 then ParseError
              else if (be_word (take 2 (drop 6 ip)) AND (0x1FFF :: u16)) \<noteq> 0 then NoService
              else let l4 = drop (ihl * 4) ip
                in if length l4 < (if proto = 17 then 8 else 20) then ParseError
                   else let sport = take 2 l4; dport = take 2 (drop 2 l4); saddr = take 4 (drop 12 ip); daddr = take 4 (drop 16 ip)
                     in case services \<lparr>vk_subnetID = subnet_id, vk_dstIP = daddr, vk_dstPort = dport, vk_proto = proto\<rparr> of
                          None \<Rightarrow> NoService
                        | Some vv \<Rightarrow>
                            if vv_tapIfindex vv = 0 then NoService
                            else let fk = \<lparr>fk_subnetID = subnet_id, fk_srcIP = saddr, fk_dstIP = daddr, fk_srcPort = sport,
                                           fk_dstPort = dport, fk_proto = proto\<rparr>;
                                     fv = \<lparr>fv_vpcID = vpc_id, fv_serviceID = vv_serviceID vv, fv_podIfindex = ifindex,
                                           fv_podMAC = take 6 (drop 6 frame), fv_serviceMAC = vv_serviceMAC vv, fv_lastSeenNS = now\<rparr>
                              in if subnet_id \<le> 0xFFFF
                                 then let sid = be_bytes 2 (ucast subnet_id :: u16)
                                   in (case csum (take 2 (drop 24 frame)) (take 2 (drop 18 frame)) sid of
                                         None \<Rightarrow> ChecksumError fk fv
                                       | Some check \<Rightarrow> Redirect (vv_tapIfindex vv) (put_bytes 18 sid (put_bytes 24 check frame)) fk fv)
                                 else Redirect (vv_tapIfindex vv) frame fk fv)"

section \<open>Checksums\<close>

text \<open>The sum of the big-endian byte pairs, and the test a receiver makes.\<close>

fun word_sum :: "u8 list \<Rightarrow> nat" where
  "word_sum [] = 0"
| "word_sum [b] = 256 * unat b"
| "word_sum (a # b # bs) = 256 * unat a + unat b + word_sum bs"

definition checksum_ok :: "u8 list \<Rightarrow> bool" where
  "checksum_ok bs \<longleftrightarrow> fold_carry (sum_words 0 bs) = 0xFFFF"

declare fold_carry.simps [simp del]

lemma pair_word: "(push_bit 8 (ucast (a :: u8)) OR ucast (b :: u8) :: u32) = of_nat (256 * unat a + unat b)"
proof -
  have "(push_bit 8 (ucast a) OR ucast b :: u32) = push_bit 8 (ucast a) + ucast b"
    by (rule disjunctive_add[symmetric]) (auto simp: bit_push_bit_iff bit_ucast_iff dest!: bit_imp_le_length)
  also have "\<dots> = of_nat (256 * unat a + unat b)"
    by (simp add: push_bit_eq_mult of_nat_unat)
  finally show ?thesis .
qed

lemma single_word: "(push_bit 8 (ucast (b :: u8)) :: u32) = of_nat (256 * unat b)"
  using pair_word[of b 0] by simp

lemma sum_words_nat: "sum_words acc bs = acc + of_nat (word_sum bs)"
proof (induction acc bs rule: sum_words.induct)
  case (2 acc b)
  show ?case by (simp only: sum_words.simps word_sum.simps single_word)
next
  case (3 acc a b bs)
  then show ?case by (simp only: sum_words.simps word_sum.simps pair_word of_nat_add add.assoc)
qed simp

lemma word_sum_append: "even (length xs) \<Longrightarrow> word_sum (xs @ ys) = word_sum xs + word_sum ys"
  by (induction xs rule: word_sum.induct) auto

lemma word_sum_bound: "word_sum bs \<le> 32768 * (length bs + 1)"
proof (induction bs rule: word_sum.induct)
  case (2 b)
  show ?case using unsigned_less[of b, where 'a = nat] by simp
next
  case (3 a b bs)
  then show ?case using unsigned_less[of a, where 'a = nat] unsigned_less[of b, where 'a = nat] by simp
qed simp

lemma word_sum_be2 [simp]: "word_sum (be_bytes 2 (w :: u16)) = unat w"
proof -
  have "be_bytes 2 w = [ucast (drop_bit 8 w), ucast w]" by (simp add: be_bytes_def upt_rec)
  moreover have "unat (ucast (drop_bit 8 w) :: u8) = unat w div 256"
    using unsigned_less[of w, where 'a = nat] by (simp add: unsigned_ucast_eq drop_bit_eq_div unat_div take_bit_eq_mod less_mult_imp_div_less)
  moreover have "unat (ucast w :: u8) = unat w mod 256" by (simp add: unsigned_ucast_eq take_bit_eq_mod)
  ultimately show ?thesis by simp
qed

lemma fold_carry_spec: "unat (fold_carry s) mod 65535 = unat s mod 65535 \<and> unat (fold_carry s) < 65536 \<and> (fold_carry s = 0 \<longleftrightarrow> s = 0)"
proof (induction s rule: fold_carry.induct)
  case (1 s)
  show ?case
  proof (cases "65536 \<le> unat s")
    case True
    let ?t = "(s AND 0xFFFF) + drop_bit 16 s"
    have carry: "0 < drop_bit 16 s" using True by (simp only: carry_iff)
    have "unat s = 65535 * (unat s div 65536) + unat ?t" unfolding fold_step using div_mult_mod_eq[of "unat s" 65536] by linarith
    then have "unat ?t mod 65535 = unat s mod 65535" by (metis mod_mult_self4)
    moreover have "?t \<noteq> 0"
    proof
      assume "?t = 0"
      then have "unat s mod 65536 + unat s div 65536 = 0" using fold_step[of s] by simp
      then show False using True by (simp add: div_eq_0_iff)
    qed
    moreover have "s \<noteq> 0" using True by auto
    moreover have "fold_carry s = fold_carry ?t" using carry by (subst fold_carry.simps) simp
    ultimately show ?thesis using 1[OF carry] by simp
  next
    case False
    then have "\<not> 0 < drop_bit 16 s" by (simp only: carry_iff not_False_eq_True)
    then have "fold_carry s = s" by (subst fold_carry.simps) simp
    then show ?thesis using False by simp
  qed
qed

lemma unat_checksum: "unat (onesComplementChecksum_of s) = 65535 - unat (fold_carry s)"
proof -
  have "unat (ucast (fold_carry s) :: u16) = unat (fold_carry s)"
    using fold_carry_spec[of s] by (simp add: unsigned_ucast_eq take_bit_nat_eq_self_iff)
  moreover have "unat (NOT (x :: u16)) = 65535 - unat x" for x
  proof -
    have "NOT x = (- 1) - x" by (simp add: not_eq_complement)
    moreover have "unat (- 1 :: u16) = 65535" by (simp add: unsigned_minus_1_eq_mask mask_eq_exp_minus_1)
    ultimately show ?thesis by (simp only: unat_sub[OF word_order.extremum])
  qed
  ultimately show ?thesis by (simp add: onesComplementChecksum_of_def)
qed

lemma checksum_verifies:
  assumes "c = onesComplementChecksum_of s \<or> onesComplementChecksum_of s = 0 \<and> c = 0xFFFF" and "unat s + n < 2 ^ 32" "n = unat c"
  shows "fold_carry (s + of_nat n) = (0xFFFF :: u32)"
proof -
  let ?t = "s + of_nat n" and ?f = "unat (fold_carry s)"
  have t: "unat ?t = unat s + unat c" using assms(2) unfolding assms(3)[symmetric] by (simp add: unat_word_ariths(1) unat_of_nat)
  have s: "?f mod 65535 = unat s mod 65535" "?f < 65536" "fold_carry s = 0 \<longleftrightarrow> s = 0" using fold_carry_spec by blast+
  have c: "unat c = 65535 - ?f \<or> ?f = 65535 \<and> unat c = 65535" using assms(1) unat_checksum[of s] s(2) by auto
  have "(?f + unat c) mod 65535 = 0" using c s(2) by auto
  then have "(unat s + unat c) mod 65535 = 0" using s(1) by (metis mod_add_left_eq)
  moreover have "0 < unat s + unat c"
  proof (cases "s = 0")
    case True
    then have "?f = 0" using s(3) by simp
    then show ?thesis using c by simp
  qed (simp add: unat_gt_0)
  ultimately have "unat (fold_carry ?t) mod 65535 = 0" "unat (fold_carry ?t) < 65536" "fold_carry ?t \<noteq> 0"
    using fold_carry_spec[of ?t] t by (simp_all add: unat_eq_zero flip: unat_eq_0)
  moreover have "m = 65535" if "m mod 65535 = 0" "m < 65536" "m \<noteq> 0" for m :: nat
    using that div_mult_mod_eq[of m 65535] by (cases "m div 65535") auto
  ultimately have "unat (fold_carry ?t) = 65535" by (metis unat_eq_zero)
  then show ?thesis by (simp add: word_eq_iff_unsigned[where 'a = nat])
qed

section \<open>A response frame\<close>

lemma word_sum_ip_header:
  assumes "length srcIP = 4" "length dstIP = 4"
  shows "word_sum (ip_header totalIP proto srcIP dstIP c) = word_sum (ip_header totalIP proto srcIP dstIP 0) + unat c"
proof -
  have "word_sum (ip_header totalIP proto srcIP dstIP c') = word_sum [0x45, 0] + unat (of_nat totalIP :: u16) + 0x4000 + word_sum [64, proto] + unat c'
      + word_sum (srcIP @ dstIP)" for c'
    unfolding ip_header_def using assms by (simp add: word_sum_append)
  then show ?thesis by simp
qed

lemma word_sum_udp_header: "word_sum (udp_header sp dp len c) = word_sum (udp_header sp dp len 0) + unat c"
  by (simp add: udp_header_def word_sum_append)

lemma length_ip_header [simp]: "length (ip_header totalIP proto srcIP dstIP c) = 12 + length srcIP + length dstIP"
  by (simp add: ip_header_def)

lemma length_udp_header [simp]: "length (udp_header sp dp len c) = 8"
  by (simp add: udp_header_def)

lemma ip_checksum_ok:
  assumes "length srcIP = 4" "length dstIP = 4"
  shows "checksum_ok (ip_header totalIP proto srcIP dstIP (onesComplementChecksum (ip_header totalIP proto srcIP dstIP 0)))"
proof -
  let ?h = "ip_header totalIP proto srcIP dstIP" and ?n = "word_sum (ip_header totalIP proto srcIP dstIP 0)"
  let ?c = "onesComplementChecksum (?h 0)"
  have small: "?n \<le> 32768 * 21" using word_sum_bound[of "?h 0"] assms by simp
  then have n: "unat (of_nat ?n :: u32) = ?n" by (simp add: unat_of_nat)
  have c: "?c = onesComplementChecksum_of (of_nat ?n)" by (simp add: onesComplementChecksum_def sum_words_nat)
  have "unat ?c < 65536" using unsigned_less[of ?c, where 'a = nat] by simp
  then have "?n + unat ?c < 2 ^ 32" using small by simp
  then have "fold_carry (of_nat ?n + of_nat (unat ?c)) = (0xFFFF :: u32)"
    by (intro checksum_verifies[OF disjI1[OF c]]) (simp_all only: n)
  then show ?thesis by (simp only: checksum_ok_def sum_words_nat word_sum_ip_header[OF assms, of totalIP proto ?c] of_nat_add add_0)
qed

lemma udp_checksum_ok:
  fixes payload :: "u8 list" and sp dp :: u16
  assumes "length srcIP = 4" "length dstIP = 4" "length payload \<le> 65535"
  defines "c \<equiv> udpChecksum srcIP dstIP (udp_header sp dp (8 + length payload) 0) payload"
  shows "checksum_ok (udpPseudo srcIP dstIP (8 + length payload) @ udp_header sp dp (8 + length payload) (if c = 0 then 0xFFFF else c) @ payload)"
proof -
  let ?p = "udpPseudo srcIP dstIP (8 + length payload)" and ?u = "udp_header sp dp (8 + length payload)"
  let ?n = "word_sum ?p + word_sum (?u 0) + word_sum payload" and ?c = "if c = 0 then 0xFFFF else c"
  have p: "length ?p = 12" using assms(1,2) by (simp add: udpPseudo_def)
  have small: "?n \<le> 32768 * 65558"
    using word_sum_bound[of ?p] word_sum_bound[of "?u 0"] word_sum_bound[of payload] p assms(3) by simp
  then have n: "unat (of_nat ?n :: u32) = ?n" by (subst unat_of_nat) simp
  have c: "c = onesComplementChecksum_of (of_nat ?n)"
    unfolding c_def udpChecksum_def sum_words_nat length_udp_header by (simp add: add.assoc)
  have "unat ?c < 65536" using unsigned_less[of ?c, where 'a = nat] by simp
  then have "?n + unat ?c < 2 ^ 32" using small by simp
  moreover have "?c = onesComplementChecksum_of (of_nat ?n) \<or> onesComplementChecksum_of (of_nat ?n) = 0 \<and> ?c = 0xFFFF"
    unfolding c[symmetric] by simp
  ultimately have "fold_carry (of_nat ?n + of_nat (unat ?c)) = (0xFFFF :: u32)"
    by (intro checksum_verifies[where c = ?c]) (simp_all only: n)
  moreover have "word_sum (?p @ ?u ?c @ payload) = ?n + unat ?c"
    by (simp add: word_sum_append p word_sum_udp_header[of sp dp "8 + length payload" ?c])
  ultimately show ?thesis by (simp only: checksum_ok_def sum_words_nat of_nat_add add_0)
qed

text \<open>A UDP datagram in an Ethernet frame, as its receiver reads and checks it.\<close>

definition udp_datagram :: "u8 list \<Rightarrow> mac \<Rightarrow> mac \<Rightarrow> addr \<Rightarrow> u16 \<Rightarrow> addr \<Rightarrow> u16 \<Rightarrow> u8 list \<Rightarrow> bool" where
  "udp_datagram frame dmac smac src sport dst dport payload \<longleftrightarrow>
     (\<exists>ip udp. frame = dmac @ smac @ be_bytes 2 EtherTypeIPv4 @ ip @ udp @ payload
        \<and> length dmac = 6 \<and> length smac = 6 \<and> length ip = 20 \<and> length udp = 8
        \<and> ip ! 0 = 0x45 \<and> unat (be_word (take 2 (drop 2 ip)) :: u16) = length ip + length udp + length payload \<and> ip ! 9 = 17
        \<and> addrFromBytes (take 4 (drop 12 ip)) = src \<and> addrFromBytes (take 4 (drop 16 ip)) = dst \<and> checksum_ok ip
        \<and> be_word (take 2 udp) = sport \<and> be_word (take 2 (drop 2 udp)) = dport
        \<and> unat (be_word (take 2 (drop 4 udp)) :: u16) = length udp + length payload
        \<and> (be_word (take 2 (drop 6 udp)) :: u16) \<noteq> 0
        \<and> checksum_ok (udpPseudo (take 4 (drop 12 ip)) (take 4 (drop 16 ip)) (length udp + length payload) @ udp @ payload))"

lemma ip_header_fields:
  assumes "length srcIP = 4" "length dstIP = 4"
  shows "ip_header n proto srcIP dstIP c ! 0 = 0x45" "take 2 (drop 2 (ip_header n proto srcIP dstIP c)) = be_bytes 2 (of_nat n :: u16)"
    "ip_header n proto srcIP dstIP c ! 9 = proto"
    "take 4 (drop 12 (ip_header n proto srcIP dstIP c)) = srcIP" "take 4 (drop 16 (ip_header n proto srcIP dstIP c)) = dstIP"
  using assms by (simp_all add: ip_header_def nth_append)

lemma udp_header_fields:
  "take 2 (udp_header sp dp n c) = be_bytes 2 sp" "take 2 (drop 2 (udp_header sp dp n c)) = be_bytes 2 dp"
  "take 2 (drop 4 (udp_header sp dp n c)) = be_bytes 2 (of_nat n :: u16)" "take 2 (drop 6 (udp_header sp dp n c)) = be_bytes 2 c"
  by (simp_all add: udp_header_def)

lemma addrFromBytes_As4 [simp]: "Is4 a \<Longrightarrow> addrFromBytes (As4 a) = a"
  by (simp add: addrFromBytes_def)

lemma built_response:
  assumes "fl_proto fl = 17"
  shows "case BuildUDPResponse fl payload of
      Inr frame \<Rightarrow> udp_datagram frame (fl_podMAC fl) (fl_serviceMAC fl) (fl_serviceIP fl) (fl_servicePort fl) (fl_clientIP fl) (fl_clientPort fl) payload
    | Inl e \<Rightarrow> \<not> (Is4 (fl_serviceIP fl) \<and> Is4 (fl_clientIP fl) \<and> length (fl_serviceMAC fl) = 6 \<and> length (fl_podMAC fl) = 6 \<and> length payload \<le> 65507)"
proof (cases "Is4 (fl_serviceIP fl) \<and> Is4 (fl_clientIP fl) \<and> length (fl_serviceMAC fl) = 6 \<and> length (fl_podMAC fl) = 6 \<and> length payload \<le> 65507")
  case True
  let ?src = "As4 (fl_serviceIP fl)" and ?dst = "As4 (fl_clientIP fl)" and ?n = "28 + length payload"
  let ?ip = "ip_header ?n 17 ?src ?dst (onesComplementChecksum (ip_header ?n 17 ?src ?dst 0))"
  let ?u = "udp_header (fl_servicePort fl) (fl_clientPort fl) (8 + length payload)"
  let ?c = "udpChecksum ?src ?dst (?u 0) payload" 
  let ?c' = "if ?c = 0 then 0xFFFF else ?c"
  have len: "unat (of_nat ?n :: u16) = ?n" "unat (of_nat (8 + length payload) :: u16) = 8 + length payload"
    using True by (simp_all add: unat_of_nat del: of_nat_add)
  have built: "BuildUDPResponse fl payload = Inr (fl_podMAC fl @ fl_serviceMAC fl @ be_bytes 2 EtherTypeIPv4 @ ?ip @ ?u ?c' @ payload)"
    using True assms by (simp add: BuildUDPResponse_def IPv4HeaderLen_def UDPHeaderLen_def Let_def)
  have udp: "checksum_ok (udpPseudo ?src ?dst (8 + length payload) @ ?u ?c' @ payload)" using True by (intro udp_checksum_ok) simp_all
  have ip: "checksum_ok ?ip" by (rule ip_checksum_ok) simp_all
  have c: "?c' \<noteq> 0" by simp
  show ?thesis unfolding built udp_datagram_def sum.case
    by (rule exI[of _ ?ip], rule exI[of _ "?u ?c'"], intro conjI) (simp_all only: ip_header_fields[OF length_As4 length_As4] udp_header_fields be_word_be_bytes len length_ip_header length_udp_header length_As4, simp_all add: True udp ip c len del: of_nat_add)
next
  case False
  then show ?thesis by (auto simp: BuildUDPResponse_def IPv4HeaderLen_def UDPHeaderLen_def Let_def)
qed


definition ex_flow :: flow where
  "ex_flow = \<lparr>fl_subnetID = 5, fl_vpcID = 7, fl_serviceID = 1, fl_clientIP = V4 0x0A000005, fl_clientPort = 40000, fl_serviceIP = V4 0x0A000002,
     fl_servicePort = 53, fl_proto = 17, fl_podIfindex = 12, fl_podMAC = [2, 0, 0, 0, 0, 5], fl_serviceMAC = [2, 0, 0, 0, 0, 2]\<rparr>"


section \<open>From the classifier to the handler\<close>

lemma length_put_bytes [simp]: "off + length bs \<le> length frame \<Longrightarrow> length (put_bytes off bs frame) = length frame"
  by (simp add: put_bytes_def)

lemma put_bytes_at: "off + length bs \<le> length frame \<Longrightarrow> n = length bs \<Longrightarrow> take n (drop off (put_bytes off bs frame)) = bs"
  by (simp add: put_bytes_def)

lemma put_bytes_nth:
  "off + length bs \<le> length frame \<Longrightarrow> i < length frame \<Longrightarrow>
     put_bytes off bs frame ! i = (if off \<le> i \<and> i < off + length bs then bs ! (i - off) else frame ! i)"
  by (auto simp: put_bytes_def nth_append min_def)

lemma put_bytes_before: "off + length bs \<le> length frame \<Longrightarrow> k + n \<le> off \<Longrightarrow> take n (drop k (put_bytes off bs frame)) = take n (drop k frame)"
  by (rule nth_equalityI) (auto simp: put_bytes_nth)

lemma put_bytes_after: "off + length bs \<le> length frame \<Longrightarrow> off + length bs \<le> k \<Longrightarrow> drop k (put_bytes off bs frame) = drop k frame"
  by (rule nth_equalityI) (auto simp: put_bytes_nth)

lemma drop_beyond: "drop n a = drop n b \<Longrightarrow> n \<le> k \<Longrightarrow> drop k a = drop k b"
  using drop_drop[of "k - n" n a] drop_drop[of "k - n" n b] by simp

text \<open>The replaced checksum has two bytes.\<close>

definition csum_two :: "(u8 list \<Rightarrow> u8 list \<Rightarrow> u8 list \<Rightarrow> u8 list option) \<Rightarrow> bool" where
  "csum_two csum \<longleftrightarrow> (\<forall>check old sid check'. csum check old sid = Some check' \<longrightarrow> length check' = 2)"

text \<open>What a redirected frame looked like, and the flow that is recorded for it.\<close>

lemma redirect_spec:
  assumes "handle_virtual_service csum services frame ifindex subnet_id vpc_id now = Redirect tap frame' fk fv" "34 \<le> length frame" "csum_two csum"
  defines "ihl \<equiv> unat (frame ! 14 AND 0x0F) * 4"
  shows "\<exists>vv. services \<lparr>vk_subnetID = subnet_id, vk_dstIP = fk_dstIP fk, vk_dstPort = fk_dstPort fk, vk_proto = fk_proto fk\<rparr> = Some vv
      \<and> tap = vv_tapIfindex vv
      \<and> fv = \<lparr>fv_vpcID = vpc_id, fv_serviceID = vv_serviceID vv, fv_podIfindex = ifindex,
              fv_podMAC = take 6 (drop 6 frame), fv_serviceMAC = vv_serviceMAC vv, fv_lastSeenNS = now\<rparr>"
    "fk = \<lparr>fk_subnetID = subnet_id, fk_srcIP = take 4 (drop 26 frame), fk_dstIP = take 4 (drop 30 frame),
        fk_srcPort = take 2 (drop (14 + ihl) frame), fk_dstPort = take 2 (drop (16 + ihl) frame), fk_proto = frame ! 23\<rparr>"
    "20 \<le> ihl" "frame ! 23 = 17 \<Longrightarrow> 14 + ihl + 8 \<le> length frame"
    "subnet_id \<le> 0xFFFF \<Longrightarrow> \<exists>check. length check = 2 \<and> frame' = put_bytes 18 (be_bytes 2 (ucast subnet_id :: u16)) (put_bytes 24 check frame)"
    "\<not> subnet_id \<le> 0xFFFF \<Longrightarrow> frame' = frame"
proof -
  have bytes: "drop 14 frame ! 9 = frame ! 23" "drop 14 frame ! 0 = frame ! 14" using assms(2) by simp_all
  note run = assms(1)[unfolded handle_virtual_service_def Let_def bytes drop_drop]
  show "\<exists>vv. services \<lparr>vk_subnetID = subnet_id, vk_dstIP = fk_dstIP fk, vk_dstPort = fk_dstPort fk, vk_proto = fk_proto fk\<rparr> = Some vv
      \<and> tap = vv_tapIfindex vv
      \<and> fv = \<lparr>fv_vpcID = vpc_id, fv_serviceID = vv_serviceID vv, fv_podIfindex = ifindex,
              fv_podMAC = take 6 (drop 6 frame), fv_serviceMAC = vv_serviceMAC vv, fv_lastSeenNS = now\<rparr>"
    using run by (auto split: if_splits option.splits)
  show "fk = \<lparr>fk_subnetID = subnet_id, fk_srcIP = take 4 (drop 26 frame), fk_dstIP = take 4 (drop 30 frame),
        fk_srcPort = take 2 (drop (14 + ihl) frame), fk_dstPort = take 2 (drop (16 + ihl) frame), fk_proto = frame ! 23\<rparr>"
    using run unfolding ihl_def by (auto split: if_splits option.splits simp: add.commute add.left_commute)
  show "20 \<le> ihl" using run unfolding ihl_def by (auto split: if_splits)
  show "frame ! 23 = 17 \<Longrightarrow> 14 + ihl + 8 \<le> length frame" using run unfolding ihl_def by (auto split: if_splits)
  show "\<exists>check. length check = 2 \<and> frame' = put_bytes 18 (be_bytes 2 (ucast subnet_id :: u16)) (put_bytes 24 check frame)" if "subnet_id \<le> 0xFFFF"
    using run that assms(3) unfolding csum_two_def by (auto split: if_splits option.splits) (blast+)
  show "frame' = frame" if "\<not> subnet_id \<le> 0xFFFF"
    using run that by (auto split: if_splits option.splits)
qed

text \<open>What the classifier leaves in a frame it redirects: the subnet in the identification field, and the flow as it read it.\<close>

lemma classified_frame:
  assumes "handle_virtual_service csum services frame ifindex subnet_id vpc_id now = Redirect tap frame' fk fv"
    and "34 \<le> length frame" "csum_two csum"
  shows "length frame' = length frame" "take 2 (drop 12 frame') = take 2 (drop 12 frame)"
    "frame' ! 14 = frame ! 14" "take 2 (drop 16 frame') = take 2 (drop 16 frame)" "frame' ! 23 = frame ! 23" "drop 26 frame' = drop 26 frame"
    "subnet_id \<le> 0xFFFF \<Longrightarrow> take 2 (drop 18 frame') = be_bytes 2 (ucast subnet_id :: u16)"
    "\<not> subnet_id \<le> 0xFFFF \<Longrightarrow> frame' = frame"
proof -
  have "frame' = frame \<and> \<not> subnet_id \<le> 0xFFFF \<or>
      (\<exists>check. length check = 2 \<and> subnet_id \<le> 0xFFFF \<and> frame' = put_bytes 18 (be_bytes 2 (ucast subnet_id :: u16)) (put_bytes 24 check frame))"
    using redirect_spec(5,6)[OF assms] by blast
  then consider "frame' = frame" "\<not> subnet_id \<le> 0xFFFF"
    | check where "length check = 2" "subnet_id \<le> 0xFFFF" "frame' = put_bytes 18 (be_bytes 2 (ucast subnet_id :: u16)) (put_bytes 24 check frame)"
    by blast
  note cases = this
  show "length frame' = length frame" by (cases rule: cases) (use assms(2) in auto)
  show "take 2 (drop 12 frame') = take 2 (drop 12 frame)" by (cases rule: cases) (use assms(2) in \<open>auto simp: put_bytes_before\<close>)
  show "frame' ! 14 = frame ! 14" by (cases rule: cases) (use assms(2) in \<open>auto simp: put_bytes_nth\<close>)
  show "take 2 (drop 16 frame') = take 2 (drop 16 frame)" by (cases rule: cases) (use assms(2) in \<open>auto simp: put_bytes_before\<close>)
  show "frame' ! 23 = frame ! 23" by (cases rule: cases) (use assms(2) in \<open>auto simp: put_bytes_nth\<close>)
  show "drop 26 frame' = drop 26 frame" by (cases rule: cases) (use assms(2) in \<open>auto simp: put_bytes_after\<close>)
  show "subnet_id \<le> 0xFFFF \<Longrightarrow> take 2 (drop 18 frame') = be_bytes 2 (ucast subnet_id :: u16)"
    by (cases rule: cases) (use assms(2) in \<open>auto simp: put_bytes_at\<close>)
  show "\<not> subnet_id \<le> 0xFFFF \<Longrightarrow> frame' = frame" by (cases rule: cases) auto
qed

lemma bit_byte: "n < 8 \<Longrightarrow> bit (255 :: 'a::semiring_bit_operations) n \<longleftrightarrow> possible_bit TYPE('a) n"
  using bit_mask_iff[of 8 n, where 'a = 'a] by (simp add: mask_numeral)

lemma htons_bytes: "le_bytes 2 (htons w) = be_bytes 2 w"
proof -
  have "(ucast (htons w) :: u8) = ucast (drop_bit 8 w)" "(ucast (drop_bit 8 (htons w)) :: u8) = ucast w"
    by (rule bit_word_eqI; auto simp: htons_def bit_simps bit_byte)+
  then show ?thesis by (simp add: le_bytes_def be_bytes_def upt_rec)
qed

lemma As4_addrFromBytes [simp]: "length bs = 4 \<Longrightarrow> As4 (addrFromBytes bs) = bs"
  by (simp add: addrFromBytes_def AddrFrom4_def be_bytes_be_word)

lemma flow_key_bytes:
  assumes "length sip = 4" "length dip = 4" "length sp = 2" "length dp = 2"
  shows "flow_key_of subnet (addrFromBytes sip) (addrFromBytes dip) (be_word sp) (be_word dp) proto
    = \<lparr>fk_subnetID = subnet, fk_srcIP = sip, fk_dstIP = dip, fk_srcPort = sp, fk_dstPort = dp, fk_proto = proto\<rparr>"
  using assms by (simp add: flow_key_of_def htons_bytes be_bytes_be_word)

text \<open>The flow a UDP handler is called with, from the bytes of the frame and the table.\<close>

definition frame_flow :: "u8 list \<Rightarrow> nat \<Rightarrow> flow_val \<Rightarrow> flow" where
  "frame_flow frame ihl val = \<lparr>fl_subnetID = ucast (be_word (take 2 (drop 18 frame)) :: u16), fl_vpcID = fv_vpcID val, fl_serviceID = fv_serviceID val,
     fl_clientIP = addrFromBytes (take 4 (drop 26 frame)), fl_clientPort = be_word (take 2 (drop (14 + ihl) frame)),
     fl_serviceIP = addrFromBytes (take 4 (drop 30 frame)), fl_servicePort = be_word (take 2 (drop (16 + ihl) frame)), fl_proto = 17,
     fl_podIfindex = uint (fv_podIfindex val), fl_podMAC = fv_podMAC val, fl_serviceMAC = fv_serviceMAC val\<rparr>"

lemma FlowTable_Lookup_Some:
  assumes "FlowTable_Lookup m subnet src dst sp dp proto s = (Inr (Some fl), s')"
  shows "\<exists>val. hm_lookup m (flow_key_of subnet src dst sp dp proto) s = (Inr val, s')
    \<and> fl = \<lparr>fl_subnetID = subnet, fl_vpcID = fv_vpcID val, fl_serviceID = fv_serviceID val, fl_clientIP = src, fl_clientPort = sp,
            fl_serviceIP = dst, fl_servicePort = dp, fl_proto = proto, fl_podIfindex = uint (fv_podIfindex val), fl_podMAC = fv_podMAC val,
            fl_serviceMAC = fv_serviceMAC val\<rparr>"
  using assms by (auto simp: FlowTable_Lookup_def split: if_splits prod.splits sum.splits)

lemma handleUDP_call:
  assumes "handleUDP m d subnet l4 src dst s = (CallUDP h fl payload, s')"
  shows "8 \<le> length l4" "\<exists>val. hm_lookup m (flow_key_of subnet src dst (be_word (take 2 l4)) (be_word (take 2 (drop 2 l4))) 17) s = (Inr val, s')
    \<and> fl = \<lparr>fl_subnetID = subnet, fl_vpcID = fv_vpcID val, fl_serviceID = fv_serviceID val, fl_clientIP = src, fl_clientPort = be_word (take 2 l4),
            fl_serviceIP = dst, fl_servicePort = be_word (take 2 (drop 2 l4)), fl_proto = 17, fl_podIfindex = uint (fv_podIfindex val), fl_podMAC = fv_podMAC val,
            fl_serviceMAC = fv_serviceMAC val\<rparr>"
    "map_of (ds_handlers d) \<lparr>hk_subnetID = subnet, hk_dstIP = dst, hk_dstPort = be_word (take 2 (drop 2 l4)), hk_proto = 17\<rparr> = Some h"
  using assms by (auto simp: handleUDP_def Let_def UDPHeaderLen_def split: if_splits prod.splits sum.splits option.splits dest!: FlowTable_Lookup_Some)

lemma handleTCP_no_UDP: "handleTCP m d subnet p l4 src dst s \<noteq> (CallUDP h fl payload, s')"
  by (auto simp: handleTCP_def Let_def split: prod.splits sum.splits option.splits)

lemma slice_take: "j + n \<le> length (take k ys) \<Longrightarrow> take n (drop j (take k ys)) = take n (drop j ys)"
  using min_absorb1[of n "k - j"] by (auto simp: drop_take)

lemma handleFrame_call:
  assumes "handleFrame m d frame s = (CallUDP h fl payload, s')"
  defines "ihl \<equiv> unat (frame ! 14 AND 0x0F) * 4"
  shows "frame ! 23 = 17" "\<exists>val. hm_lookup m \<lparr>fk_subnetID = ucast (be_word (take 2 (drop 18 frame)) :: u16), fk_srcIP = take 4 (drop 26 frame),
      fk_dstIP = take 4 (drop 30 frame), fk_srcPort = take 2 (drop (14 + ihl) frame), fk_dstPort = take 2 (drop (16 + ihl) frame), fk_proto = 17\<rparr> s = (Inr val, s')
      \<and> fl = frame_flow frame ihl val"
    "map_of (ds_handlers d) \<lparr>hk_subnetID = fl_subnetID fl, hk_dstIP = fl_serviceIP fl, hk_dstPort = fl_servicePort fl, hk_proto = 17\<rparr> = Some h"
proof -
  have len: "34 \<le> length frame" using assms(1) by (auto simp: handleFrame_def EthernetHeaderLen_def IPv4HeaderLen_def split: if_splits)
  then have bytes: "drop 14 frame ! 9 = frame ! 23" "drop 14 frame ! 0 = frame ! 14" by simp_all
  let ?total = "unat (be_word (take 2 (drop 16 frame)) :: u16)"
  let ?l4 = "take (?total - ihl) (drop (14 + ihl) frame)"
  have run: "frame ! 23 = 17" "handleUDP m d (ucast (be_word (take 2 (drop 18 frame)) :: u16)) ?l4
      (addrFromBytes (take 4 (drop 26 frame))) (addrFromBytes (take 4 (drop 30 frame))) s = (CallUDP h fl payload, s')"
    using assms(1) unfolding handleFrame_def Let_def EthernetHeaderLen_def IPv4HeaderLen_def bytes ihl_def
    by (auto simp: handleTCP_no_UDP bytes add.commute split: if_splits)
  show "frame ! 23 = 17" by (rule run)
  note l4 = handleUDP_call[OF run(2)]
  have cut: "take 2 ?l4 = take 2 (drop (14 + ihl) frame)" "take 2 (drop 2 ?l4) = take 2 (drop (16 + ihl) frame)"
    using l4(1) slice_take[of 0 2 "?total - ihl" "drop (14 + ihl) frame"] slice_take[of 2 2 "?total - ihl" "drop (14 + ihl) frame"]
    by (simp_all add: add.commute)
  have "length (take 2 ?l4) = 2" "length (take 2 (drop 2 ?l4)) = 2" using l4(1) unfolding length_take length_drop by linarith+
  note two = this
  have "length (take 4 (drop 26 frame)) = 4" "length (take 4 (drop 30 frame)) = 4" using len by simp_all
  note key = flow_key_bytes[OF this two]
  obtain val where val: "hm_lookup m \<lparr>fk_subnetID = ucast (be_word (take 2 (drop 18 frame)) :: u16), fk_srcIP = take 4 (drop 26 frame),
      fk_dstIP = take 4 (drop 30 frame), fk_srcPort = take 2 (drop (14 + ihl) frame), fk_dstPort = take 2 (drop (16 + ihl) frame), fk_proto = 17\<rparr> s = (Inr val, s')"
    "fl = frame_flow frame ihl val"
    using l4(2) unfolding key unfolding cut frame_flow_def by blast
  then show "\<exists>val. hm_lookup m \<lparr>fk_subnetID = ucast (be_word (take 2 (drop 18 frame)) :: u16), fk_srcIP = take 4 (drop 26 frame),
      fk_dstIP = take 4 (drop 30 frame), fk_srcPort = take 2 (drop (14 + ihl) frame), fk_dstPort = take 2 (drop (16 + ihl) frame), fk_proto = 17\<rparr> s = (Inr val, s')
      \<and> fl = frame_flow frame ihl val" by blast
  show "map_of (ds_handlers d) \<lparr>hk_subnetID = fl_subnetID fl, hk_dstIP = fl_serviceIP fl, hk_dstPort = fl_servicePort fl, hk_proto = 17\<rparr> = Some h"
    using l4(3) unfolding cut val(2) frame_flow_def by simp
qed


text \<open>
  C31. Beyond 65535 the subnet of a packet is what its sender says. The classifier does not stamp a subnet
  number that has more than 16 bits, while the allocation pool hands out 24-bit numbers: a handler that is
  then called is called for the subnet in the identification field the Pod filled in, and never for the
  Pod's own.
\<close>

theorem virtual_service_high_subnet:
  assumes "handle_virtual_service csum services frame ifindex subnet_id vpc_id now = Redirect tap frame' fk fv"
    and "34 \<le> length frame" "csum_two csum" "\<not> subnet_id \<le> 0xFFFF"
    and "handleFrame m d frame' s = (CallUDP h fl payload, s')"
  shows "fl_subnetID fl = ucast (be_word (take 2 (drop 18 frame)) :: u16) \<and> fl_subnetID fl \<noteq> subnet_id"
proof -
  have frame: "frame' = frame" using classified_frame(8)[OF assms(1-3)] assms(4) by blast
  obtain ihl val where "fl = frame_flow frame' ihl val" using handleFrame_call(2)[OF assms(5)] by blast
  then have id: "fl_subnetID fl = ucast (be_word (take 2 (drop 18 frame)) :: u16)" by (simp add: frame_flow_def frame)
  have "unat (ucast (w :: u16) :: u32) \<le> 65535" for w
    using unsigned_less[of w, where 'a = nat] by (simp add: unsigned_ucast_eq take_bit_nat_eq_self_iff[THEN iffD2] less_Suc_eq_le[symmetric])
  then have "fl_subnetID fl \<noteq> subnet_id" using id assms(4) by (auto simp: word_le_nat_alt)
  then show ?thesis using id by simp
qed

lemma handleFrame_runs:
  assumes "34 \<le> length frame" "(be_word (take 2 (drop 12 frame)) :: u16) = EtherTypeIPv4" "frame ! 23 = 17"
  defines "ihl \<equiv> unat (frame ! 14 AND 0x0F) * 4" and "tlen \<equiv> unat (be_word (take 2 (drop 16 frame)) :: u16)"
    and "udpLen \<equiv> unat (be_word (take 2 (drop (18 + unat (frame ! 14 AND 0x0F) * 4) frame)) :: u16)"
  assumes "20 \<le> ihl" "14 + tlen \<le> length frame" "8 \<le> udpLen" "ihl + udpLen \<le> tlen"
    and "hm_lookup m \<lparr>fk_subnetID = ucast (be_word (take 2 (drop 18 frame)) :: u16), fk_srcIP = take 4 (drop 26 frame), fk_dstIP = take 4 (drop 30 frame),
           fk_srcPort = take 2 (drop (14 + ihl) frame), fk_dstPort = take 2 (drop (16 + ihl) frame), fk_proto = 17\<rparr> s = (Inr val, s')"
    and "map_of (ds_handlers d) \<lparr>hk_subnetID = ucast (be_word (take 2 (drop 18 frame)) :: u16), hk_dstIP = addrFromBytes (take 4 (drop 30 frame)),
           hk_dstPort = be_word (take 2 (drop (16 + ihl) frame)), hk_proto = 17\<rparr> = Some h"
  shows "handleFrame m d frame s = (CallUDP h (frame_flow frame ihl val) (take (udpLen - 8) (drop (22 + ihl) frame)), s')"
proof -
  let ?l4 = "take (tlen - ihl) (drop (14 + ihl) frame)"
  have bytes: "drop 14 frame ! 9 = frame ! 23" "drop 14 frame ! 0 = frame ! 14" using assms(1) by simp_all
  have len: "length ?l4 = tlen - ihl" "udpLen \<le> length ?l4" "8 \<le> length ?l4" using assms(7-10) by simp_all
  have cut: "take 2 ?l4 = take 2 (drop (14 + ihl) frame)" "take 2 (drop 2 ?l4) = take 2 (drop (16 + ihl) frame)" "take 2 (drop 4 ?l4) = take 2 (drop (18 + ihl) frame)"
    "take (udpLen - 8) (drop 8 ?l4) = take (udpLen - 8) (drop (22 + ihl) frame)"
    using len slice_take[of 0 2 "tlen - ihl" "drop (14 + ihl) frame"] slice_take[of 2 2 "tlen - ihl" "drop (14 + ihl) frame"]
      slice_take[of 4 2 "tlen - ihl" "drop (14 + ihl) frame"] slice_take[of 8 "udpLen - 8" "tlen - ihl" "drop (14 + ihl) frame"]
    by (simp_all add: add.commute)
  have two: "length (take 2 ?l4) = 2" "length (take 2 (drop 2 ?l4)) = 2" using len by simp_all
  have four: "length (take 4 (drop 26 frame)) = 4" "length (take 4 (drop 30 frame)) = 4" using assms(1) by simp_all
  then have v4: "Is4 (addrFromBytes (take 4 (drop 26 frame)))" "Is4 (addrFromBytes (take 4 (drop 30 frame)))"
    by (simp_all add: addrFromBytes_def AddrFrom4_def)
  have flow: "FlowTable_Lookup m (ucast (be_word (take 2 (drop 18 frame)) :: u16)) (addrFromBytes (take 4 (drop 26 frame))) (addrFromBytes (take 4 (drop 30 frame)))
      (be_word (take 2 ?l4)) (be_word (take 2 (drop 2 ?l4))) 17 s = (Inr (Some (frame_flow frame ihl val)), s')"
    unfolding FlowTable_Lookup_def flow_key_bytes[OF four two] unfolding cut(1,2) using v4 assms(11) by (simp add: frame_flow_def)
  have ulen: "unat (be_word (take 2 (drop 4 ?l4)) :: u16) = udpLen" unfolding cut(3) by (simp only: udpLen_def ihl_def)
  have udp: "handleUDP m d (ucast (be_word (take 2 (drop 18 frame)) :: u16)) ?l4 (addrFromBytes (take 4 (drop 26 frame))) (addrFromBytes (take 4 (drop 30 frame))) s
      = (CallUDP h (frame_flow frame ihl val) (take (udpLen - 8) (drop (22 + ihl) frame)), s')"
    unfolding handleUDP_def Let_def UDPHeaderLen_def flow ulen cut(4) using len assms(9,12) cut(2) by simp
  have "\<not> length frame < EthernetHeaderLen + IPv4HeaderLen" "\<not> (ihl < IPv4HeaderLen \<or> ihl > length (drop EthernetHeaderLen frame))"
    "\<not> (tlen < ihl \<or> tlen > length (drop EthernetHeaderLen frame))"
    using assms(1,7-10) by (simp_all add: EthernetHeaderLen_def IPv4HeaderLen_def)
  then show ?thesis using udp assms(2,3) unfolding handleFrame_def Let_def ihl_def tlen_def
    by (simp add: EthernetHeaderLen_def bytes add.commute)
qed

end
