(* ===== verification/SvcPolicy.thy ===== *)
theory SvcPolicy
  imports GoStrings
begin

text \<open>
  Which Vpc may reach which Service (\<open>svcpolicy/policy.go\<close>), how a Service picks its backends
  (\<open>svcpolicy/selection.go\<close>), and the two switches of a Vpc the policy reads (\<open>vpc_types.go\<close>). A pointer to a
  Service that may be nil is an option.
\<close>

section \<open>Services and Vpcs\<close>

record service =
  sv_annotations :: "(string, string) gomap"
  sv_type :: string
  sv_clusterIP :: string
  sv_clusterIPs :: "string list"
  sv_externalName :: string
  sv_internalTrafficPolicy :: "string option"
  sv_sessionAffinity :: string
  sv_timeoutSeconds :: "int option"

text \<open>\<open>sv_timeoutSeconds\<close> is there when the whole path to it in the Service is.\<close>

record vpc_service_spec =
  vs_consume :: bool
  vs_provider :: "string option"

definition IsProvider :: "vpc_service_spec option \<Rightarrow> bool" where
  "IsProvider s \<longleftrightarrow> (case s of None \<Rightarrow> False | Some sp \<Rightarrow> (case vs_provider sp of None \<Rightarrow> False | Some subnet \<Rightarrow> subnet \<noteq> []))"

definition Consumes :: "vpc_service_spec option \<Rightarrow> bool" where
  "Consumes s \<longleftrightarrow> (case s of None \<Rightarrow> False | Some sp \<Rightarrow> vs_consume sp)"

definition ServiceEnabled :: "vpc_service_spec option \<Rightarrow> bool" where
  "ServiceEnabled s \<longleftrightarrow> (case s of None \<Rightarrow> False | Some sp \<Rightarrow> vs_consume sp \<or> IsProvider s)"

section \<open>Reachability (policy.go)\<close>

definition AnnotationVpc :: string where "AnnotationVpc = ''juneau.loutres.me/vpc''"
definition AnnotationShared :: string where "AnnotationShared = ''juneau.loutres.me/shared-service''"
definition AnnotationAllowedConsumerVpcs :: string where
  "AnnotationAllowedConsumerVpcs = ''juneau.loutres.me/shared-service-allowed-consumer-vpcs''"
definition DefaultVpc :: string where "DefaultVpc = ''default''"

definition OwningVpc :: "service option \<Rightarrow> string" where
  "OwningVpc svc = (case svc of
     None \<Rightarrow> DefaultVpc
   | Some s \<Rightarrow> (case map_of (sv_annotations s) AnnotationVpc of
       Some v \<Rightarrow> if v \<noteq> [] then v else DefaultVpc
     | None \<Rightarrow> DefaultVpc))"

definition IsShared :: "service option \<Rightarrow> bool" where
  "IsShared svc \<longleftrightarrow> (case svc of None \<Rightarrow> False | Some s \<Rightarrow> map_of (sv_annotations s) AnnotationShared = Some ''true'')"

definition AllowedConsumerVpcs :: "service option \<Rightarrow> string list" where
  "AllowedConsumerVpcs svc = (case svc of
     None \<Rightarrow> []
   | Some s \<Rightarrow> (case map_of (sv_annotations s) AnnotationAllowedConsumerVpcs of
       None \<Rightarrow> []
     | Some raw \<Rightarrow> filter (\<lambda>p. p \<noteq> []) (map trim_space (split_on CHR '','' raw))))"

definition HasConsumerACL :: "service option \<Rightarrow> bool" where
  "HasConsumerACL svc \<longleftrightarrow> length (AllowedConsumerVpcs svc) > 0"

definition IsAllowedConsumer :: "service option \<Rightarrow> string \<Rightarrow> bool" where
  "IsAllowedConsumer svc callerVpc =
     (let allowed = AllowedConsumerVpcs svc
      in if allowed = [] then True else list_ex (\<lambda>v. v = callerVpc) allowed)"

record caller_vpc =
  cv_name :: string
  cv_serviceEnabled :: bool
  cv_consume :: bool

definition ResolvableFrom :: "service option \<Rightarrow> caller_vpc \<Rightarrow> bool" where
  "ResolvableFrom svc caller =
     (if svc = None then False
      else if \<not> cv_serviceEnabled caller then False
      else if OwningVpc svc = cv_name caller then True
      else if \<not> cv_consume caller then False
      else if \<not> IsShared svc then False
      else IsAllowedConsumer svc (cv_name caller))"

section \<open>Backend selection (selection.go)\<close>

datatype affinity_mode = AffinityNone | AffinityClientIP

record affinity_policy =
  ap_mode :: affinity_mode
  ap_timeout :: int

record backend_selection =
  bs_internalLocal :: bool
  bs_affinity :: affinity_policy

text \<open>Durations in nanoseconds; a timeout is an \<open>int32\<close>, so the product does not overflow.\<close>

definition DefaultClientIPAffinityTimeout :: int where "DefaultClientIPAffinityTimeout = 3 * 3600 * 1000000000"

definition affinityPolicyOf :: "service \<Rightarrow> affinity_policy" where
  "affinityPolicyOf s =
     (if sv_sessionAffinity s \<noteq> ''ClientIP'' then \<lparr>ap_mode = AffinityNone, ap_timeout = 0\<rparr>
      else \<lparr>ap_mode = AffinityClientIP,
            ap_timeout = (case sv_timeoutSeconds s of
               Some t \<Rightarrow> if t > 0 then t * 1000000000 else DefaultClientIPAffinityTimeout
             | None \<Rightarrow> DefaultClientIPAffinityTimeout)\<rparr>)"

definition SelectionPolicyOf :: "service option \<Rightarrow> backend_selection" where
  "SelectionPolicyOf svc = (case svc of
     None \<Rightarrow> \<lparr>bs_internalLocal = False, bs_affinity = \<lparr>ap_mode = AffinityNone, ap_timeout = 0\<rparr>\<rparr>
   | Some s \<Rightarrow> \<lparr>bs_internalLocal = (sv_internalTrafficPolicy s = Some ''Local''), bs_affinity = affinityPolicyOf s\<rparr>)"

definition IsClusterInternal :: "backend_selection \<Rightarrow> bool" where
  "IsClusterInternal p \<longleftrightarrow> \<not> bs_internalLocal p"

section \<open>What the policy lets through\<close>

text \<open>Every sticky Service has a positive timeout, as the data plane requires of the policy it is given.\<close>

lemma affinity_timeout_positive:
  "ap_mode (bs_affinity (SelectionPolicyOf svc)) = AffinityClientIP \<longrightarrow> ap_timeout (bs_affinity (SelectionPolicyOf svc)) > 0"
  by (auto simp: SelectionPolicyOf_def affinityPolicyOf_def DefaultClientIPAffinityTimeout_def split: option.splits)

lemma trim_blank: "list_all is_space s \<Longrightarrow> trim_space s = []"
proof -
  assume "list_all is_space s"
  then have nil: "dropWhile is_space s = []" by (simp add: list_all_iff)
  show ?thesis unfolding trim_space_def nil by simp
qed

lemma split_blank: "list_all (\<lambda>c. is_space c \<or> c = sep) raw \<Longrightarrow> \<forall>p \<in> set (split_on sep raw). list_all is_space p"
  by (induction raw) (auto split: list.splits)

text \<open>
  C40. A consumer list that names nobody lets everybody in: when the annotation is there but holds only
  commas and spaces, a shared Service is reachable from every Vpc that consumes Services.
\<close>

theorem blank_consumer_list_open:
  assumes "map_of (sv_annotations s) AnnotationAllowedConsumerVpcs = Some raw"
    and "list_all (\<lambda>c. is_space c \<or> c = CHR '','') raw"
    and "IsShared (Some s)" "cv_serviceEnabled caller" "cv_consume caller"
  shows "ResolvableFrom (Some s) caller"
proof -
  have "AllowedConsumerVpcs (Some s) = []"
    using split_blank[OF assms(2)] by (auto simp: AllowedConsumerVpcs_def assms(1) filter_empty_conv trim_blank)
  then show ?thesis using assms(3-5) by (simp add: ResolvableFrom_def IsAllowedConsumer_def)
qed

theorem blank_consumer_list_open_witness:
  "ResolvableFrom (Some \<lparr>sv_annotations = [(AnnotationAllowedConsumerVpcs, '' , ''), (AnnotationShared, ''true''), (AnnotationVpc, ''prod'')],
     sv_type = [], sv_clusterIP = [], sv_clusterIPs = [], sv_externalName = [], sv_internalTrafficPolicy = None,
     sv_sessionAffinity = [], sv_timeoutSeconds = None\<rparr>) \<lparr>cv_name = ''other'', cv_serviceEnabled = True, cv_consume = True\<rparr>"
  by (rule blank_consumer_list_open[where raw = "'' , ''"])
    (simp_all add: is_space_def IsShared_def AnnotationAllowedConsumerVpcs_def AnnotationShared_def)

end
