(* ===== verification/DnsZones.thy ===== *)
theory DnsZones
  imports SvcPolicy Netip
begin

text \<open>
  The resolvers of the virtual DNS service (\<open>virtservice/dns\<close>: \<open>types.go\<close>, \<open>chain.go\<close>, \<open>zone.go\<close>,
  \<open>custom_zone.go\<close>, \<open>vpc_resolver.go\<close>). The Kubernetes cache is a parameter: a read of it is a function, and
  an indexed list returns what its index function selects, which is what the client documents. The order in
  which addresses are returned is shuffled by the swaps of the function the zone is given, as
  \<open>rand.Shuffle\<close> calls them.
\<close>

section \<open>Queries and responses (types.go)\<close>

definition ClassINET :: u16 where "ClassINET = 1"
definition TypeA :: u16 where "TypeA = 1"
definition TypeAAAA :: u16 where "TypeAAAA = 28"
definition TypeCNAME :: u16 where "TypeCNAME = 5"
definition TypePTR :: u16 where "TypePTR = 12"

record query =
  q_name :: string
  q_type :: u16
  q_class :: u16
  q_callerVPC :: string
  q_callerServiceEnabled :: bool
  q_callerConsume :: bool
  q_callerIP :: addr

record answer =
  an_name :: string
  an_type :: u16
  an_class :: u16
  an_ttl :: u32
  an_a :: addr
  an_cname :: string
  an_ptr :: string

definition RCodeNoError :: u16 where "RCodeNoError = 0"
definition RCodeFormErr :: u16 where "RCodeFormErr = 1"
definition RCodeServerFailure :: u16 where "RCodeServerFailure = 2"
definition RCodeNXDomain :: u16 where "RCodeNXDomain = 3"
definition RCodeNotImplemented :: u16 where "RCodeNotImplemented = 4"
definition RCodeRefused :: u16 where "RCodeRefused = 5"

record response =
  rs_rcode :: u16
  rs_answers :: "answer list"
  rs_authoritative :: bool

definition resp :: "u16 \<Rightarrow> bool \<Rightarrow> response" where
  "resp rcode auth = \<lparr>rs_rcode = rcode, rs_answers = [], rs_authoritative = auth\<rparr>"

datatype dns_error = ErrNotInZone | EmptyChain | ClientError string

text \<open>\<open>Resolver\<close>: the response, and the error next to it.\<close>

type_synonym resolver = "query \<Rightarrow> response \<times> dns_error option"

definition DefaultClusterDomain :: string where "DefaultClusterDomain = ''cluster.local.''"

section \<open>The chain (chain.go)\<close>

definition NewChain :: "resolver option list \<Rightarrow> resolver list" where
  "NewChain rs = List.map_filter (\<lambda>r. r) rs"

fun chain_walk :: "resolver list \<Rightarrow> query \<Rightarrow> response \<times> dns_error option" where
  "chain_walk [] q = (resp RCodeRefused False, None)"
| "chain_walk (r # rs) q =
     (case r q of (rsp, err) \<Rightarrow>
        if err = Some ErrNotInZone then chain_walk rs q else (rsp, err))"

definition Chain_Resolve :: "resolver list \<Rightarrow> resolver" where
  "Chain_Resolve resolvers q =
     (if resolvers = [] then (resp RCodeServerFailure False, Some EmptyChain) else chain_walk resolvers q)"

section \<open>Services (zone.go)\<close>

text \<open>Reading one Service by namespace and name.\<close>

datatype get_result = Found service | NotFoundErr | GetFailed string

type_synonym get_service = "string \<Rightarrow> string \<Rightarrow> get_result"

record cluster_zone =
  cz_suffix :: string
  cz_defaultTTL :: u32

definition NewClusterZone :: "string \<Rightarrow> u32 \<Rightarrow> cluster_zone" where
  "NewClusterZone suffix ttl =
     (let suffix = (if suffix = [] then DefaultClusterDomain else suffix);
          suffix = (if has_suffix suffix ''.'' then suffix else suffix @ ''.'')
      in \<lparr>cz_suffix = to_lower suffix, cz_defaultTTL = (if ttl = 0 then 30 else ttl)\<rparr>)"

definition normaliseFQDN :: "string \<Rightarrow> string" where
  "normaliseFQDN name0 =
     (let name = trim_space name0
      in if name = [] then []
         else let name = (if has_suffix name ''.'' then name else name @ ''.'')
              in if length (filter (\<lambda>c. c = CHR ''.'') name) < 2 then [] else name)"

definition externalNameResponse :: "query \<Rightarrow> string \<Rightarrow> u32 \<Rightarrow> response \<times> dns_error option" where
  "externalNameResponse q externalName ttl =
     (let target = normaliseFQDN externalName
      in if target = [] then (resp RCodeNXDomain True, None)
         else if q_type q \<noteq> TypeA \<and> q_type q \<noteq> TypeAAAA then (resp RCodeNXDomain True, None)
         else (\<lparr>rs_rcode = RCodeNoError,
                rs_answers = [\<lparr>an_name = q_name q, an_type = TypeCNAME, an_class = ClassINET, an_ttl = ttl, an_a = AddrZero,
                               an_cname = target, an_ptr = []\<rparr>],
                rs_authoritative = True\<rparr>, None))"

definition serviceClusterIPs :: "service \<Rightarrow> string list" where
  "serviceClusterIPs svc =
     (if sv_clusterIPs svc \<noteq> [] then sv_clusterIPs svc else if sv_clusterIP svc \<noteq> [] then [sv_clusterIP svc] else [])"

definition a_answer :: "query \<Rightarrow> u32 \<Rightarrow> addr \<Rightarrow> answer" where
  "a_answer q ttl a = \<lparr>an_name = q_name q, an_type = TypeA, an_class = ClassINET, an_ttl = ttl, an_a = a, an_cname = [], an_ptr = []\<rparr>"

definition v4_answers :: "query \<Rightarrow> u32 \<Rightarrow> string list \<Rightarrow> answer list" where
  "v4_answers q ttl ips = List.map_filter (\<lambda>s. case ParseAddr s of
     Some a \<Rightarrow> if Is4 a then Some (a_answer q ttl a) else None | None \<Rightarrow> None) ips"

definition ClusterZone_Resolve :: "cluster_zone \<Rightarrow> get_service \<Rightarrow> resolver" where
  "ClusterZone_Resolve z get q =
     (let name = to_lower (q_name q)
      in if name \<noteq> cz_suffix z \<and> \<not> has_suffix name (''.'' @ cz_suffix z) then (resp 0 False, Some ErrNotInZone)
         else let labels = split_on CHR ''.'' (trim_suffix (trim_suffix name (cz_suffix z)) ''.'')
           in if length labels \<noteq> 3 \<or> labels ! 2 \<noteq> ''svc'' then (resp RCodeNXDomain True, None)
              else if q_class q \<noteq> ClassINET then (resp RCodeNotImplemented True, None)
              else if q_type q \<noteq> TypeA \<and> q_type q \<noteq> TypeAAAA then (resp RCodeNXDomain True, None)
              else case get (labels ! 1) (labels ! 0) of
                NotFoundErr \<Rightarrow> (resp RCodeNXDomain True, None)
              | GetFailed e \<Rightarrow> (resp 0 False, Some (ClientError e))
              | Found svc \<Rightarrow>
                  if \<not> ResolvableFrom (Some svc) \<lparr>cv_name = q_callerVPC q, cv_serviceEnabled = q_callerServiceEnabled q, cv_consume = q_callerConsume q\<rparr>
                  then (resp RCodeNXDomain True, None)
                  else if sv_type svc = ''ExternalName'' then externalNameResponse q (sv_externalName svc) (cz_defaultTTL z)
                  else if sv_clusterIP svc = [] \<or> sv_clusterIP svc = ''None'' then (resp RCodeNoError True, None)
                  else if q_type q = TypeAAAA then (resp RCodeNoError True, None)
                  else (\<lparr>rs_rcode = RCodeNoError, rs_answers = v4_answers q (cz_defaultTTL z) (serviceClusterIPs svc), rs_authoritative = True\<rparr>, None))"

section \<open>Private zones (custom\_zone.go)\<close>

record condition =
  cn_type :: string
  cn_status :: string
  cn_observedGeneration :: int

record dns_zone =
  dz_name :: string
  dz_vpc :: string
  dz_domain :: string
  dz_generation :: int
  dz_observedGeneration :: int
  dz_conditions :: "condition list"
  dz_deleting :: bool

record dns_record =
  dr_zone :: string
  dr_name :: string
  dr_type :: string
  dr_ttl :: "int option"
  dr_addresses :: "string list"
  dr_generation :: int
  dr_observedGeneration :: int
  dr_conditions :: "condition list"
  dr_deleting :: bool

definition minimumCustomRecordTTL :: int where "minimumCustomRecordTTL = 1"
definition maximumCustomRecordTTL :: int where "maximumCustomRecordTTL = 86400"
definition maximumCustomAddresses :: nat where "maximumCustomAddresses = 100"

definition customDNSIndexKey :: "string \<Rightarrow> string \<Rightarrow> string" where
  "customDNSIndexKey first second = itoa (length first) @ '':'' @ first @ second"

definition zone_index :: "dns_zone \<Rightarrow> string list" where
  "zone_index zone = [customDNSIndexKey (dz_vpc zone) (dz_domain zone)]"

definition record_index :: "dns_record \<Rightarrow> string list" where
  "record_index record = [customDNSIndexKey (dr_zone record) (dr_name record)]"

text \<open>The cache as the client serves it: the zones and records it holds, or a failed read.\<close>

record dns_cache =
  dc_zones :: "string \<Rightarrow> string + dns_zone list"
  dc_records :: "string \<Rightarrow> string + dns_record list"

definition customDomainCandidates :: "string \<Rightarrow> string list" where
  "customDomainCandidates queryName =
     (let name = trim_suffix queryName ''.''
      in if name = [] then []
         else let labels = split_on CHR ''.'' name
              in map (\<lambda>i. join_with ''.'' (drop i labels)) [0..<length labels])"

definition relativeRecordName :: "string \<Rightarrow> string \<Rightarrow> string" where
  "relativeRecordName queryName domain =
     (let fqdn = domain @ ''.''
      in if queryName = fqdn then ''@'' else trim_suffix (trim_suffix queryName fqdn) ''.'')"

fun ready_count :: "int \<Rightarrow> string \<Rightarrow> condition list \<Rightarrow> nat option" where
  "ready_count generation readyType [] = Some 0"
| "ready_count generation readyType (c # cs) =
     (if cn_type c \<noteq> readyType then ready_count generation readyType cs
      else if cn_status c \<noteq> ''True'' \<or> cn_observedGeneration c \<noteq> generation then None
      else map_option Suc (ready_count generation readyType cs))"

definition servableResource :: "int \<Rightarrow> int \<Rightarrow> condition list \<Rightarrow> string \<Rightarrow> bool \<Rightarrow> bool" where
  "servableResource generation observedGeneration conditions readyType deleting =
     (if deleting then False
      else if observedGeneration \<noteq> generation then False
      else ready_count generation readyType conditions = Some 1)"

fun project_addresses :: "addr list \<Rightarrow> string list \<Rightarrow> addr list option" where
  "project_addresses seen [] = Some []"
| "project_addresses seen (s # ss) =
     (case ParseAddr s of
        None \<Rightarrow> None
      | Some a \<Rightarrow>
          if \<not> Is4 a then None
          else if a \<in> set seen then None
          else map_option (Cons a) (project_addresses (a # seen) ss))"

definition projectedRecordData :: "dns_record \<Rightarrow> (addr list \<times> u32) option" where
  "projectedRecordData record =
     (if dr_type record \<noteq> ''A'' then None
      else case dr_ttl record of
        None \<Rightarrow> None
      | Some ttl \<Rightarrow>
          if ttl < minimumCustomRecordTTL \<or> ttl > maximumCustomRecordTTL \<or> length (dr_addresses record) > maximumCustomAddresses then None
          else map_option (\<lambda>as. (as, word_of_int ttl)) (project_addresses [] (dr_addresses record)))"

definition customServerFailure :: response where
  "customServerFailure = resp RCodeServerFailure True"

text \<open>The zone, a conflict, or none.\<close>

fun lookup_candidates :: "dns_cache \<Rightarrow> string \<Rightarrow> string list \<Rightarrow> string + (dns_zone option \<times> bool)" where
  "lookup_candidates cache callerVPC [] = Inr (None, False)"
| "lookup_candidates cache callerVPC (domain # domains) =
     (case dc_zones cache (customDNSIndexKey callerVPC domain) of
        Inl e \<Rightarrow> Inl e
      | Inr zones \<Rightarrow>
          if length zones > 1 then Inr (None, True)
          else if length zones = 1 then Inr (Some (hd zones), False)
          else lookup_candidates cache callerVPC domains)"

definition lookupZone :: "dns_cache \<Rightarrow> string \<Rightarrow> string \<Rightarrow> string + (dns_zone option \<times> bool)" where
  "lookupZone cache callerVPC queryName = lookup_candidates cache callerVPC (customDomainCandidates queryName)"

text \<open>
  The function a zone shuffles with calls the swap it is given on pairs of positions. \<open>rand.Shuffle\<close> goes
  down from the last position and swaps it with a position drawn from those not above it.
\<close>

type_synonym shuffler = "nat \<Rightarrow> (nat \<times> nat) list"

fun apply_swaps :: "(nat \<times> nat) list \<Rightarrow> 'a list \<Rightarrow> 'a list" where
  "apply_swaps [] xs = xs"
| "apply_swaps ((i, j) # sw) xs = apply_swaps sw (xs[i := xs ! j, j := xs ! i])"

definition rand_shuffle :: "(nat \<Rightarrow> nat) \<Rightarrow> shuffler" where
  "rand_shuffle draw n = map (\<lambda>i. (i, draw i mod Suc i)) (rev [1..<n])"

definition CustomZone_Resolve :: "dns_cache \<Rightarrow> shuffler \<Rightarrow> resolver" where
  "CustomZone_Resolve cache shuffle q =
     (case lookupZone cache (q_callerVPC q) (q_name q) of
        Inl e \<Rightarrow> (resp RCodeServerFailure False, Some (ClientError e))
      | Inr (zone, conflict) \<Rightarrow>
          if conflict then (customServerFailure, None)
          else case zone of
            None \<Rightarrow> (resp 0 False, Some ErrNotInZone)
          | Some z \<Rightarrow>
              if \<not> servableResource (dz_generation z) (dz_observedGeneration z) (dz_conditions z) ''Ready'' (dz_deleting z)
              then (customServerFailure, None)
              else case dc_records cache (customDNSIndexKey (dz_name z) (relativeRecordName (q_name q) (dz_domain z))) of
                Inl e \<Rightarrow> (resp RCodeServerFailure False, Some (ClientError e))
              | Inr records \<Rightarrow>
                  if length records > 1 then (customServerFailure, None)
                  else if records = [] then (resp RCodeNXDomain True, None)
                  else let r = hd records
                    in if \<not> servableResource (dr_generation r) (dr_observedGeneration r) (dr_conditions r) ''Ready'' (dr_deleting r)
                       then (customServerFailure, None)
                       else case projectedRecordData r of
                         None \<Rightarrow> (customServerFailure, None)
                       | Some (addresses, ttl) \<Rightarrow>
                           if q_class q \<noteq> ClassINET then (resp RCodeNotImplemented True, None)
                           else if q_type q \<noteq> TypeA \<or> addresses = [] then (resp RCodeNoError True, None)
                           else (\<lparr>rs_rcode = RCodeNoError, rs_answers = apply_swaps (shuffle (length addresses)) (map (a_answer q ttl) addresses), rs_authoritative = True\<rparr>, None))"

section \<open>The caller's Vpc (vpc\_resolver.go)\<close>

record vpc_view =
  vv_name :: string
  vv_vpcID :: u32
  vv_service :: "vpc_service_spec option"

definition vpcIDIndexKey :: "u32 \<Rightarrow> string" where
  "vpcIDIndexKey vpcID = itoa (unat vpcID)"

definition vpcIDIndexValues :: "vpc_view \<Rightarrow> string list" where
  "vpcIDIndexValues v = (if vv_vpcID v = 0 then [] else [vpcIDIndexKey (vv_vpcID v)])"

definition LookupByID :: "(string \<Rightarrow> string + vpc_view list) \<Rightarrow> u32 \<Rightarrow> string \<times> bool \<times> bool \<times> bool" where
  "LookupByID list_vpcs vpcID =
     (if vpcID = 0 then ([], False, False, False)
      else case list_vpcs (vpcIDIndexKey vpcID) of
        Inl _ \<Rightarrow> ([], False, False, False)
      | Inr items \<Rightarrow>
          if length items \<noteq> 1 then ([], False, False, False)
          else let v = hd items in (vv_name v, ServiceEnabled (vv_service v), Consumes (vv_service v), True))"

section \<open>Index keys\<close>

lemma index_inject [simp]: "customDNSIndexKey a b = customDNSIndexKey c d \<longleftrightarrow> a = c \<and> b = d"
proof
  assume eq: "customDNSIndexKey a b = customDNSIndexKey c d"
  have cut: "takeWhile (\<lambda>x. x \<noteq> CHR '':'') (itoa n @ CHR '':'' # r) = itoa n" for n r
    using itoa_digits[of n] by (subst takeWhile_append2) (auto simp: is_digit_def list_all_iff)
  have "itoa (length a) = itoa (length c)"
    using arg_cong[OF eq, of "takeWhile (\<lambda>x. x \<noteq> CHR '':'')"] by (simp add: customDNSIndexKey_def cut)
  then have "length a = length c" by simp
  then show "a = c \<and> b = d" using eq by (simp add: customDNSIndexKey_def)
qed simp

text \<open>
  The index keys of zones and records do not collide: two keys are equal only when both parts are,
  whatever characters the names hold.
\<close>

theorem customDNSIndexKey_injective:
  "customDNSIndexKey a b = customDNSIndexKey c d \<longleftrightarrow> a = c \<and> b = d"
  by (rule index_inject)

section \<open>The longest zone wins\<close>

text \<open>What the client documents of an indexed list over a cache: the objects one of whose index values is the key.\<close>

definition cache_of :: "(string \<Rightarrow> string option) \<Rightarrow> (string \<Rightarrow> string option) \<Rightarrow> dns_zone list \<Rightarrow> dns_record list \<Rightarrow> dns_cache" where
  "cache_of fz fr zones records = \<lparr>
     dc_zones = (\<lambda>k. case fz k of Some e \<Rightarrow> Inl e | None \<Rightarrow> Inr (filter (\<lambda>z. k \<in> set (zone_index z)) zones)),
     dc_records = (\<lambda>k. case fr k of Some e \<Rightarrow> Inl e | None \<Rightarrow> Inr (filter (\<lambda>r. k \<in> set (record_index r)) records))\<rparr>"

lemma cache_zones: "dc_zones (cache_of fz fr zones records) (customDNSIndexKey vpc domain) =
    (case fz (customDNSIndexKey vpc domain) of Some e \<Rightarrow> Inl e | None \<Rightarrow> Inr (filter (\<lambda>z. vpc = dz_vpc z \<and> domain = dz_domain z) zones))"
  by (simp add: cache_of_def zone_index_def cong: option.case_cong)

lemma cache_records: "dc_records (cache_of fz fr zones records) (customDNSIndexKey zone name) =
    (case fr (customDNSIndexKey zone name) of Some e \<Rightarrow> Inl e | None \<Rightarrow> Inr (filter (\<lambda>r. zone = dr_zone r \<and> name = dr_name r) records))"
  by (simp add: cache_of_def record_index_def cong: option.case_cong)

text \<open>A domain a name lies in: the name itself, or what follows one of its dots.\<close>

definition under :: "string \<Rightarrow> string \<Rightarrow> bool" where
  "under name domain \<longleftrightarrow> name = domain \<or> has_suffix name (''.'' @ domain)"

lemma candidates_under:
  assumes "trim_suffix queryName ''.'' \<noteq> []"
  shows "domain \<in> set (customDomainCandidates queryName) \<longleftrightarrow> under (trim_suffix queryName ''.'') domain"
proof -
  let ?n = "trim_suffix queryName ''.''" and ?dot = "CHR ''.''"
  have mem: "domain \<in> set (customDomainCandidates queryName) \<longleftrightarrow>
      (\<exists>i < length (split_on ?dot ?n). domain = join_with ''.'' (drop i (split_on ?dot ?n)))"
    using assms by (auto simp: customDomainCandidates_def Let_def)
  show ?thesis
  proof
    assume "domain \<in> set (customDomainCandidates queryName)"
    then obtain i where i: "i < length (split_on ?dot ?n)" "domain = join_with ''.'' (drop i (split_on ?dot ?n))" using mem by blast
    have n: "?n = join_with ''.'' (take i (split_on ?dot ?n) @ drop i (split_on ?dot ?n))" by (simp add: join_split)
    show "under ?n domain"
    proof (cases "i = 0")
      case True
      then show ?thesis using i(2) by (simp add: under_def join_split)
    next
      case False
      then have "?n = join_with ''.'' (take i (split_on ?dot ?n)) @ ''.'' @ domain"
        using n i by (subst n, subst join_append) (auto simp: i(2))
      then show ?thesis unfolding under_def has_suffix_iff by blast
    qed
  next
    assume "under ?n domain"
    then consider "?n = domain" | p where "?n = p @ ''.'' @ domain" by (auto simp: under_def has_suffix_iff)
    then show "domain \<in> set (customDomainCandidates queryName)"
    proof cases
      case 1
      then show ?thesis unfolding mem by (intro exI[of _ 0]) (simp add: join_split split_on_not_Nil)
    next
      case (2 p)
      then have "split_on ?dot ?n = split_on ?dot p @ split_on ?dot domain" by (simp add: split_on_append_sep)
      then show ?thesis unfolding mem by (intro exI[of _ "length (split_on ?dot p)"]) (simp add: join_split split_on_not_Nil)
    qed
  qed
qed

lemma candidates_decreasing: "sorted_wrt (\<lambda>a b. length b < length a) (customDomainCandidates queryName)"
proof -
  let ?ls = "split_on CHR ''.'' (trim_suffix queryName ''.'')"
  have "length (join_with ''.'' (drop j ?ls)) < length (join_with ''.'' (drop i ?ls))" if "i < j" "j < length ?ls" for i j
  proof -
    have "drop i ?ls = take (j - i) (drop i ?ls) @ drop j ?ls"
      using that by (metis append_take_drop_id drop_drop le_add_diff_inverse2 less_imp_le)
    moreover have "take (j - i) (drop i ?ls) \<noteq> []" "drop j ?ls \<noteq> []" using that by auto
    ultimately have "length (join_with ''.'' (drop i ?ls)) = length (join_with ''.'' (take (j - i) (drop i ?ls)) @ ''.'' @ join_with ''.'' (drop j ?ls))"
      using join_append[of "take (j - i) (drop i ?ls)" "drop j ?ls" "''.''"] by simp
    then show ?thesis by simp
  qed
  then show ?thesis by (auto simp: customDomainCandidates_def Let_def sorted_wrt_iff_nth_less)
qed

lemma lookup_candidates_spec:
  assumes "lookup_candidates (cache_of (\<lambda>_. None) fr zones records) vpc ds = Inr (zo, conflict)"
  shows "(\<exists>pre d post. ds = pre @ d # post \<and> filter (\<lambda>z. vpc = dz_vpc z \<and> d = dz_domain z) zones = [the zo] \<and> zo \<noteq> None \<and> \<not> conflict
          \<and> (\<forall>d' \<in> set pre. \<forall>z \<in> set zones. \<not> (vpc = dz_vpc z \<and> d' = dz_domain z)))
       \<or> zo = None \<and> conflict \<and> (\<exists>d \<in> set ds. length (filter (\<lambda>z. vpc = dz_vpc z \<and> d = dz_domain z) zones) > 1)
       \<or> zo = None \<and> \<not> conflict \<and> (\<forall>d \<in> set ds. \<forall>z \<in> set zones. \<not> (vpc = dz_vpc z \<and> d = dz_domain z))"
  using assms
proof (induction ds)
  case (Cons d ds)
  let ?f = "filter (\<lambda>z. vpc = dz_vpc z \<and> d = dz_domain z) zones"
  consider "length ?f > 1" | "length ?f = 1" | "?f = []" by (cases "length ?f") auto
  then show ?case
  proof cases
    case 1
    then show ?thesis using Cons.prems by (auto simp: cache_zones)
  next
    case 2
    then obtain z where z: "?f = [z]" by (cases ?f) auto
    then have "zo = Some z" "\<not> conflict" using Cons.prems by (auto simp: cache_zones)
    then show ?thesis using z by (intro disjI1 exI[of _ "[]"] exI[of _ d] exI[of _ ds]) simp
  next
    case 3
    then have none: "\<forall>z \<in> set zones. \<not> (vpc = dz_vpc z \<and> d = dz_domain z)" by (simp add: filter_empty_conv)
    have "lookup_candidates (cache_of (\<lambda>_. None) fr zones records) vpc ds = Inr (zo, conflict)"
      using Cons.prems 3 by (simp add: cache_zones)
    from Cons.IH[OF this] show ?thesis
    proof (elim disjE exE conjE)
      fix pre e post
      assume a: "ds = pre @ e # post" "filter (\<lambda>z. vpc = dz_vpc z \<and> e = dz_domain z) zones = [the zo]" "zo \<noteq> None" "\<not> conflict"
        "\<forall>d' \<in> set pre. \<forall>z \<in> set zones. \<not> (vpc = dz_vpc z \<and> d' = dz_domain z)"
      then show ?thesis using none by (intro disjI1 exI[of _ "d # pre"] exI[of _ e] exI[of _ post]) simp
    qed (use none in auto)
  qed
qed simp

text \<open>
  C36. A private name is answered from the longest zone of the caller's own Vpc that it lies in. When a zone
  is returned it belongs to the caller's Vpc, the name lies in its domain, and every other zone of that
  Vpc the name lies in has a shorter domain; no zone is returned only when there is none, or when the Vpc
  declares a domain twice.
\<close>

theorem lookupZone_longest:
  assumes "lookupZone (cache_of (\<lambda>_. None) fr zones records) vpc name = Inr (zo, conflict)"
    and "trim_suffix name ''.'' \<noteq> []"
  shows "case zo of
      Some z \<Rightarrow> z \<in> set zones \<and> dz_vpc z = vpc \<and> under (trim_suffix name ''.'') (dz_domain z)
        \<and> (\<forall>z' \<in> set zones. dz_vpc z' = vpc \<and> under (trim_suffix name ''.'') (dz_domain z') \<longrightarrow>
              z' = z \<or> length (dz_domain z') < length (dz_domain z))
    | None \<Rightarrow> if conflict then (\<exists>d. length (filter (\<lambda>z. dz_vpc z = vpc \<and> dz_domain z = d) zones) > 1)
              else (\<forall>z \<in> set zones. dz_vpc z = vpc \<longrightarrow> \<not> under (trim_suffix name ''.'') (dz_domain z))"
proof -
  let ?cs = "customDomainCandidates name"
  note cand = candidates_under[OF assms(2)]
  from lookup_candidates_spec[OF assms(1)[unfolded lookupZone_def]] show ?thesis
  proof (elim disjE exE conjE)
    fix pre d post
    assume split: "?cs = pre @ d # post" and one: "filter (\<lambda>z. vpc = dz_vpc z \<and> d = dz_domain z) zones = [the zo]" and "zo \<noteq> None"
      and none: "\<forall>d' \<in> set pre. \<forall>z \<in> set zones. \<not> (vpc = dz_vpc z \<and> d' = dz_domain z)"
    then obtain z where z: "zo = Some z" "filter (\<lambda>z. vpc = dz_vpc z \<and> d = dz_domain z) zones = [z]" by auto
    then have zin: "z \<in> set zones" "vpc = dz_vpc z" "d = dz_domain z" by (auto simp: filter_eq_Cons_iff)
    have "z' = z \<or> length (dz_domain z') < length (dz_domain z)"
      if z': "z' \<in> set zones" "dz_vpc z' = vpc" "under (trim_suffix name ''.'') (dz_domain z')" for z'
    proof -
      have "dz_domain z' \<in> set pre \<union> {d} \<union> set post" using z'(3) cand[of "dz_domain z'"] split by auto
      moreover have "dz_domain z' \<notin> set pre" using none z' by auto
      moreover have "length x < length d" if "x \<in> set post" for x
        using candidates_decreasing[of name] that unfolding split sorted_wrt_append by simp
      moreover have "z' = z" if "dz_domain z' = d"
      proof -
        have "z' \<in> set (filter (\<lambda>z. vpc = dz_vpc z \<and> d = dz_domain z) zones)" using z' that by simp
        then show ?thesis using z(2) by simp
      qed
      ultimately show ?thesis using zin(3) by blast
    qed
    moreover have "under (trim_suffix name ''.'') (dz_domain z)" using cand[of d] split zin(3) by simp
    ultimately show ?thesis using z zin by simp
  next
    assume "zo = None" "conflict" "\<exists>d \<in> set ?cs. length (filter (\<lambda>z. vpc = dz_vpc z \<and> d = dz_domain z) zones) > 1"
    then show ?thesis by (auto simp: eq_commute)
  next
    assume "zo = None" "\<not> conflict" "\<forall>d \<in> set ?cs. \<forall>z \<in> set zones. \<not> (vpc = dz_vpc z \<and> d = dz_domain z)"
    then show ?thesis using cand by auto
  qed
qed

definition demo_zone :: "string \<Rightarrow> string \<Rightarrow> string \<Rightarrow> dns_zone" where
  "demo_zone name vpc domain = \<lparr>dz_name = name, dz_vpc = vpc, dz_domain = domain, dz_generation = 1, dz_observedGeneration = 1,
     dz_conditions = [\<lparr>cn_type = ''Ready'', cn_status = ''True'', cn_observedGeneration = 1\<rparr>], dz_deleting = False\<rparr>"

theorem lookupZone_longest_witness:
  "lookupZone (cache_of (\<lambda>_. None) (\<lambda>_. None) [demo_zone ''z1'' ''a'' ''corp'', demo_zone ''z2'' ''a'' ''db.corp'', demo_zone ''z3'' ''b'' ''x.db.corp''] [])
     ''a'' ''x.db.corp.'' = Inr (Some (demo_zone ''z2'' ''a'' ''db.corp''), False)
   \<and> length (dz_domain (demo_zone ''z1'' ''a'' ''corp'')) < length (dz_domain (demo_zone ''z2'' ''a'' ''db.corp''))"
proof -
  let ?Z = "[demo_zone ''z1'' ''a'' ''corp'', demo_zone ''z2'' ''a'' ''db.corp'', demo_zone ''z3'' ''b'' ''x.db.corp'']"
  have run: "lookupZone (cache_of (\<lambda>_. None) (\<lambda>_. None) ?Z []) ''a'' ''x.db.corp.'' = Inr (Some (demo_zone ''z2'' ''a'' ''db.corp''), False)"
    by (simp add: lookupZone_def customDomainCandidates_def cache_zones demo_zone_def upt_rec trim_suffix_def has_suffix_def)
  have "trim_suffix ''x.db.corp.'' ''.'' \<noteq> []" "under (trim_suffix ''x.db.corp.'' ''.'') ''corp''"
    by (simp_all add: trim_suffix_def has_suffix_def under_def)
  then show ?thesis using lookupZone_longest[OF run] run by (simp add: demo_zone_def)
qed

section \<open>What a caller can see\<close>

text \<open>The caller a query names, and the Services and private zones visible to it.\<close>

definition query_caller :: "query \<Rightarrow> caller_vpc" where
  "query_caller q = \<lparr>cv_name = q_callerVPC q, cv_serviceEnabled = q_callerServiceEnabled q, cv_consume = q_callerConsume q\<rparr>"

definition visible :: "caller_vpc \<Rightarrow> get_service \<Rightarrow> get_service" where
  "visible caller get namespace name = (case get namespace name of
     Found svc \<Rightarrow> if ResolvableFrom (Some svc) caller then Found svc else NotFoundErr
   | r \<Rightarrow> r)"

definition own_zones :: "string \<Rightarrow> dns_zone list \<Rightarrow> dns_zone list" where
  "own_zones vpc zones = filter (\<lambda>z. dz_vpc z = vpc) zones"

definition own_records :: "string \<Rightarrow> dns_zone list \<Rightarrow> dns_record list \<Rightarrow> dns_record list" where
  "own_records vpc zones records = filter (\<lambda>r. dr_zone r \<in> dz_name ` set (own_zones vpc zones)) records"

lemma visible_case: "(case visible c get a b of Found svc \<Rightarrow> if \<not> ResolvableFrom (Some svc) c then n else f svc | NotFoundErr \<Rightarrow> n | GetFailed e \<Rightarrow> g e)
    = (case get a b of Found svc \<Rightarrow> if \<not> ResolvableFrom (Some svc) c then n else f svc | NotFoundErr \<Rightarrow> n | GetFailed e \<Rightarrow> g e)"
  by (cases "get a b") (simp_all add: visible_def)

lemma ClusterZone_visible: "ClusterZone_Resolve z get q = ClusterZone_Resolve z (visible (query_caller q) get) q"
  unfolding ClusterZone_Resolve_def Let_def query_caller_def[symmetric] visible_case ..

lemma cache_own_zones: "dc_zones (cache_of fz fr (own_zones vpc zones) R) (customDNSIndexKey vpc d) = dc_zones (cache_of fz fr zones R') (customDNSIndexKey vpc d)"
  by (simp add: cache_zones own_zones_def conj_commute cong: conj_cong option.case_cong) (auto intro!: filter_cong split: option.split)

lemma lookup_own_zones: "lookup_candidates (cache_of fz fr (own_zones vpc zones) R) vpc ds = lookup_candidates (cache_of fz fr zones R') vpc ds"
  by (induction ds) (simp_all add: cache_own_zones[of fz fr vpc zones R _ R'] split: sum.split)

lemma lookup_own: "lookup_candidates (cache_of fz fr zones R) vpc ds = Inr (Some z, b) \<Longrightarrow> z \<in> set (own_zones vpc zones)"
proof (induction ds)
  case (Cons d ds)
  let ?f = "filter (\<lambda>z. vpc = dz_vpc z \<and> d = dz_domain z) zones"
  have "hd ?f \<in> set (own_zones vpc zones)" if "length ?f = 1"
  proof -
    have "hd ?f \<in> set ?f" using that by (cases ?f) auto
    then show ?thesis by (auto simp: own_zones_def)
  qed
  then show ?case using Cons by (auto simp: cache_zones split: option.splits if_splits)
qed simp

lemma CustomZone_own: "CustomZone_Resolve (cache_of fz fr zones records) shuffle q =
    CustomZone_Resolve (cache_of fz fr (own_zones (q_callerVPC q) zones) (own_records (q_callerVPC q) zones records)) shuffle q"
    (is "CustomZone_Resolve ?c shuffle q = CustomZone_Resolve ?c' shuffle q")
proof -
  have look: "lookupZone ?c' (q_callerVPC q) (q_name q) = lookupZone ?c (q_callerVPC q) (q_name q)"
    by (simp add: lookupZone_def lookup_own_zones[where R' = records])
  have recs: "dc_records ?c' (customDNSIndexKey (dz_name z) n) = dc_records ?c (customDNSIndexKey (dz_name z) n)"
    if "lookupZone ?c (q_callerVPC q) (q_name q) = Inr (Some z, b)" for z b n
  proof -
    have "z \<in> set (own_zones (q_callerVPC q) zones)" using that lookup_own unfolding lookupZone_def by blast
    then have "filter (\<lambda>r. dz_name z = dr_zone r \<and> n = dr_name r) (own_records (q_callerVPC q) zones records)
        = filter (\<lambda>r. dz_name z = dr_zone r \<and> n = dr_name r) records"
      by (auto simp: own_records_def intro!: filter_cong intro: image_eqI[of _ _ z])
    then show ?thesis by (simp add: cache_records cong: option.case_cong)
  qed
  show ?thesis
  proof (cases "lookupZone ?c (q_callerVPC q) (q_name q)")
    case (Inl e)
    then show ?thesis by (simp add: CustomZone_Resolve_def look)
  next
    case (Inr p)
    obtain zo b where p: "p = (zo, b)" by (rule prod.exhaust)
    show ?thesis
    proof (cases zo)
      case None
      then show ?thesis using Inr p by (simp add: CustomZone_Resolve_def look)
    next
      case (Some z)
      then have "dc_records ?c' (customDNSIndexKey (dz_name z) n) = dc_records ?c (customDNSIndexKey (dz_name z) n)" for n
        using recs Inr p by blast
      then show ?thesis using Inr p Some by (simp add: CustomZone_Resolve_def look)
    qed
  qed
qed

section \<open>What every resolver returns\<close>

lemma mset_apply_swaps: "\<forall>(i, j) \<in> set sw. i < length xs \<and> j < length xs \<Longrightarrow> mset (apply_swaps sw xs) = mset xs"
  by (induction sw xs rule: apply_swaps.induct) (auto simp: mset_swap)

lemma set_rand_shuffle [simp]: "set (apply_swaps (rand_shuffle draw (length xs)) xs) = set xs"
proof -
  have "draw i mod Suc i < length xs" if "i < length xs" for i using mod_less_divisor[of "Suc i" "draw i"] that by linarith
  then have "mset (apply_swaps (rand_shuffle draw (length xs)) xs) = mset xs"
    by (intro mset_apply_swaps) (auto simp: rand_shuffle_def)
  then show ?thesis by (rule mset_eq_setD)
qed

text \<open>An answer the wire encoder has a body for: an IPv4 address or a canonical name, of class IN.\<close>

definition answer_ok :: "answer \<Rightarrow> bool" where
  "answer_ok a \<longleftrightarrow> an_class a = ClassINET \<and> (an_type a = TypeA \<and> Is4 (an_a a) \<or> an_type a = TypeCNAME)"

text \<open>The contract between the handler and what it resolves names with.\<close>

locale answering =
  fixes resolve :: resolver
  assumes answers_ok: "resolve q = (rsp, None) \<Longrightarrow> a \<in> set (rs_answers rsp) \<Longrightarrow> answer_ok a"
begin

lemma all_ok: "resolve q = (rsp, None) \<Longrightarrow> list_all answer_ok (rs_answers rsp)"
  by (simp add: list_all_iff answers_ok)

end

lemma answering_chain_walk:
  assumes "\<forall>r \<in> set rs. answering r" "chain_walk rs q = (rsp, None)" "a \<in> set (rs_answers rsp)"
  shows "answer_ok a"
  using assms
proof (induction rs)
  case (Cons r rs)
  then show ?case by (auto split: prod.splits if_splits dest: answering.answers_ok)
qed (auto simp: resp_def)

lemma answering_chain: "\<forall>r \<in> set rs. answering r \<Longrightarrow> answering (Chain_Resolve rs)"
  by unfold_locales (auto simp: Chain_Resolve_def split: if_splits dest: answering_chain_walk)

lemma resp_answers [simp]: "rs_answers (resp rcode auth) = []"
  by (simp add: resp_def)

lemma v4_answers_ok: "a \<in> set (v4_answers q ttl ips) \<Longrightarrow> answer_ok a"
  by (auto simp: v4_answers_def List.map_filter_def answer_ok_def a_answer_def split: option.splits if_splits)

lemma external_ok: "externalNameResponse q n ttl = (rsp, e) \<Longrightarrow> a \<in> set (rs_answers rsp) \<Longrightarrow> answer_ok a"
  by (auto simp: externalNameResponse_def Let_def answer_ok_def split: if_splits)

interpretation cluster: answering "ClusterZone_Resolve z get" for z get
  by unfold_locales
    (auto simp: ClusterZone_Resolve_def Let_def customServerFailure_def split: if_splits get_result.splits dest: external_ok v4_answers_ok)

lemma project_addresses_v4: "project_addresses seen ss = Some as \<Longrightarrow> \<forall>a \<in> set as. Is4 a"
  by (induction seen ss arbitrary: as rule: project_addresses.induct) (auto split: option.splits if_splits)

lemma projected_v4: "projectedRecordData r = Some (as, ttl) \<Longrightarrow> a \<in> set as \<Longrightarrow> Is4 a"
  by (auto simp: projectedRecordData_def split: option.splits if_splits dest: project_addresses_v4)

lemma projected_ok: "projectedRecordData r = Some (as, ttl) \<Longrightarrow> \<forall>a \<in> set as. answer_ok (a_answer q t a)"
  using projected_v4 by (auto simp: answer_ok_def a_answer_def)

lemma custom_ok:
  assumes "CustomZone_Resolve cache (rand_shuffle draw) q = (rsp, None)" "a \<in> set (rs_answers rsp)"
  shows "answer_ok a"
proof -
  have "set (apply_swaps (rand_shuffle draw (length as)) (map f as)) = f ` set as" for f :: "addr \<Rightarrow> answer" and as
    using set_rand_shuffle[of draw "map f as"] by simp
  then show ?thesis using assms
    by (auto simp: CustomZone_Resolve_def customServerFailure_def Let_def split: sum.splits prod.splits if_splits option.splits
        dest!: projected_ok)
qed

interpretation custom: answering "CustomZone_Resolve cache (rand_shuffle draw)" for cache draw
  by unfold_locales (rule custom_ok)

end
