(* ===== verification/DnsHandler.thy ===== *)
theory DnsHandler
  imports DnsZones
begin

text \<open>
  The wire side of the virtual DNS service (\<open>virtservice/dns\<close>: \<open>handler.go\<close>, \<open>forwarder.go\<close>,
  \<open>tcp_handler.go\<close>). The message codec (\<open>dnsmessage\<close>) is a parameter: a record of its calls, on a parser
  state of any type. What is relied on of it is that a parser moves forward, so that a message has finitely
  many records. A call that writes a response returns the packets handed to the responder next to the error.
  Deadlines and the sockets of the upstream servers are not modelled: asking a server is a parameter.
\<close>

section \<open>Messages\<close>

record dns_header =
  dh_id :: u16
  dh_response :: bool
  dh_opcode :: u16
  dh_authoritative :: bool
  dh_truncated :: bool
  dh_rd :: bool
  dh_ra :: bool
  dh_rcode :: u16

record question =
  qu_name :: string
  qu_type :: u16
  qu_class :: u16

record rr_header =
  rh_name :: string
  rh_type :: u16
  rh_class :: u16
  rh_ttl :: u32

datatype rr_body = AResource "u8 list" | CNAMEResource string | PTRResource string

record dns_message =
  ms_header :: dns_header
  ms_questions :: "question list"
  ms_answers :: "(rr_header \<times> rr_body) list"

text \<open>The calls of the codec the sources make; \<open>None\<close> is an error.\<close>

record 'p dnsmessage =
  dm_Start :: "u8 list \<Rightarrow> (dns_header \<times> 'p) option"
  dm_Question :: "'p \<Rightarrow> (question \<times> 'p) option"
  dm_SkipAllQuestions :: "'p \<Rightarrow> 'p option"
  dm_SkipAllAnswers :: "'p \<Rightarrow> 'p option"
  dm_SkipAllAuthorities :: "'p \<Rightarrow> 'p option"
  dm_AdditionalHeader :: "'p \<Rightarrow> (rr_header \<times> 'p) option"
  dm_SkipAdditional :: "'p \<Rightarrow> 'p option"
  dm_AnswerHeader :: "'p \<Rightarrow> (rr_header \<times> 'p) option"
  dm_SkipAnswer :: "'p \<Rightarrow> 'p option"
  dm_AResource :: "'p \<Rightarrow> (u8 list \<times> 'p) option"
  dm_CNAMEResource :: "'p \<Rightarrow> (string \<times> 'p) option"
  dm_NewName :: "string \<Rightarrow> string option"
  dm_Pack :: "dns_message \<Rightarrow> u8 list option"

definition TypeOPT :: u16 where "TypeOPT = 41"

section \<open>The handler (handler.go)\<close>

datatype response_transport = ResponseUDP | ResponseTCP

record handler =
  ha_transport :: response_transport
  ha_maxResponseBytes :: int

record tenant =
  tn_vpcID :: u32
  tn_subnetID :: u32

record packet_request =
  pr_tenant :: tenant
  pr_clientIP :: addr
  pr_payload :: "u8 list"

record parsed_query =
  pq_id :: u16
  pq_opcode :: u16
  pq_rd :: bool
  pq_question :: question
  pq_name :: string
  pq_type :: u16
  pq_class :: u16
  pq_udpBufSize :: u16

datatype parse_error = HeaderError | NotAQuery | QuestionError | SkipError

text \<open>The walk over the additional section. It may not end on a codec whose parser does not move.\<close>

partial_function (option) opt_scan :: "'p dnsmessage \<Rightarrow> 'p \<Rightarrow> u16 \<Rightarrow> u16 option" where
  "opt_scan d p udpBuf =
     (case dm_AdditionalHeader d p of
        None \<Rightarrow> Some udpBuf
      | Some (rh, p1) \<Rightarrow>
          let buf = (if rh_type rh = TypeOPT then (if rh_class rh < 512 then 512 else rh_class rh) else udpBuf)
          in case dm_SkipAdditional d p1 of None \<Rightarrow> Some buf | Some p2 \<Rightarrow> opt_scan d p2 buf)"

definition parseQuery :: "'p dnsmessage \<Rightarrow> u8 list \<Rightarrow> (parse_error + parsed_query) option" where
  "parseQuery d payload =
     (case dm_Start d payload of
        None \<Rightarrow> Some (Inl HeaderError)
      | Some (hdr, p) \<Rightarrow>
          if dh_response hdr then Some (Inl NotAQuery)
          else case dm_Question d p of
            None \<Rightarrow> Some (Inl QuestionError)
          | Some (q, p) \<Rightarrow>
              case dm_SkipAllQuestions d p of
                None \<Rightarrow> Some (Inl SkipError)
              | Some p \<Rightarrow>
                  let parsed = \<lparr>pq_id = dh_id hdr, pq_opcode = dh_opcode hdr, pq_rd = dh_rd hdr, pq_question = q,
                                pq_name = to_lower (qu_name q), pq_type = qu_type q, pq_class = qu_class q, pq_udpBufSize = 0\<rparr>
                  in case dm_SkipAllAnswers d p of
                       None \<Rightarrow> Some (Inr parsed)
                     | Some p \<Rightarrow>
                         case dm_SkipAllAuthorities d p of
                           None \<Rightarrow> Some (Inr parsed)
                         | Some p \<Rightarrow> map_option (\<lambda>udpBuf. Inr (parsed\<lparr>pq_udpBufSize := udpBuf\<rparr>)) (opt_scan d p 0))"

datatype handle_error = NotInitialised | PackError | WriteError string

type_synonym responder = "u8 list \<Rightarrow> string option"

definition write_response :: "responder \<Rightarrow> u8 list \<Rightarrow> u8 list list \<times> handle_error option" where
  "write_response write wire = ([wire], map_option WriteError (write wire))"

definition writeRCode :: "'p dnsmessage \<Rightarrow> responder \<Rightarrow> parsed_query \<Rightarrow> u16 \<Rightarrow> u8 list list \<times> handle_error option" where
  "writeRCode d write parsed rcode =
     (case dm_Pack d \<lparr>ms_header = \<lparr>dh_id = pq_id parsed, dh_response = True, dh_opcode = pq_opcode parsed, dh_authoritative = False,
                                   dh_truncated = False, dh_rd = pq_rd parsed, dh_ra = True, dh_rcode = rcode\<rparr>,
                      ms_questions = [pq_question parsed], ms_answers = []\<rparr> of
        None \<Rightarrow> ([], Some PackError)
      | Some wire \<Rightarrow> write_response write wire)"

definition makeErrorResponse :: "'p dnsmessage \<Rightarrow> u8 list \<Rightarrow> u16 \<Rightarrow> u8 list option" where
  "makeErrorResponse d query rcode =
     (if length query < 12 then None
      else dm_Pack d \<lparr>ms_header = \<lparr>dh_id = push_bit 8 (ucast (query ! 0)) OR ucast (query ! 1), dh_response = True, dh_opcode = 0,
                                   dh_authoritative = False, dh_truncated = False, dh_rd = False, dh_ra = False, dh_rcode = rcode\<rparr>,
                      ms_questions = [], ms_answers = []\<rparr>)"

definition buildResource :: "'p dnsmessage \<Rightarrow> answer \<Rightarrow> (rr_header \<times> rr_body) option" where
  "buildResource d ans =
     (case dm_NewName d (an_name ans) of
        None \<Rightarrow> None
      | Some name \<Rightarrow>
          let hdr = \<lparr>rh_name = name, rh_type = an_type ans, rh_class = an_class ans, rh_ttl = an_ttl ans\<rparr>
          in if an_type ans = TypeA then (if \<not> Is4 (an_a ans) then None else Some (hdr, AResource (As4 (an_a ans))))
             else if an_type ans = TypeCNAME then map_option (\<lambda>c. (hdr, CNAMEResource c)) (dm_NewName d (an_cname ans))
             else if an_type ans = TypePTR then map_option (\<lambda>c. (hdr, PTRResource c)) (dm_NewName d (an_ptr ans))
             else None)"

fun build_all :: "'p dnsmessage \<Rightarrow> answer list \<Rightarrow> (rr_header \<times> rr_body) list option" where
  "build_all d [] = Some []"
| "build_all d (a # as) = (case buildResource d a of None \<Rightarrow> None | Some rr \<Rightarrow> map_option (Cons rr) (build_all d as))"

definition responseByteLimit :: "handler \<Rightarrow> parsed_query \<Rightarrow> int" where
  "responseByteLimit h parsed =
     (case ha_transport h of
        ResponseTCP \<Rightarrow> 65535
      | ResponseUDP \<Rightarrow>
          let maxBytes = (if pq_udpBufSize parsed = 0 then 512 else uint (pq_udpBufSize parsed))
          in if ha_maxResponseBytes h > 0 \<and> ha_maxResponseBytes h < maxBytes then ha_maxResponseBytes h else maxBytes)"

definition response_header :: "parsed_query \<Rightarrow> response \<Rightarrow> bool \<Rightarrow> dns_header" where
  "response_header parsed res truncated =
     \<lparr>dh_id = pq_id parsed, dh_response = True, dh_opcode = pq_opcode parsed, dh_authoritative = rs_authoritative res,
      dh_truncated = truncated, dh_rd = pq_rd parsed, dh_ra = True, dh_rcode = rs_rcode res\<rparr>"

definition encodeResponse :: "'p dnsmessage \<Rightarrow> handler \<Rightarrow> parsed_query \<Rightarrow> response \<Rightarrow> u8 list option" where
  "encodeResponse d h parsed res =
     (case build_all d (rs_answers res) of
        None \<Rightarrow> None
      | Some rrs \<Rightarrow>
          case dm_Pack d \<lparr>ms_header = response_header parsed res False, ms_questions = [pq_question parsed], ms_answers = rrs\<rparr> of
            None \<Rightarrow> None
          | Some wire \<Rightarrow>
              if int (length wire) > responseByteLimit h parsed
              then dm_Pack d \<lparr>ms_header = response_header parsed res True, ms_questions = [pq_question parsed], ms_answers = []\<rparr>
              else Some wire)"

definition query_of :: "parsed_query \<Rightarrow> string \<Rightarrow> bool \<Rightarrow> bool \<Rightarrow> addr \<Rightarrow> query" where
  "query_of parsed vpcName serviceEnabled consume ip =
     \<lparr>q_name = pq_name parsed, q_type = pq_type parsed, q_class = pq_class parsed, q_callerVPC = vpcName,
      q_callerServiceEnabled = serviceEnabled, q_callerConsume = consume, q_callerIP = ip\<rparr>"

type_synonym vpc_lookup = "u32 \<Rightarrow> string \<times> bool \<times> bool \<times> bool"

definition HandlePacket ::
  "'p dnsmessage \<Rightarrow> handler \<Rightarrow> resolver option \<Rightarrow> vpc_lookup \<Rightarrow> responder \<Rightarrow> packet_request \<Rightarrow> (u8 list list \<times> handle_error option) option" where
  "HandlePacket d h resolver lookup write req =
     (case resolver of
        None \<Rightarrow> Some ([], Some NotInitialised)
      | Some resolve \<Rightarrow>
          case parseQuery d (pr_payload req) of
            None \<Rightarrow> None
          | Some (Inl _) \<Rightarrow>
              Some (case makeErrorResponse d (pr_payload req) RCodeFormErr of
                      Some msg \<Rightarrow> (fst (write_response write msg), None)
                    | None \<Rightarrow> ([], None))
          | Some (Inr parsed) \<Rightarrow>
              case lookup (tn_vpcID (pr_tenant req)) of (vpcName, serviceEnabled, consume, ok) \<Rightarrow>
                if \<not> ok then Some (writeRCode d write parsed RCodeServerFailure)
                else case resolve (query_of parsed vpcName serviceEnabled consume (pr_clientIP req)) of
                  (res, Some _) \<Rightarrow> Some (writeRCode d write parsed RCodeServerFailure)
                | (res, None) \<Rightarrow>
                    case encodeResponse d h parsed res of
                      None \<Rightarrow> Some (writeRCode d write parsed RCodeServerFailure)
                    | Some wire \<Rightarrow> Some (write_response write wire))"

text \<open>The resolvers of a daemon, in order: the cluster zone, the private zones and the upstream servers, if any.\<close>

definition startDNSService_chain :: "get_service \<Rightarrow> dns_cache \<Rightarrow> shuffler \<Rightarrow> resolver option \<Rightarrow> resolver list" where
  "startDNSService_chain get cache shuffle fwd =
     NewChain ([Some (ClusterZone_Resolve (NewClusterZone DefaultClusterDomain 30) get), Some (CustomZone_Resolve cache shuffle)]
       @ (case fwd of None \<Rightarrow> [] | Some f \<Rightarrow> [Some f]))"

section \<open>The upstream servers (forwarder.go)\<close>

text \<open>Splitting and joining \<open>host:port\<close> in the standard library: the pieces before and after the last colon.\<close>

definition last_colon :: "string \<Rightarrow> (string \<times> string) option" where
  "last_colon s = (if CHR '':'' \<in> set s
     then Some (rev (tl (dropWhile (\<lambda>c. c \<noteq> CHR '':'') (rev s))), rev (takeWhile (\<lambda>c. c \<noteq> CHR '':'') (rev s)))
     else None)"

definition SplitHostPort :: "string \<Rightarrow> (string \<times> string) option" where
  "SplitHostPort hostport =
     (case last_colon hostport of
        None \<Rightarrow> None
      | Some (host, port) \<Rightarrow>
          if hostport \<noteq> [] \<and> hd hostport = CHR ''[''
          then if CHR '']'' \<notin> set hostport then None
               else let inner = takeWhile (\<lambda>c. c \<noteq> CHR '']'') (tl hostport)
                    in if Suc (Suc (length inner)) \<noteq> length host then None
                       else if CHR ''['' \<in> set (tl hostport) then None
                       else if CHR '']'' \<in> set port then None
                       else Some (inner, port)
          else if CHR '':'' \<in> set host then None
          else if CHR ''['' \<in> set hostport \<or> CHR '']'' \<in> set hostport then None
          else Some (host, port))"

definition JoinHostPort :: "string \<Rightarrow> string \<Rightarrow> string" where
  "JoinHostPort host port =
     (if CHR '':'' \<in> set host then ''['' @ host @ '']:'' @ port else host @ '':'' @ port)"

datatype forwarder_error = NoServers | BadServer string

definition upstream_addr :: "string \<Rightarrow> forwarder_error + string" where
  "upstream_addr s =
     (case SplitHostPort s of
        Some (host, port) \<Rightarrow> Inr (JoinHostPort host port)
      | None \<Rightarrow> if CHR '':'' \<notin> set s then Inr (JoinHostPort s ''53'') else Inl (BadServer s))"

fun upstream_addrs :: "string list \<Rightarrow> forwarder_error + string list" where
  "upstream_addrs [] = Inr []"
| "upstream_addrs (s # ss) =
     (case upstream_addr s of
        Inl e \<Rightarrow> Inl e
      | Inr a \<Rightarrow> case upstream_addrs ss of Inl e \<Rightarrow> Inl e | Inr as \<Rightarrow> Inr (a # as))"

definition NewUpstreamForwarder :: "string list \<Rightarrow> forwarder_error + string list" where
  "NewUpstreamForwarder servers = (if servers = [] then Inl NoServers else upstream_addrs servers)"

text \<open>The id of the query is read off the clock.\<close>

definition encodeOutboundQuery :: "'p dnsmessage \<Rightarrow> u16 \<Rightarrow> query \<Rightarrow> u8 list option" where
  "encodeOutboundQuery d now q =
     (case dm_NewName d (q_name q) of
        None \<Rightarrow> None
      | Some name \<Rightarrow>
          dm_Pack d \<lparr>ms_header = \<lparr>dh_id = now, dh_response = False, dh_opcode = 0, dh_authoritative = False, dh_truncated = False,
                                  dh_rd = True, dh_ra = False, dh_rcode = 0\<rparr>,
                     ms_questions = [\<lparr>qu_name = name, qu_type = q_type q, qu_class = q_class q\<rparr>], ms_answers = []\<rparr>)"

definition upstream_answer :: "rr_header \<Rightarrow> u16 \<Rightarrow> addr \<Rightarrow> string \<Rightarrow> answer" where
  "upstream_answer rh type a cname =
     \<lparr>an_name = rh_name rh, an_type = type, an_class = ClassINET, an_ttl = rh_ttl rh, an_a = a, an_cname = cname, an_ptr = []\<rparr>"

partial_function (option) answer_scan :: "'p dnsmessage \<Rightarrow> 'p \<Rightarrow> answer list \<Rightarrow> (string + answer list) option" where
  "answer_scan d p answers =
     (case dm_AnswerHeader d p of
        None \<Rightarrow> Some (Inr answers)
      | Some (rh, p1) \<Rightarrow>
          if rh_class rh \<noteq> ClassINET then
            (case dm_SkipAnswer d p1 of None \<Rightarrow> Some (Inr answers) | Some p2 \<Rightarrow> answer_scan d p2 answers)
          else if rh_type rh = TypeA then
            (case dm_AResource d p1 of
               None \<Rightarrow> Some (Inl ''upstream A body'')
             | Some (a, p2) \<Rightarrow> answer_scan d p2 (answers @ [upstream_answer rh TypeA (AddrFrom4 a) []]))
          else if rh_type rh = TypeCNAME then
            (case dm_CNAMEResource d p1 of
               None \<Rightarrow> Some (Inl ''upstream CNAME body'')
             | Some (c, p2) \<Rightarrow> answer_scan d p2 (answers @ [upstream_answer rh TypeCNAME AddrZero c]))
          else
            (case dm_SkipAnswer d p1 of None \<Rightarrow> Some (Inl ''upstream skip answer'') | Some p2 \<Rightarrow> answer_scan d p2 answers))"

definition decodeUpstreamResponse :: "'p dnsmessage \<Rightarrow> u8 list \<Rightarrow> (response \<times> dns_error option) option" where
  "decodeUpstreamResponse d wire =
     (let failed = (\<lambda>e. Some (resp RCodeServerFailure False, Some (ClientError e)))
      in case dm_Start d wire of
           None \<Rightarrow> failed ''upstream parse header''
         | Some (hdr, p) \<Rightarrow>
             if \<not> dh_response hdr then failed ''upstream did not set QR''
             else case dm_SkipAllQuestions d p of
               None \<Rightarrow> failed ''skip questions''
             | Some p \<Rightarrow>
                 case answer_scan d p [] of
                   None \<Rightarrow> None
                 | Some (Inl e) \<Rightarrow> failed e
                 | Some (Inr answers) \<Rightarrow> Some (\<lparr>rs_rcode = dh_rcode hdr, rs_answers = answers, rs_authoritative = False\<rparr>, None))"

text \<open>\<open>ask\<close> is \<open>queryOne\<close>: a datagram to a server and its answer, or an error.\<close>

fun upstream_walk ::
  "'p dnsmessage \<Rightarrow> (string \<Rightarrow> u8 list \<Rightarrow> string + u8 list) \<Rightarrow> u8 list \<Rightarrow> string option \<Rightarrow> string list \<Rightarrow> (response \<times> dns_error option) option" where
  "upstream_walk d ask wire lastErr [] =
     Some (resp RCodeServerFailure False, Some (ClientError (case lastErr of Some e \<Rightarrow> e | None \<Rightarrow> ''dns: all upstreams failed'')))"
| "upstream_walk d ask wire lastErr (srv # servers) =
     (case ask srv wire of
        Inl e \<Rightarrow> upstream_walk d ask wire (Some e) servers
      | Inr bytes \<Rightarrow> decodeUpstreamResponse d bytes)"

definition Forwarder_Resolve ::
  "'p dnsmessage \<Rightarrow> (string \<Rightarrow> u8 list \<Rightarrow> string + u8 list) \<Rightarrow> u16 \<Rightarrow> string list \<Rightarrow> query \<Rightarrow> (response \<times> dns_error option) option" where
  "Forwarder_Resolve d ask now servers q =
     (case encodeOutboundQuery d now q of
        None \<Rightarrow> Some (resp 0 False, Some (ClientError ''encode upstream query''))
      | Some wire \<Rightarrow> upstream_walk d ask wire None servers)"

text \<open>The upstream servers of the daemon's command line: a list with commas; none when it is blank.\<close>

definition startDNSService_servers :: "string \<Rightarrow> forwarder_error + string list option" where
  "startDNSService_servers dnsUpstream =
     (let cleaned = filter (\<lambda>t. t \<noteq> []) (map trim_space (split_on CHR '','' dnsUpstream))
      in if cleaned = [] then Inr None
         else case NewUpstreamForwarder cleaned of Inl e \<Rightarrow> Inl e | Inr servers \<Rightarrow> Inr (Some servers))"

section \<open>Queries over TCP (tcp\_handler.go)\<close>

text \<open>A connection is the bytes it will deliver before it ends or idles out.\<close>

datatype read_failure = EOF | UnexpectedEOF | ZeroLength | TooLong

definition readDNSMessage :: "u8 list \<Rightarrow> int \<Rightarrow> read_failure + (u8 list \<times> u8 list)" where
  "readDNSMessage conn maxBytes =
     (if conn = [] then Inl EOF
      else if length conn < 2 then Inl UnexpectedEOF
      else let n = unat (be_word (take 2 conn) :: u16)
           in if n = 0 then Inl ZeroLength
              else if maxBytes > 0 \<and> int n > maxBytes then Inl TooLong
              else if length (drop 2 conn) < n then Inl (if drop 2 conn = [] then EOF else UnexpectedEOF)
              else Inr (take n (drop 2 conn), drop n (drop 2 conn)))"

definition writeDNSMessage :: "u8 list \<Rightarrow> u8 list" where
  "writeDNSMessage body = be_bytes 2 (of_nat (length body) :: u16) @ body"

text \<open>The captured response of one query; the last write wins and an empty capture ends the connection.\<close>

definition resolveOnce :: "'p dnsmessage \<Rightarrow> resolver option \<Rightarrow> vpc_lookup \<Rightarrow> tenant \<Rightarrow> addr \<Rightarrow> u8 list \<Rightarrow> u8 list option option" where
  "resolveOnce d resolver lookup tnt clientIP query =
     map_option (\<lambda>(writes, err). if err \<noteq> None \<or> writes = [] \<or> last writes = [] then None else Some (last writes))
       (HandlePacket d \<lparr>ha_transport = ResponseTCP, ha_maxResponseBytes = 0\<rparr> resolver lookup (\<lambda>_. None)
          \<lparr>pr_tenant = tnt, pr_clientIP = clientIP, pr_payload = query\<rparr>)"

function handleConn :: "'p dnsmessage \<Rightarrow> resolver option \<Rightarrow> vpc_lookup \<Rightarrow> tenant \<Rightarrow> addr \<Rightarrow> int \<Rightarrow> u8 list \<Rightarrow> u8 list option" where
  "handleConn d resolver lookup tnt clientIP maxBytes conn =
     (case readDNSMessage conn maxBytes of
        Inl _ \<Rightarrow> Some []
      | Inr (query, rest) \<Rightarrow>
          case resolveOnce d resolver lookup tnt clientIP query of
            None \<Rightarrow> None
          | Some None \<Rightarrow> Some []
          | Some (Some response) \<Rightarrow>
              map_option (\<lambda>out. writeDNSMessage response @ out) (handleConn d resolver lookup tnt clientIP maxBytes rest))"
  by pat_completeness auto
termination
proof (relation "measure (\<lambda>(_, _, _, _, _, _, conn). length conn)")
qed (auto simp: readDNSMessage_def Let_def split: if_splits)

section \<open>A message has finitely many records\<close>

text \<open>What the codec documents: reading or skipping a record moves the parser towards the end of the message.\<close>

definition parser_moves :: "'p dnsmessage \<Rightarrow> ('p \<Rightarrow> nat) \<Rightarrow> bool" where
  "parser_moves d left \<longleftrightarrow>
     (\<forall>p rh p1 p2. dm_AdditionalHeader d p = Some (rh, p1) \<longrightarrow> dm_SkipAdditional d p1 = Some p2 \<longrightarrow> left p2 < left p)
   \<and> (\<forall>p rh p1 p2. dm_AnswerHeader d p = Some (rh, p1) \<longrightarrow>
        (dm_SkipAnswer d p1 = Some p2 \<longrightarrow> left p2 < left p)
      \<and> (\<forall>a. dm_AResource d p1 = Some (a, p2) \<longrightarrow> left p2 < left p)
      \<and> (\<forall>c. dm_CNAMEResource d p1 = Some (c, p2) \<longrightarrow> left p2 < left p))"

lemma opt_scan_returns:
  assumes "parser_moves d left"
  shows "\<exists>s. opt_scan d p buf = Some s"
proof (induction "left p" arbitrary: p buf rule: less_induct)
  case less
  have step: "\<exists>s. opt_scan d p2 b = Some s" if "dm_AdditionalHeader d p = Some (rh, p1)" "dm_SkipAdditional d p1 = Some p2" for rh p1 p2 b
    using less that assms unfolding parser_moves_def by blast
  then show ?case by (subst opt_scan.simps) (auto simp: Let_def split: option.split)
qed

lemma answer_scan_returns:
  assumes "parser_moves d left" "list_all answer_ok as"
  shows "\<exists>r. answer_scan d p as = Some r \<and> (\<forall>bs. r = Inr bs \<longrightarrow> list_all answer_ok bs)"
  using assms(2)
proof (induction "left p" arbitrary: p as rule: less_induct)
  case less
  show ?case
  proof (cases "dm_AnswerHeader d p")
    case (Some hp)
    obtain rh p1 where hp: "hp = (rh, p1)" by (rule prod.exhaust)
    have moves: "left p2 < left p"
      if "dm_SkipAnswer d p1 = Some p2 \<or> (\<exists>a. dm_AResource d p1 = Some (a, p2)) \<or> (\<exists>c. dm_CNAMEResource d p1 = Some (c, p2))" for p2
      using assms(1) that Some hp unfolding parser_moves_def by blast
    have ok: "answer_ok (upstream_answer rh TypeA (AddrFrom4 a) [])" "answer_ok (upstream_answer rh TypeCNAME AddrZero c)" for a c
      by (simp_all add: answer_ok_def upstream_answer_def AddrFrom4_def)
    have next_ok: "\<exists>r. answer_scan d p2 bs = Some r \<and> (\<forall>cs. r = Inr cs \<longrightarrow> list_all answer_ok cs)"
      if "left p2 < left p" "list_all answer_ok bs" for p2 bs
      using less.hyps that by blast
    show ?thesis
      by (subst answer_scan.simps) (use Some hp less.prems ok moves in \<open>auto split: option.split intro!: next_ok\<close>)
  qed (use less.prems in \<open>simp add: answer_scan.simps\<close>)
qed

lemma parseQuery_returns: "parser_moves d left \<Longrightarrow> \<exists>r. parseQuery d payload = Some r"
  using opt_scan_returns[of d left] by (fastforce simp: parseQuery_def Let_def split: option.split)

lemma HandlePacket_returns: "parser_moves d left \<Longrightarrow> \<exists>r. HandlePacket d h resolver lookup write req = Some r"
  using parseQuery_returns[of d left "pr_payload req"]
  by (auto simp: HandlePacket_def split: option.split sum.split prod.split)

lemma decode_returns:
  assumes "parser_moves d left"
  shows "\<exists>rsp e. decodeUpstreamResponse d wire = Some (rsp, e) \<and> list_all answer_ok (rs_answers rsp)"
proof -
  have scan: "case answer_scan d p [] of None \<Rightarrow> False | Some (Inl e) \<Rightarrow> True | Some (Inr as) \<Rightarrow> list_all answer_ok as" for p
    using answer_scan_returns[OF assms, of "[]" p] by (auto split: sum.split)
  show ?thesis
  proof (cases "dm_Start d wire")
    case (Some hp)
    obtain hdr p where hp: "hp = (hdr, p)" by (rule prod.exhaust)
    show ?thesis
    proof (cases "dm_SkipAllQuestions d p")
      case skip: (Some p')
      show ?thesis using scan[of p'] Some hp skip by (auto simp: decodeUpstreamResponse_def Let_def split: option.splits sum.splits)
    qed (use Some hp in \<open>simp add: decodeUpstreamResponse_def Let_def\<close>)
  qed (simp add: decodeUpstreamResponse_def)
qed

lemma upstream_walk_returns:
  assumes "parser_moves d left"
  shows "\<exists>rsp e. upstream_walk d ask wire lastErr servers = Some (rsp, e) \<and> list_all answer_ok (rs_answers rsp)"
  using decode_returns[OF assms] by (induction servers arbitrary: lastErr) (auto split: sum.split)

text \<open>The forwarder as the resolver a chain holds, on a codec it always returns on.\<close>

definition upstream :: "'p dnsmessage \<Rightarrow> (string \<Rightarrow> u8 list \<Rightarrow> string + u8 list) \<Rightarrow> u16 \<Rightarrow> string list \<Rightarrow> resolver" where
  "upstream d ask now servers q = the (Forwarder_Resolve d ask now servers q)"

lemma Forwarder_returns:
  assumes "parser_moves d left"
  shows "\<exists>rsp e. Forwarder_Resolve d ask now servers q = Some (rsp, e) \<and> list_all answer_ok (rs_answers rsp)"
  using upstream_walk_returns[OF assms] by (auto simp: Forwarder_Resolve_def split: option.split)

lemma upstream_answering:
  assumes "parser_moves d left"
  shows "answering (upstream d ask now servers)"
proof unfold_locales
  fix q rsp a assume "upstream d ask now servers q = (rsp, None)" "a \<in> set (rs_answers rsp)"
  then show "answer_ok a" using Forwarder_returns[OF assms, of ask now servers q] by (auto simp: upstream_def list_all_iff)
qed

section \<open>What a Vpc learns\<close>

lemma chain_walk_cong: "list_all2 (\<lambda>r r'. r q = r' q) rs rs' \<Longrightarrow> chain_walk rs q = chain_walk rs' q"
  by (induction rs rs' rule: list_all2_induct) (auto split: prod.split)

lemma chain_own:
  assumes "\<And>n m. visible (query_caller q) get n m = visible (query_caller q) get' n m"
    and "own_zones (q_callerVPC q) Z = own_zones (q_callerVPC q) Z'"
    and "own_records (q_callerVPC q) Z R = own_records (q_callerVPC q) Z' R'"
  shows "Chain_Resolve (startDNSService_chain get (cache_of fz fr Z R) shuffle fwd) q
       = Chain_Resolve (startDNSService_chain get' (cache_of fz fr Z' R') shuffle fwd) q"
proof -
  have "visible (query_caller q) get = visible (query_caller q) get'" using assms(1) by blast
  then have "ClusterZone_Resolve z get q = ClusterZone_Resolve z get' q" for z
    using ClusterZone_visible[of z get q] ClusterZone_visible[of z get' q] by simp
  moreover have "CustomZone_Resolve (cache_of fz fr Z R) shuffle q = CustomZone_Resolve (cache_of fz fr Z' R') shuffle q"
    using CustomZone_own[of fz fr Z R shuffle q] CustomZone_own[of fz fr Z' R' shuffle q] assms(2,3) by simp
  ultimately show ?thesis
    by (cases fwd) (auto simp: Chain_Resolve_def startDNSService_chain_def NewChain_def List.map_filter_def split: prod.split)
qed

text \<open>
  C6. A Vpc learns nothing of another through DNS. The packets a query from a Vpc is answered with are the
  same in any two clusters that agree on the Services the Vpc may resolve and on the private zones and
  records of that Vpc, whatever else the clusters hold: Services shared with others only, private zones of
  other Vpcs and their records never show, not even by a different response code.
\<close>

theorem dns_isolation:
  assumes "lookup (tn_vpcID (pr_tenant req)) = (vpc, enabled, consume, True)"
    and "\<And>n m. visible \<lparr>cv_name = vpc, cv_serviceEnabled = enabled, cv_consume = consume\<rparr> get n m
              = visible \<lparr>cv_name = vpc, cv_serviceEnabled = enabled, cv_consume = consume\<rparr> get' n m"
    and "own_zones vpc Z = own_zones vpc Z'"
    and "own_records vpc Z R = own_records vpc Z' R'"
  shows "HandlePacket d h (Some (Chain_Resolve (startDNSService_chain get (cache_of fz fr Z R) shuffle fwd))) lookup write req
       = HandlePacket d h (Some (Chain_Resolve (startDNSService_chain get' (cache_of fz fr Z' R') shuffle fwd))) lookup write req"
proof -
  have "Chain_Resolve (startDNSService_chain get (cache_of fz fr Z R) shuffle fwd) (query_of p vpc enabled consume ip)
      = Chain_Resolve (startDNSService_chain get' (cache_of fz fr Z' R') shuffle fwd) (query_of p vpc enabled consume ip)" for p ip
    by (rule chain_own) (simp_all add: query_of_def query_caller_def assms(2-4))
  then show ?thesis by (simp add: HandlePacket_def assms(1) split: option.split sum.split)
qed

section \<open>The shape of a response\<close>

text \<open>
  A good reply: a response with the id, the operation and the question of the query; records only when the
  whole packet is within the limit, and then all records of the resolver, in their order.
\<close>

definition reply_ok :: "'p dnsmessage \<Rightarrow> handler \<Rightarrow> resolver \<Rightarrow> vpc_lookup \<Rightarrow> packet_request \<Rightarrow> parsed_query \<Rightarrow> u8 list \<Rightarrow> bool" where
  "reply_ok d h resolve lookup req parsed w \<longleftrightarrow>
     (\<exists>m. dm_Pack d m = Some w \<and> dh_response (ms_header m) \<and> dh_id (ms_header m) = pq_id parsed
        \<and> dh_opcode (ms_header m) = pq_opcode parsed \<and> ms_questions m = [pq_question parsed]
        \<and> (ms_answers m \<noteq> [] \<longrightarrow> \<not> dh_truncated (ms_header m) \<and> int (length w) \<le> responseByteLimit h parsed
            \<and> (\<exists>vpc en co rsp. lookup (tn_vpcID (pr_tenant req)) = (vpc, en, co, True)
                 \<and> resolve (query_of parsed vpc en co (pr_clientIP req)) = (rsp, None)
                 \<and> build_all d (rs_answers rsp) = Some (ms_answers m))))"

lemma first_two: "12 \<le> length bs \<Longrightarrow> push_bit 8 (ucast (bs ! 0)) OR ucast (bs ! 1) = (be_word (take 2 bs) :: u16)"
  by (cases bs; cases "tl bs") (auto simp: be_word_def numeral_2_eq_2)

lemma writeRCode_reply:
  "writeRCode d write parsed c = ([], Some PackError) \<or>
     (\<exists>w. writeRCode d write parsed c = ([w], map_option WriteError (write w)) \<and> reply_ok d h resolve lookup req parsed w)"
proof -
  let ?m = "\<lparr>ms_header = \<lparr>dh_id = pq_id parsed, dh_response = True, dh_opcode = pq_opcode parsed, dh_authoritative = False,
    dh_truncated = False, dh_rd = pq_rd parsed, dh_ra = True, dh_rcode = c\<rparr>, ms_questions = [pq_question parsed], ms_answers = []\<rparr>"
  show ?thesis
    by (cases "dm_Pack d ?m") (auto simp: writeRCode_def write_response_def reply_ok_def intro!: exI[of _ ?m])
qed

lemma parsed_reply:
  assumes "parseQuery d (pr_payload req) = Some (Inr parsed)"
  shows "HandlePacket d h (Some resolve) lookup write req = Some ([], Some PackError) \<or>
    (\<exists>w. HandlePacket d h (Some resolve) lookup write req = Some ([w], map_option WriteError (write w))
       \<and> reply_ok d h resolve lookup req parsed w)"
proof -
  obtain vpc en co ok where look: "lookup (tn_vpcID (pr_tenant req)) = (vpc, en, co, ok)" by (metis prod.exhaust)
  obtain rsp err where res: "resolve (query_of parsed vpc en co (pr_clientIP req)) = (rsp, err)" by (rule prod.exhaust)
  show ?thesis
  proof (cases "ok \<and> err = None \<and> encodeResponse d h parsed rsp \<noteq> None")
    case False
    then have "HandlePacket d h (Some resolve) lookup write req = Some (writeRCode d write parsed RCodeServerFailure)"
      using assms look res by (auto simp: HandlePacket_def split: option.split)
    then show ?thesis using writeRCode_reply[of d "write" parsed RCodeServerFailure] by simp
  next
    case True
    then obtain wire where enc: "encodeResponse d h parsed rsp = Some wire" by blast
    then have run: "HandlePacket d h (Some resolve) lookup write req = Some ([wire], map_option WriteError (write wire))"
      using assms look res True by (simp add: HandlePacket_def write_response_def)
    obtain rrs where rrs: "build_all d (rs_answers rsp) = Some rrs" using enc by (auto simp: encodeResponse_def split: option.splits)
    let ?m = "\<lambda>t as. \<lparr>ms_header = response_header parsed rsp t, ms_questions = [pq_question parsed], ms_answers = as\<rparr>"
    have "dm_Pack d (?m False rrs) = Some wire \<and> int (length wire) \<le> responseByteLimit h parsed \<or> dm_Pack d (?m True []) = Some wire"
      using enc rrs by (auto simp: encodeResponse_def split: option.splits if_splits)
    then have "reply_ok d h resolve lookup req parsed wire"
    proof
      assume "dm_Pack d (?m False rrs) = Some wire \<and> int (length wire) \<le> responseByteLimit h parsed"
      then show ?thesis using look res True rrs unfolding reply_ok_def
        by (intro exI[of _ "?m False rrs"]) (auto simp: response_header_def)
    next
      assume "dm_Pack d (?m True []) = Some wire"
      then show ?thesis unfolding reply_ok_def by (intro exI[of _ "?m True []"]) (simp add: response_header_def)
    qed
    then show ?thesis using run by simp
  qed
qed


section \<open>Examples\<close>

text \<open>A codec of twelve-byte headers: one question, one option record, and a packet of the id and a byte per record.\<close>

definition ex_codec :: "nat dnsmessage" where
  "ex_codec = \<lparr>
     dm_Start = (\<lambda>bs. if length bs < 12 then None
        else Some (\<lparr>dh_id = be_word (take 2 bs), dh_response = False, dh_opcode = 0, dh_authoritative = False, dh_truncated = False,
                    dh_rd = True, dh_ra = False, dh_rcode = 0\<rparr>, 1)),
     dm_Question = (\<lambda>p. Some (\<lparr>qu_name = ''db.prod.svc.cluster.local.'', qu_type = TypeA, qu_class = ClassINET\<rparr>, p)),
     dm_SkipAllQuestions = Some, dm_SkipAllAnswers = Some, dm_SkipAllAuthorities = Some,
     dm_AdditionalHeader = (\<lambda>p. if p = 0 then None else Some (\<lparr>rh_name = [], rh_type = TypeOPT, rh_class = 1232, rh_ttl = 0\<rparr>, p)),
     dm_SkipAdditional = (\<lambda>p. if p = 0 then None else Some (p - 1)),
     dm_AnswerHeader = (\<lambda>p. None), dm_SkipAnswer = (\<lambda>p. None), dm_AResource = (\<lambda>p. None), dm_CNAMEResource = (\<lambda>p. None),
     dm_NewName = (\<lambda>s. if length s > 255 then None else Some s),
     dm_Pack = (\<lambda>m. Some (be_bytes 2 (dh_id (ms_header m)) @ replicate (length (ms_answers m)) 0))\<rparr>"

lemma ex_codec_moves: "parser_moves ex_codec (\<lambda>p. p)"
  by (auto simp: parser_moves_def ex_codec_def split: if_splits)

definition ex_request :: packet_request where
  "ex_request = \<lparr>pr_tenant = \<lparr>tn_vpcID = 7, tn_subnetID = 1\<rparr>, pr_clientIP = V4 0x0A000005, pr_payload = replicate 12 0\<rparr>"

definition ex_lookup :: vpc_lookup where
  "ex_lookup vpcID = (if vpcID = 7 then (''a'', True, True, True) else ([], False, False, False))"

definition ex_private :: service where
  "ex_private = \<lparr>sv_annotations = [(AnnotationVpc, ''b'')], sv_type = [], sv_clusterIP = ''10.0.0.9'', sv_clusterIPs = [], sv_externalName = [],
     sv_internalTrafficPolicy = None, sv_sessionAffinity = [], sv_timeoutSeconds = None\<rparr>"

theorem dns_isolation_witness:
  "HandlePacket ex_codec \<lparr>ha_transport = ResponseUDP, ha_maxResponseBytes = 0\<rparr>
      (Some (Chain_Resolve (startDNSService_chain (\<lambda>n m. if n = ''prod'' then Found ex_private else NotFoundErr)
         (cache_of (\<lambda>_. None) (\<lambda>_. None) [demo_zone ''z'' ''b'' ''corp''] []) (rand_shuffle (\<lambda>_. 0)) None))) ex_lookup (\<lambda>_. None) ex_request
   = HandlePacket ex_codec \<lparr>ha_transport = ResponseUDP, ha_maxResponseBytes = 0\<rparr>
      (Some (Chain_Resolve (startDNSService_chain (\<lambda>n m. NotFoundErr)
         (cache_of (\<lambda>_. None) (\<lambda>_. None) [] []) (rand_shuffle (\<lambda>_. 0)) None))) ex_lookup (\<lambda>_. None) ex_request"
  by (rule dns_isolation[where vpc = "''a''" and enabled = True and consume = True])
    (simp_all add: ex_lookup_def ex_request_def visible_def ex_private_def ResolvableFrom_def OwningVpc_def IsShared_def AnnotationVpc_def
      AnnotationShared_def own_zones_def own_records_def demo_zone_def)


section \<open>Framing over TCP\<close>

text \<open>The messages a client reads off a connection.\<close>

function frames :: "u8 list \<Rightarrow> u8 list list" where
  "frames conn = (case readDNSMessage conn 65535 of Inl _ \<Rightarrow> [] | Inr (body, rest) \<Rightarrow> body # frames rest)"
  by pat_completeness auto
termination
proof (relation "measure length")
qed (auto simp: readDNSMessage_def Let_def split: if_splits)

lemma read_write [simp]:
  assumes "body \<noteq> []" "length body \<le> 65535"
  shows "readDNSMessage (writeDNSMessage body @ rest) 65535 = Inr (body, rest)"
proof -
  have "unat (of_nat (length body) :: u16) = length body" using assms(2) by (simp add: unat_of_nat)
  then show ?thesis using assms by (simp add: readDNSMessage_def writeDNSMessage_def Let_def)
qed

declare frames.simps [simp del] handleConn.simps [simp del]

lemma frames_write: "\<forall>b \<in> set bodies. b \<noteq> [] \<and> length b \<le> 65535 \<Longrightarrow> frames (concat (map writeDNSMessage bodies)) = bodies"
proof (induction bodies)
  case Nil
  show ?case by (simp add: frames.simps readDNSMessage_def)
next
  case (Cons b bodies)
  then show ?case by (subst frames.simps) simp
qed

text \<open>
  C35. A client that sends its queries back to back over one TCP connection gets their answers back in the
  same order. Whatever the queries are, each of one to 65535 bytes, and whatever each resolves to, the
  messages read off what the daemon sends are exactly the responses of the queries, one each.
\<close>

theorem tcp_answers_in_order:
  assumes "\<forall>q \<in> set queries. q \<noteq> [] \<and> length q \<le> 65535"
    and "\<forall>q \<in> set queries. resolveOnce d resolver lookup tnt ip q = Some (Some (answer_to q)) \<and> length (answer_to q) \<le> 65535"
  shows "\<exists>out. handleConn d resolver lookup tnt ip 65535 (concat (map writeDNSMessage queries)) = Some out
           \<and> frames out = map answer_to queries"
proof -
  have "handleConn d resolver lookup tnt ip 65535 (concat (map writeDNSMessage queries)) = Some (concat (map (\<lambda>q. writeDNSMessage (answer_to q)) queries))"
    using assms
  proof (induction queries)
    case Nil
    show ?case by (simp add: handleConn.simps readDNSMessage_def)
  next
    case (Cons q queries)
    then show ?case by (subst handleConn.simps) simp
  qed
  moreover have "answer_to q \<noteq> []" if "q \<in> set queries" for q
    using assms(2) that by (fastforce simp: resolveOnce_def split: if_splits)
  ultimately show ?thesis using frames_write[of "map answer_to queries"] assms(2) by (simp add: comp_def)
qed

theorem tcp_answers_in_order_witness:
  "\<exists>out. handleConn ex_codec (Some (\<lambda>q. (resp RCodeNXDomain True, None))) ex_lookup (pr_tenant ex_request) (V4 1) 65535
       (concat (map writeDNSMessage [replicate 12 0, replicate 12 1])) = Some out
     \<and> frames out = [[0, 0], [1, 1]]"
proof -
  have "opt_scan ex_codec 0 b = Some b" for b by (simp add: opt_scan.simps ex_codec_def)
  then have scan: "opt_scan ex_codec (Suc 0) b = Some 1232" for b
    by (subst opt_scan.simps) (simp add: ex_codec_def word_less_nat_alt)
  have parse: "\<exists>p. parseQuery ex_codec q = Some (Inr p) \<and> pq_id p = be_word (take 2 q)" if "length q = 12" for q
    using that scan[of 0] by (simp add: parseQuery_def) (simp add: ex_codec_def)
  have once: "resolveOnce ex_codec (Some (\<lambda>q. (resp RCodeNXDomain True, None))) ex_lookup (pr_tenant ex_request) (V4 1) q
      = Some (Some (be_bytes 2 (be_word (take 2 q) :: u16)))" if q: "length q = 12" for q
  proof -
    obtain p where p: "parseQuery ex_codec q = Some (Inr p)" "pq_id p = be_word (take 2 q)" using parse[OF q] by blast
    have "encodeResponse ex_codec \<lparr>ha_transport = ResponseTCP, ha_maxResponseBytes = 0\<rparr> p (resp RCodeNXDomain True) = Some (be_bytes 2 (be_word (take 2 q) :: u16))"
      using p(2) by (simp add: encodeResponse_def responseByteLimit_def response_header_def ex_codec_def)
    then show ?thesis using p(1) length_be_bytes[of 2 "be_word (take 2 q) :: u16"]
      by (auto simp: resolveOnce_def HandlePacket_def ex_request_def ex_lookup_def write_response_def simp del: length_be_bytes)
  qed
  have "be_bytes 2 (be_word (take 2 (replicate 12 0)) :: u16) = [0, 0]" "be_bytes 2 (be_word (take 2 (replicate 12 1)) :: u16) = [1, 1]"
    by (simp_all add: be_bytes_be_word) (simp_all add: numeral_2_eq_2)
  then show ?thesis
    using tcp_answers_in_order[where queries = "[replicate 12 0, replicate 12 1]" and d = ex_codec
        and resolver = "Some (\<lambda>q. (resp RCodeNXDomain True, None))" and lookup = ex_lookup and tnt = "pr_tenant ex_request" and ip = "V4 1"
        and answer_to = "\<lambda>q. be_bytes 2 (be_word (take 2 q) :: u16)"] once
    by simp
qed

section \<open>The answers of a daemon\<close>

lemma daemon_chain_answering:
  assumes "parser_moves d left"
  shows "answering (Chain_Resolve (startDNSService_chain get cache (rand_shuffle draw) (Some (upstream d ask now servers))))"
  by (rule answering_chain)
    (auto simp: startDNSService_chain_def NewChain_def List.map_filter_def intro: cluster.answering_axioms custom.answering_axioms upstream_answering[OF assms])

text \<open>
  C34. Whatever a name resolves to, through the cluster zone, a private zone or an upstream server, every
  answer is of class IN and is an IPv4 address or a canonical name, so that the encoder has a body for it: a
  response is never lost to an answer it cannot write, only to a name that is too long.
\<close>

theorem dns_answers_typed:
  assumes "parser_moves d left"
    and "Chain_Resolve (startDNSService_chain get cache (rand_shuffle draw) (Some (upstream d ask now servers))) q = (rsp, None)"
    and "a \<in> set (rs_answers rsp)"
  shows "an_class a = ClassINET \<and> (an_type a = TypeA \<and> Is4 (an_a a) \<or> an_type a = TypeCNAME)
    \<and> (buildResource d a = None \<longleftrightarrow> dm_NewName d (an_name a) = None \<or> (an_type a = TypeCNAME \<and> dm_NewName d (an_cname a) = None))"
proof -
  have "answer_ok a" using answering.answers_ok[OF daemon_chain_answering[OF assms(1)] assms(2,3)] .
  then show ?thesis by (auto simp: answer_ok_def buildResource_def Let_def TypeA_def TypeCNAME_def split: option.split)
qed

theorem dns_answers_typed_witness:
  "\<exists>rsp a. Chain_Resolve (startDNSService_chain (\<lambda>n m. Found ex_private) (cache_of (\<lambda>_. None) (\<lambda>_. None) [] []) (rand_shuffle (\<lambda>_. 0))
        (Some (upstream ex_codec (\<lambda>_ _. Inl ''down'') 0 [])))
      \<lparr>q_name = ''db.prod.svc.cluster.local.'', q_type = TypeA, q_class = ClassINET, q_callerVPC = ''b'', q_callerServiceEnabled = True,
       q_callerConsume = False, q_callerIP = AddrZero\<rparr> = (rsp, None)
    \<and> a \<in> set (rs_answers rsp) \<and> an_class a = ClassINET \<and> (an_type a = TypeA \<and> Is4 (an_a a) \<or> an_type a = TypeCNAME)"
proof -
  let ?q = "\<lparr>q_name = ''db.prod.svc.cluster.local.'', q_type = TypeA, q_class = ClassINET, q_callerVPC = ''b'', q_callerServiceEnabled = True,
       q_callerConsume = False, q_callerIP = AddrZero\<rparr>"
  let ?C = "Chain_Resolve (startDNSService_chain (\<lambda>n m. Found ex_private) (cache_of (\<lambda>_. None) (\<lambda>_. None) [] []) (rand_shuffle (\<lambda>_. 0))
        (Some (upstream ex_codec (\<lambda>_ _. Inl ''down'') 0 [])))"
  have "ClusterZone_Resolve (NewClusterZone DefaultClusterDomain 30) (\<lambda>n m. Found ex_private) ?q
    = (\<lparr>rs_rcode = RCodeNoError, rs_answers = [a_answer ?q 30 (V4 0x0A000009)], rs_authoritative = True\<rparr>, None)"
    by code_simp
  then have run: "?C ?q = (\<lparr>rs_rcode = RCodeNoError, rs_answers = [a_answer ?q 30 (V4 0x0A000009)], rs_authoritative = True\<rparr>, None)"
    by (simp add: Chain_Resolve_def startDNSService_chain_def NewChain_def List.map_filter_def)
  show ?thesis using dns_answers_typed[OF ex_codec_moves run, of "a_answer ?q 30 (V4 0x0A000009)"] run by auto
qed

end
