(* ===== verification/VirtRegistry.thy ===== *)
theory VirtRegistry
  imports PacketPlane DnsHandler
begin

text \<open>
  The registry of virtual services (\<open>virtservice/registry.go\<close>): it programs the classifier's map, binds the
  dispatcher and, for TCP, brings up the virtual address in the user-space network stack, and it answers for
  a handler by building the response frame. The kernel map, the network stack and the socket are parameters.
  One call runs at a time, as the one worker of the DNS service makes them.
\<close>

section \<open>Specifications (types.go)\<close>

definition ProtocolUDP :: u8 where "ProtocolUDP = 17"
definition ProtocolTCP :: u8 where "ProtocolTCP = 6"
definition ServiceIDDNS :: u32 where "ServiceIDDNS = 1"

record virtual_addr =
  va_ip :: addr
  va_port :: u16
  va_proto :: u8

record service_spec =
  ss_id :: u32
  ss_tenant :: tenant
  ss_addr :: virtual_addr
  ss_mac :: mac

section \<open>The registry\<close>

text \<open>The network stack: bringing up and removing a virtual address, listening, and closing a listener.\<close>

record ('s, 'l) netstack =
  ns_EnsureNIC :: "u32 \<Rightarrow> addr \<Rightarrow> ('s, string, unit) api"
  ns_RemoveVIP :: "u32 \<Rightarrow> addr \<Rightarrow> ('s, string, unit) api"
  ns_ListenTCP :: "u32 \<Rightarrow> addr \<Rightarrow> u16 \<Rightarrow> ('s, string, 'l) api"
  ns_Close :: "'l \<Rightarrow> 's \<Rightarrow> 's"

type_synonym binding_key = "tenant \<times> virtual_addr"

record ('h, 'l) binding =
  bd_spec :: service_spec
  bd_handler :: "'h option"
  bd_bpfKey :: virtual_service_key
  bd_listener :: "'l option"
  bd_isTCP :: bool

record ('h, 'l) registry =
  rg_dispatcher :: "(service_spec \<times> 'h, service_spec) dispatcher"
  rg_bindings :: "(binding_key, ('h, 'l) binding) gomap"

definition NewRegistry :: "('h, 'l) registry" where
  "NewRegistry = \<lparr>rg_dispatcher = NewDispatcher, rg_bindings = []\<rparr>"

datatype registry_error = NilPacketHandler | WrongProtocol | NotIPv4Address | BadMAC | NoNetstack | AlreadyRegistered | ProgramMap ebpf_error
  | RegisterDispatcher dispatcher_error | EnsureNICFailed string | ListenFailed string | DeleteMap ebpf_error

definition htonsU16 :: "u16 \<Rightarrow> u16" where
  "htonsU16 v = (push_bit 8 v AND 0xff00) OR drop_bit 8 v"

definition networkOrderIP :: "addr \<Rightarrow> u32" where
  "networkOrderIP a = (if \<not> Is4 a then 0 else le_word (As4 a))"

definition bpf_key :: "service_spec \<Rightarrow> virtual_service_key" where
  "bpf_key spec = \<lparr>vk_subnetID = tn_subnetID (ss_tenant spec), vk_dstIP = le_bytes 4 (networkOrderIP (va_ip (ss_addr spec))),
     vk_dstPort = le_bytes 2 (htonsU16 (va_port (ss_addr spec))), vk_proto = va_proto (ss_addr spec)\<rparr>"

definition bpf_val :: "u32 \<Rightarrow> service_spec \<Rightarrow> virtual_service_val" where
  "bpf_val tap spec = \<lparr>vv_serviceID = ss_id spec, vv_tapIfindex = tap, vv_serviceMAC = ss_mac spec\<rparr>"

definition dispatcher_key :: "service_spec \<Rightarrow> handler_key" where
  "dispatcher_key spec = \<lparr>hk_subnetID = tn_subnetID (ss_tenant spec), hk_dstIP = va_ip (ss_addr spec), hk_dstPort = va_port (ss_addr spec), hk_proto = va_proto (ss_addr spec)\<rparr>"

definition binding_key :: "service_spec \<Rightarrow> binding_key" where
  "binding_key spec = (ss_tenant spec, ss_addr spec)"

type_synonym ('h, 'l, 's, 'a) registry_call = "('h, 'l) registry \<times> 's \<Rightarrow> (registry_error + 'a) \<times> ('h, 'l) registry \<times> 's"

definition RegisterUDPHandler ::
  "('s, virtual_service_key, virtual_service_val) hash_map \<Rightarrow> u32 \<Rightarrow> service_spec \<Rightarrow> 'h option \<Rightarrow> ('h, 'l, 's, binding_key) registry_call" where
  "RegisterUDPHandler m tap spec handler = (\<lambda>(rg, s).
     case handler of
       None \<Rightarrow> (Inl NilPacketHandler, rg, s)
     | Some h \<Rightarrow>
         if va_proto (ss_addr spec) \<noteq> ProtocolUDP then (Inl WrongProtocol, rg, s)
         else if \<not> Is4 (va_ip (ss_addr spec)) then (Inl NotIPv4Address, rg, s)
         else if length (ss_mac spec) \<noteq> 6 then (Inl BadMAC, rg, s)
         else if map_of (rg_bindings rg) (binding_key spec) \<noteq> None then (Inl AlreadyRegistered, rg, s)
         else case hm_update m (bpf_key spec) (bpf_val tap spec) s of
           (Inl e, s) \<Rightarrow> (Inl (ProgramMap e), rg, s)
         | (Inr _, s) \<Rightarrow>
             (case RegisterUDP (dispatcher_key spec) (Some (spec, h)) (rg_dispatcher rg) of
                Inl e \<Rightarrow> (Inl (RegisterDispatcher e), rg, snd (hm_delete m (bpf_key spec) s))
              | Inr d \<Rightarrow>
                  (Inr (binding_key spec),
                   rg\<lparr>rg_dispatcher := d,
                      rg_bindings := AList.update (binding_key spec)
                        \<lparr>bd_spec = spec, bd_handler = Some h, bd_bpfKey = bpf_key spec, bd_listener = None, bd_isTCP = False\<rparr> (rg_bindings rg)\<rparr>, s)))"

definition ListenTCP ::
  "('s, virtual_service_key, virtual_service_val) hash_map \<Rightarrow> u32 \<Rightarrow> ('s, 'l) netstack option \<Rightarrow> service_spec \<Rightarrow> ('h, 'l, 's, 'l \<times> binding_key) registry_call" where
  "ListenTCP m tap netstack spec = (\<lambda>(rg, s).
     if va_proto (ss_addr spec) \<noteq> ProtocolTCP then (Inl WrongProtocol, rg, s)
     else if \<not> Is4 (va_ip (ss_addr spec)) then (Inl NotIPv4Address, rg, s)
     else if length (ss_mac spec) \<noteq> 6 then (Inl BadMAC, rg, s)
     else case netstack of
       None \<Rightarrow> (Inl NoNetstack, rg, s)
     | Some ns \<Rightarrow>
         if map_of (rg_bindings rg) (binding_key spec) \<noteq> None then (Inl AlreadyRegistered, rg, s)
         else let vpc = tn_vpcID (ss_tenant spec); vip = va_ip (ss_addr spec)
           in case ns_EnsureNIC ns vpc vip s of
                (Inl e, s) \<Rightarrow> (Inl (EnsureNICFailed e), rg, s)
              | (Inr _, s) \<Rightarrow>
                  (case ns_ListenTCP ns vpc vip (va_port (ss_addr spec)) s of
                     (Inl e, s) \<Rightarrow> (Inl (ListenFailed e), rg, snd (ns_RemoveVIP ns vpc vip s))
                   | (Inr listener, s) \<Rightarrow>
                       (case hm_update m (bpf_key spec) (bpf_val tap spec) s of
                          (Inl e, s) \<Rightarrow> (Inl (ProgramMap e), rg, snd (ns_RemoveVIP ns vpc vip (ns_Close ns listener s)))
                        | (Inr _, s) \<Rightarrow>
                            (case RegisterTCP (dispatcher_key spec) (Some spec) (rg_dispatcher rg) of
                               Inl e \<Rightarrow> (Inl (RegisterDispatcher e), rg,
                                 snd (ns_RemoveVIP ns vpc vip (ns_Close ns listener (snd (hm_delete m (bpf_key spec) s)))))
                             | Inr d \<Rightarrow>
                                 (Inr (listener, binding_key spec),
                                  rg\<lparr>rg_dispatcher := d,
                                     rg_bindings := AList.update (binding_key spec)
                                       \<lparr>bd_spec = spec, bd_handler = None, bd_bpfKey = bpf_key spec, bd_listener = Some listener, bd_isTCP = True\<rparr>
                                       (rg_bindings rg)\<rparr>, s)))))"

definition unregister ::
  "('s, virtual_service_key, virtual_service_val) hash_map \<Rightarrow> ('s, 'l) netstack option \<Rightarrow> binding_key \<Rightarrow> ('h, 'l, 's, unit) registry_call" where
  "unregister m netstack key = (\<lambda>(rg, s).
     case map_of (rg_bindings rg) key of
       None \<Rightarrow> (Inr (), rg, s)
     | Some b \<Rightarrow>
         let dkey = dispatcher_key (bd_spec b);
             rg' = rg\<lparr>rg_bindings := AList.delete key (rg_bindings rg),
                      rg_dispatcher := (if bd_isTCP b then UnregisterTCP dkey (rg_dispatcher rg) else UnregisterUDP dkey (rg_dispatcher rg))\<rparr>;
             tear = (\<lambda>s. if bd_isTCP b
                then let s = (case (netstack, bd_listener b) of (Some ns, Some l) \<Rightarrow> ns_Close ns l s | _ \<Rightarrow> s)
                  in (case netstack of None \<Rightarrow> s | Some ns \<Rightarrow> snd (ns_RemoveVIP ns (tn_vpcID (ss_tenant (bd_spec b))) (va_ip (ss_addr (bd_spec b))) s))
                else s)
         in case hm_delete m (bd_bpfKey b) s of
              (Inl e, s) \<Rightarrow> (if e \<noteq> KeyNotExist then (Inl (DeleteMap e), rg', s) else (Inr (), rg', tear s))
            | (Inr _, s) \<Rightarrow> (Inr (), rg', tear s))"

section \<open>Answering a datagram\<close>

text \<open>The responder of a flow: build the frame and send it to the Pod's port. The error is its text.\<close>

definition WriteResponse :: "(int \<Rightarrow> mac \<Rightarrow> u8 list \<Rightarrow> string option) \<Rightarrow> flow \<Rightarrow> responder" where
  "WriteResponse send fl payload =
     (case BuildUDPResponse fl payload of
        Inl e \<Rightarrow> Some ''packetplane: BuildUDPResponse''
      | Inr frame \<Rightarrow> send (fl_podIfindex fl) (fl_podMAC fl) frame)"

definition udp_request :: "service_spec \<Rightarrow> flow \<Rightarrow> u8 list \<Rightarrow> packet_request" where
  "udp_request spec fl payload = \<lparr>pr_tenant = ss_tenant spec, pr_clientIP = fl_clientIP fl, pr_payload = payload\<rparr>"

section \<open>Every binding is served\<close>

lemma htonsU16_bytes: "le_bytes 2 (htonsU16 v) = be_bytes 2 v"
  using htons_bytes[of v] by (simp add: htonsU16_def htons_def)

lemma networkOrder_bytes: "Is4 a \<Longrightarrow> le_bytes 4 (networkOrderIP a) = As4 a"
  by (simp add: networkOrderIP_def le_bytes_le_word)

lemma As4_inject: "Is4 a \<Longrightarrow> Is4 b \<Longrightarrow> As4 a = As4 b \<longleftrightarrow> a = b"
  by (metis AddrFrom4_As4)

lemma be2_inject: "be_bytes 2 (v :: u16) = be_bytes 2 w \<longleftrightarrow> v = w"
proof
  assume "be_bytes 2 v = be_bytes 2 w"
  then have "(be_word (be_bytes 2 v) :: u16) = be_word (be_bytes 2 w)" by simp
  then show "v = w" by simp
qed simp

lemma key_inject:
  assumes "Is4 (va_ip (ss_addr a))" "Is4 (va_ip (ss_addr b))"
  shows "bpf_key a = bpf_key b \<longleftrightarrow> dispatcher_key a = dispatcher_key b"
  using assms by (auto simp: bpf_key_def dispatcher_key_def htonsU16_bytes networkOrder_bytes As4_inject be2_inject)

text \<open>
  Everything a binding needs is in place: the classifier's map has its entry and the dispatcher its handler;
  and the dispatcher has no handler without a binding. Every subnet belongs to one Vpc.
\<close>

definition binding_ok :: "(virtual_service_key \<Rightarrow> virtual_service_val option) \<Rightarrow> u32 \<Rightarrow> (service_spec \<times> 'h, service_spec) dispatcher \<Rightarrow> ('h, 'l) binding \<Rightarrow> bool" where
  "binding_ok view tap d b \<longleftrightarrow>
     view (bpf_key (bd_spec b)) = Some (bpf_val tap (bd_spec b))
     \<and> (if bd_isTCP b then map_of (ds_tcpHandlers d) (dispatcher_key (bd_spec b)) = Some (bd_spec b)
        else \<exists>h. bd_handler b = Some h \<and> map_of (ds_handlers d) (dispatcher_key (bd_spec b)) = Some (bd_spec b, h))"

definition binding_wf :: "(u32 \<Rightarrow> u32) \<Rightarrow> binding_key \<Rightarrow> ('h, 'l) binding \<Rightarrow> bool" where
  "binding_wf vpc_of key b \<longleftrightarrow> key = binding_key (bd_spec b) \<and> bd_bpfKey b = bpf_key (bd_spec b) \<and> Is4 (va_ip (ss_addr (bd_spec b)))
     \<and> tn_vpcID (ss_tenant (bd_spec b)) = vpc_of (tn_subnetID (ss_tenant (bd_spec b)))
     \<and> va_proto (ss_addr (bd_spec b)) = (if bd_isTCP b then ProtocolTCP else ProtocolUDP)"

definition registry_ok :: "(u32 \<Rightarrow> u32) \<Rightarrow> (virtual_service_key \<Rightarrow> virtual_service_val option) \<Rightarrow> u32 \<Rightarrow> ('h, 'l) registry \<Rightarrow> bool" where
  "registry_ok vpc_of view tap rg \<longleftrightarrow>
     (\<forall>key b. map_of (rg_bindings rg) key = Some b \<longrightarrow> binding_wf vpc_of key b \<and> binding_ok view tap (rg_dispatcher rg) b)
   \<and> (\<forall>k spec h. map_of (ds_handlers (rg_dispatcher rg)) k = Some (spec, h) \<longrightarrow>
        k = dispatcher_key spec \<and> (\<exists>b. map_of (rg_bindings rg) (binding_key spec) = Some b \<and> bd_spec b = spec \<and> \<not> bd_isTCP b))
   \<and> (\<forall>k spec. map_of (ds_tcpHandlers (rg_dispatcher rg)) k = Some spec \<longrightarrow>
        k = dispatcher_key spec \<and> (\<exists>b. map_of (rg_bindings rg) (binding_key spec) = Some b \<and> bd_spec b = spec \<and> bd_isTCP b))"

definition spec_wf :: "(u32 \<Rightarrow> u32) \<Rightarrow> service_spec \<Rightarrow> bool" where
  "spec_wf vpc_of spec \<longleftrightarrow> tn_vpcID (ss_tenant spec) = vpc_of (tn_subnetID (ss_tenant spec))"

lemma tenant_eq: "tn_vpcID t = tn_vpcID u \<Longrightarrow> tn_subnetID t = tn_subnetID u \<Longrightarrow> (t :: tenant) = u"
  by (cases t; cases u) simp

lemma addr_eq: "va_ip a = va_ip b \<Longrightarrow> va_port a = va_port b \<Longrightarrow> va_proto a = va_proto b \<Longrightarrow> (a :: virtual_addr) = b"
  by (cases a; cases b) simp

lemma dispatcher_binding:
  assumes "spec_wf vpc_of a" "spec_wf vpc_of b"
  shows "dispatcher_key a = dispatcher_key b \<longleftrightarrow> binding_key a = binding_key b"
  using assms by (auto simp: dispatcher_key_def binding_key_def spec_wf_def intro!: tenant_eq addr_eq)

lemma wf_spec: "binding_wf vpc_of key b \<Longrightarrow> spec_wf vpc_of (bd_spec b)"
  by (simp add: binding_wf_def spec_wf_def)

lemma registry_binding:
  "registry_ok vpc_of view tap rg \<Longrightarrow> map_of (rg_bindings rg) key = Some b \<Longrightarrow> binding_wf vpc_of key b \<and> binding_ok view tap (rg_dispatcher rg) b"
  unfolding registry_ok_def by blast

lemma registry_udp:
  "registry_ok vpc_of view tap rg \<Longrightarrow> map_of (ds_handlers (rg_dispatcher rg)) k = Some (spec, h) \<Longrightarrow>
     k = dispatcher_key spec \<and> (\<exists>b. map_of (rg_bindings rg) (binding_key spec) = Some b \<and> bd_spec b = spec \<and> \<not> bd_isTCP b)"
  unfolding registry_ok_def by blast

lemma registry_tcp:
  "registry_ok vpc_of view tap rg \<Longrightarrow> map_of (ds_tcpHandlers (rg_dispatcher rg)) k = Some spec \<Longrightarrow>
     k = dispatcher_key spec \<and> (\<exists>b. map_of (rg_bindings rg) (binding_key spec) = Some b \<and> bd_spec b = spec \<and> bd_isTCP b)"
  unfolding registry_ok_def by blast

lemma other_binding:
  assumes "registry_ok vpc_of view tap rg" "map_of (rg_bindings rg) key = Some b" "spec_wf vpc_of spec" "Is4 (va_ip (ss_addr spec))" "key \<noteq> binding_key spec"
  shows "bpf_key (bd_spec b) \<noteq> bpf_key spec" "dispatcher_key (bd_spec b) \<noteq> dispatcher_key spec"
proof -
  have wf: "binding_wf vpc_of key b" using registry_binding[OF assms(1,2)] by blast
  then show d: "dispatcher_key (bd_spec b) \<noteq> dispatcher_key spec"
    using dispatcher_binding[OF wf_spec[OF wf] assms(3)] assms(5) by (auto simp: binding_wf_def)
  show "bpf_key (bd_spec b) \<noteq> bpf_key spec" using key_inject[OF _ assms(4)] wf d by (auto simp: binding_wf_def)
qed

lemma free_key:
  assumes "registry_ok vpc_of view tap rg" "map_of (rg_bindings rg) (binding_key spec) = None" "spec_wf vpc_of spec" "Is4 (va_ip (ss_addr spec))"
  shows "map_of (ds_handlers (rg_dispatcher rg)) (dispatcher_key spec) = None" "map_of (ds_tcpHandlers (rg_dispatcher rg)) (dispatcher_key spec) = None"
proof -
  have "binding_key a = binding_key spec" if "map_of (rg_bindings rg) (binding_key a) = Some b" "bd_spec b = a" "dispatcher_key spec = dispatcher_key a" for a b
    using other_binding(2)[OF assms(1) that(1) assms(3,4)] that(2,3) by metis
  then show "map_of (ds_handlers (rg_dispatcher rg)) (dispatcher_key spec) = None" "map_of (ds_tcpHandlers (rg_dispatcher rg)) (dispatcher_key spec) = None"
    using registry_udp[OF assms(1), of "dispatcher_key spec"] registry_tcp[OF assms(1), of "dispatcher_key spec"] assms(2)
    by (metis not_None_eq option.distinct(1) prod.exhaust)+
qed

lemma binding_ok_other:
  assumes "binding_ok view tap d b" "view' (bpf_key (bd_spec b)) = view (bpf_key (bd_spec b))"
    and "map_of (ds_handlers d') (dispatcher_key (bd_spec b)) = map_of (ds_handlers d) (dispatcher_key (bd_spec b))"
    and "map_of (ds_tcpHandlers d') (dispatcher_key (bd_spec b)) = map_of (ds_tcpHandlers d) (dispatcher_key (bd_spec b))"
  shows "binding_ok view' tap d' b"
  using assms by (simp add: binding_ok_def)

lemma registry_add:
  assumes ok: "registry_ok vpc_of view tap rg"
    and free: "map_of (rg_bindings rg) (binding_key (bd_spec b)) = None" and wf: "binding_wf vpc_of (binding_key (bd_spec b)) b"
    and d: "if bd_isTCP b then d' = rg_dispatcher rg\<lparr>ds_tcpHandlers := AList.update (dispatcher_key (bd_spec b)) (bd_spec b) (ds_tcpHandlers (rg_dispatcher rg))\<rparr>
            else \<exists>h. bd_handler b = Some h \<and> d' = rg_dispatcher rg\<lparr>ds_handlers := AList.update (dispatcher_key (bd_spec b)) (bd_spec b, h) (ds_handlers (rg_dispatcher rg))\<rparr>"
  shows "registry_ok vpc_of (view(bpf_key (bd_spec b) \<mapsto> bpf_val tap (bd_spec b))) tap
    (rg\<lparr>rg_dispatcher := d', rg_bindings := AList.update (binding_key (bd_spec b)) b (rg_bindings rg)\<rparr>)"
proof -
  have v4: "Is4 (va_ip (ss_addr (bd_spec b)))" using wf by (simp add: binding_wf_def)
  note spec = wf_spec[OF wf]
  have old: "binding_wf vpc_of key c \<and> binding_ok (view(bpf_key (bd_spec b) \<mapsto> bpf_val tap (bd_spec b))) tap d' c"
    if "map_of (rg_bindings rg) key = Some c" for key c
  proof -
    have "key \<noteq> binding_key (bd_spec b)" using that free by auto
    note other = other_binding[OF ok that spec v4 this]
    show ?thesis using registry_binding[OF ok that] other d
      by (auto intro!: binding_ok_other[where view = view and d = "rg_dispatcher rg"] simp: update_conv' split: if_splits)
  qed
  have new: "binding_ok (view(bpf_key (bd_spec b) \<mapsto> bpf_val tap (bd_spec b))) tap d' b"
    using d by (auto simp: binding_ok_def update_conv' split: if_splits)
  have udp: "k = dispatcher_key s \<and> (s = bd_spec b \<and> \<not> bd_isTCP b \<or> (\<exists>c. map_of (rg_bindings rg) (binding_key s) = Some c \<and> bd_spec c = s \<and> \<not> bd_isTCP c))"
    if "map_of (ds_handlers d') k = Some (s, h)" for k s h
    using that d registry_udp[OF ok, of k s h] by (auto simp: update_conv' split: if_splits)
  have tcp: "k = dispatcher_key s \<and> (s = bd_spec b \<and> bd_isTCP b \<or> (\<exists>c. map_of (rg_bindings rg) (binding_key s) = Some c \<and> bd_spec c = s \<and> bd_isTCP c))"
    if "map_of (ds_tcpHandlers d') k = Some s" for k s
    using that d registry_tcp[OF ok, of k s] by (auto simp: update_conv' split: if_splits)
  show ?thesis unfolding registry_ok_def using old new wf free by (auto simp: update_conv' dest!: udp tcp)
qed

lemma registry_remove:
  assumes ok: "registry_ok vpc_of view tap rg" and b: "map_of (rg_bindings rg) key = Some b"
    and d: "d' = (if bd_isTCP b then UnregisterTCP (dispatcher_key (bd_spec b)) (rg_dispatcher rg) else UnregisterUDP (dispatcher_key (bd_spec b)) (rg_dispatcher rg))"
    and view: "\<And>k. k \<noteq> bpf_key (bd_spec b) \<Longrightarrow> view' k = view k"
  shows "registry_ok vpc_of view' tap (rg\<lparr>rg_bindings := AList.delete key (rg_bindings rg), rg_dispatcher := d'\<rparr>)"
proof -
  have wf: "binding_wf vpc_of key b" using registry_binding[OF ok b] by blast
  then have key: "key = binding_key (bd_spec b)" and v4: "Is4 (va_ip (ss_addr (bd_spec b)))" by (simp_all add: binding_wf_def)
  have old: "binding_wf vpc_of key' c \<and> binding_ok view' tap d' c" if "map_of (rg_bindings rg) key' = Some c" "key' \<noteq> key" for key' c
  proof -
    note other = other_binding[OF ok that(1) wf_spec[OF wf] v4 that(2)[unfolded key]]
    show ?thesis using registry_binding[OF ok that(1)] other view d
      by (auto intro!: binding_ok_other[where view = view and d = "rg_dispatcher rg"] simp: UnregisterTCP_def UnregisterUDP_def delete_conv')
  qed
  have same: "dispatcher_key s = dispatcher_key (bd_spec b)" if "binding_key s = key" for s
    using that unfolding key by (simp add: binding_key_def dispatcher_key_def)
  have udp: "k = dispatcher_key s \<and> (\<exists>c. map_of (rg_bindings rg) (binding_key s) = Some c \<and> bd_spec c = s \<and> \<not> bd_isTCP c) \<and> binding_key s \<noteq> key"
    if "map_of (ds_handlers d') k = Some (s, h)" for k s h
    using that d registry_udp[OF ok, of k s h] same[of s] b
    by (auto simp: UnregisterTCP_def UnregisterUDP_def delete_conv' split: if_splits)
  have tcp: "k = dispatcher_key s \<and> (\<exists>c. map_of (rg_bindings rg) (binding_key s) = Some c \<and> bd_spec c = s \<and> bd_isTCP c) \<and> binding_key s \<noteq> key"
    if "map_of (ds_tcpHandlers d') k = Some s" for k s
    using that d registry_tcp[OF ok, of k s] same[of s] b
    by (auto simp: UnregisterTCP_def UnregisterUDP_def delete_conv' split: if_splits)
  show ?thesis unfolding registry_ok_def using old by (auto simp: delete_conv' dest!: udp tcp split: if_splits)
qed

text \<open>The network stack does not touch the classifier's map.\<close>

definition netstack_apart :: "('s, 'k, 'v) hash_map \<Rightarrow> ('s, 'l) netstack \<Rightarrow> bool" where
  "netstack_apart m ns \<longleftrightarrow> (\<forall>vpc ip port l s.
     hm_view m (snd (ns_EnsureNIC ns vpc ip s)) = hm_view m s \<and> hm_view m (snd (ns_RemoveVIP ns vpc ip s)) = hm_view m s
   \<and> hm_view m (snd (ns_ListenTCP ns vpc ip port s)) = hm_view m s \<and> hm_view m (ns_Close ns l s) = hm_view m s)"

lemma netstack_view:
  assumes "netstack_apart m ns"
  shows "ns_EnsureNIC ns vpc ip s = (r, s') \<Longrightarrow> hm_view m s' = hm_view m s" "ns_ListenTCP ns vpc ip port s = (r', s') \<Longrightarrow> hm_view m s' = hm_view m s"
    "hm_view m (snd (ns_RemoveVIP ns vpc ip s)) = hm_view m s" "hm_view m (ns_Close ns l s) = hm_view m s"
  using assms unfolding netstack_apart_def by (metis snd_conv)+

lemma RegisterUDPHandler_ok:
  assumes m: "hash_map_ok m" and ok: "registry_ok vpc_of (hm_view m s) tap rg" and wf: "spec_wf vpc_of spec"
    and run: "RegisterUDPHandler m tap spec handler (rg, s) = (r, rg', s')"
  shows "registry_ok vpc_of (hm_view m s') tap rg' \<and> (case r of
      Inl e \<Rightarrow> rg' = rg \<and> hm_view m s' = hm_view m s
    | Inr key \<Rightarrow> key = binding_key spec \<and> (\<exists>b. map_of (rg_bindings rg') key = Some b \<and> bd_spec b = spec \<and> bd_handler b = handler \<and> \<not> bd_isTCP b))"
proof (cases "\<exists>h. handler = Some h \<and> va_proto (ss_addr spec) = ProtocolUDP \<and> Is4 (va_ip (ss_addr spec)) \<and> length (ss_mac spec) = 6
    \<and> map_of (rg_bindings rg) (binding_key spec) = None")
  case False
  then have "rg' = rg \<and> s' = s \<and> (\<exists>e. r = Inl e)" using run by (auto simp: RegisterUDPHandler_def split: option.splits if_splits)
  then show ?thesis using ok by auto
next
  case True
  then obtain h where h: "handler = Some h" "va_proto (ss_addr spec) = ProtocolUDP" "Is4 (va_ip (ss_addr spec))" "length (ss_mac spec) = 6"
    and free: "map_of (rg_bindings rg) (binding_key spec) = None" by blast
  obtain u s1 where upd: "hm_update m (bpf_key spec) (bpf_val tap spec) s = (u, s1)" by (rule prod.exhaust)
  show ?thesis
  proof (cases u)
    case (Inl e)
    then have "rg' = rg \<and> s' = s1 \<and> r = Inl (ProgramMap e)" using run h free upd by (simp add: RegisterUDPHandler_def)
    then show ?thesis using ok hm_update_spec(2)[OF m upd Inl] by simp
  next
    case (Inr x)
    let ?b = "\<lparr>bd_spec = spec, bd_handler = Some h, bd_bpfKey = bpf_key spec, bd_listener = None, bd_isTCP = False\<rparr>"
    let ?d = "rg_dispatcher rg\<lparr>ds_handlers := AList.update (dispatcher_key spec) (spec, h) (ds_handlers (rg_dispatcher rg))\<rparr>"
    have "RegisterUDP (dispatcher_key spec) (Some (spec, h)) (rg_dispatcher rg) = Inr ?d"
      using free_key(1)[OF ok free wf h(3)] by (simp add: RegisterUDP_def)
    then have res: "s' = s1" "r = Inr (binding_key spec)" "rg' = rg\<lparr>rg_dispatcher := ?d, rg_bindings := AList.update (binding_key spec) ?b (rg_bindings rg)\<rparr>"
      using run h free upd Inr by (simp_all add: RegisterUDPHandler_def)
    have "binding_wf vpc_of (binding_key spec) ?b" using h wf by (simp add: binding_wf_def spec_wf_def)
    then have "registry_ok vpc_of ((hm_view m s)(bpf_key spec \<mapsto> bpf_val tap spec)) tap rg'"
      using registry_add[OF ok, of ?b ?d] free unfolding res(3) by simp
    then show ?thesis using hm_update_spec(1)[OF m upd Inr] res h(1) by (simp add: update_conv')
  qed
qed

lemma ListenTCP_ok:
  assumes m: "hash_map_ok m" and ns: "\<And>n. ns = Some n \<Longrightarrow> netstack_apart m n" and ok: "registry_ok vpc_of (hm_view m s) tap rg" and wf: "spec_wf vpc_of spec"
    and run: "ListenTCP m tap ns spec (rg, s) = (r, rg', s')"
  shows "registry_ok vpc_of (hm_view m s') tap rg' \<and> (case r of
      Inl e \<Rightarrow> rg' = rg \<and> hm_view m s' = hm_view m s
    | Inr (l, key) \<Rightarrow> key = binding_key spec \<and> (\<exists>b. map_of (rg_bindings rg') key = Some b \<and> bd_spec b = spec \<and> bd_listener b = Some l \<and> bd_isTCP b))"
proof (cases "\<exists>n. ns = Some n \<and> va_proto (ss_addr spec) = ProtocolTCP \<and> Is4 (va_ip (ss_addr spec)) \<and> length (ss_mac spec) = 6
    \<and> map_of (rg_bindings rg) (binding_key spec) = None")
  case False
  then have "rg' = rg \<and> s' = s \<and> (\<exists>e. r = Inl e)" using run by (auto simp: ListenTCP_def split: option.splits if_splits)
  then show ?thesis using ok by auto
next
  case True
  then obtain n where h: "ns = Some n" "va_proto (ss_addr spec) = ProtocolTCP" "Is4 (va_ip (ss_addr spec))" "length (ss_mac spec) = 6"
    and free: "map_of (rg_bindings rg) (binding_key spec) = None" by blast
  note view = netstack_view[OF ns[OF h(1)]]
  obtain e1 s1 where nic: "ns_EnsureNIC n (tn_vpcID (ss_tenant spec)) (va_ip (ss_addr spec)) s = (e1, s1)" by (rule prod.exhaust)
  obtain e2 s2 where lis: "ns_ListenTCP n (tn_vpcID (ss_tenant spec)) (va_ip (ss_addr spec)) (va_port (ss_addr spec)) s1 = (e2, s2)" by (rule prod.exhaust)
  obtain u s3 where upd: "hm_update m (bpf_key spec) (bpf_val tap spec) s2 = (u, s3)" by (rule prod.exhaust)
  have v: "hm_view m s1 = hm_view m s" "hm_view m s2 = hm_view m s" using view(1)[OF nic] view(2)[OF lis] by simp_all
  consider (failed) "(\<exists>e. e1 = Inl e) \<or> (\<exists>e. e2 = Inl e) \<or> (\<exists>e. u = Inl e)" | (all_ok) x l y where "e1 = Inr x" "e2 = Inr l" "u = Inr y"
    by (cases e1; cases e2; cases u) auto
  then show ?thesis
  proof cases
    case failed
    then have "rg' = rg \<and> (\<exists>e. r = Inl e) \<and> hm_view m s' = hm_view m s"
      using run h free nic lis upd v view hm_update_spec(2)[OF m upd]
      by (cases e1; cases e2; cases u) (auto simp: ListenTCP_def Let_def)
    then show ?thesis using ok by auto
  next
    case all_ok
    let ?b = "\<lparr>bd_spec = spec, bd_handler = None, bd_bpfKey = bpf_key spec, bd_listener = Some l, bd_isTCP = True\<rparr>"
    let ?d = "rg_dispatcher rg\<lparr>ds_tcpHandlers := AList.update (dispatcher_key spec) spec (ds_tcpHandlers (rg_dispatcher rg))\<rparr>"
    have "RegisterTCP (dispatcher_key spec) (Some spec) (rg_dispatcher rg) = Inr ?d"
      using free_key(2)[OF ok free wf h(3)] by (simp add: RegisterTCP_def)
    then have res: "s' = s3" "r = Inr (l, binding_key spec)" "rg' = rg\<lparr>rg_dispatcher := ?d, rg_bindings := AList.update (binding_key spec) ?b (rg_bindings rg)\<rparr>"
      using run h free nic lis upd all_ok by (simp_all add: ListenTCP_def Let_def)
    have "binding_wf vpc_of (binding_key spec) ?b" using h wf by (simp add: binding_wf_def spec_wf_def)
    then have "registry_ok vpc_of ((hm_view m s)(bpf_key spec \<mapsto> bpf_val tap spec)) tap rg'"
      using registry_add[OF ok, of ?b ?d] free unfolding res(3) by simp
    then show ?thesis using hm_update_spec(1)[OF m upd all_ok(3)] res v by (simp add: update_conv')
  qed
qed

lemma unregister_ok:
  fixes rg rg' :: "('h, 'l) registry"
  assumes m: "hash_map_ok m" and ns: "\<And>n. ns = Some n \<Longrightarrow> netstack_apart m n" and ok: "registry_ok vpc_of (hm_view m s) tap rg"
    and run: "unregister m ns key (rg, s) = (r, rg', s')"
  shows "registry_ok vpc_of (hm_view m s') tap rg' \<and> rg_bindings rg' = AList.delete key (rg_bindings rg)
    \<and> (\<forall>x b. r = Inr x \<longrightarrow> map_of (rg_bindings rg) key = Some b \<longrightarrow> hm_view m s' (bpf_key (bd_spec b)) = None)"
proof (cases "map_of (rg_bindings rg) key")
  case None
  then have "key \<notin> fst ` set (rg_bindings rg)" by (simp add: map_of_eq_None_iff)
  then have "AList.delete key (rg_bindings rg) = rg_bindings rg" by (simp add: delete_id)
  then show ?thesis using run ok None by (simp add: unregister_def)
next
  case (Some b)
  have bk: "bd_bpfKey b = bpf_key (bd_spec b)" using registry_binding[OF ok Some] by (simp add: binding_wf_def)
  let ?d = "if bd_isTCP b then UnregisterTCP (dispatcher_key (bd_spec b)) (rg_dispatcher rg) else UnregisterUDP (dispatcher_key (bd_spec b)) (rg_dispatcher rg)"
  let ?rg = "rg\<lparr>rg_bindings := AList.delete key (rg_bindings rg), rg_dispatcher := ?d\<rparr>"
  obtain e s1 where del: "hm_delete m (bd_bpfKey b) s = (e, s1)" by (rule prod.exhaust)
  have tear: "hm_view m (case ns of None \<Rightarrow> t | Some n \<Rightarrow> snd (ns_RemoveVIP n v i t)) = hm_view m t"
    "hm_view m (case (ns, l) of (Some n, Some x) \<Rightarrow> ns_Close n x t | _ \<Rightarrow> t) = hm_view m t" for t v i l
    using netstack_view(3,4)[OF ns] by (auto split: option.split)
  have rg': "rg' = ?rg" and s': "hm_view m s' = hm_view m s1" and r: "(\<exists>x. r = Inr x) \<longleftrightarrow> (\<exists>x. e = Inr x) \<or> e = Inl KeyNotExist"
    using run Some del tear by (auto simp: unregister_def Let_def split: sum.splits if_splits)
  have view: "hm_view m s1 k = hm_view m s k" if "k \<noteq> bpf_key (bd_spec b)" for k
    using that hm_delete_spec(1,3)[OF m del] bk by (cases e) auto
  have "hm_view m s1 (bpf_key (bd_spec b)) = None" if "(\<exists>x. e = Inr x) \<or> e = Inl KeyNotExist"
    using that hm_delete_spec(1,3,4)[OF m del] bk by auto
  moreover have "registry_ok vpc_of (hm_view m s') tap rg'"
    unfolding rg' s' by (rule registry_remove[OF ok Some refl]) (rule view)
  ultimately show ?thesis using r s' Some unfolding rg' by auto
qed

text \<open>Calls in any order, any of which may fail.\<close>

datatype 'h registry_op = OpUDP service_spec 'h | OpTCP service_spec | OpUnregister binding_key

fun op_spec_wf :: "(u32 \<Rightarrow> u32) \<Rightarrow> 'h registry_op \<Rightarrow> bool" where
  "op_spec_wf vpc_of (OpUDP spec h) = spec_wf vpc_of spec"
| "op_spec_wf vpc_of (OpTCP spec) = spec_wf vpc_of spec"
| "op_spec_wf vpc_of (OpUnregister key) = True"

fun exec_registry :: "('s, virtual_service_key, virtual_service_val) hash_map \<Rightarrow> u32 \<Rightarrow> ('s, 'l) netstack option \<Rightarrow>
    'h registry_op \<Rightarrow> ('h, 'l) registry \<times> 's \<Rightarrow> ('h, 'l) registry \<times> 's" where
  "exec_registry m tap ns (OpUDP spec h) st = snd (RegisterUDPHandler m tap spec (Some h) st)"
| "exec_registry m tap ns (OpTCP spec) st = snd (ListenTCP m tap ns spec st)"
| "exec_registry m tap ns (OpUnregister key) st = snd (unregister m ns key st)"

lemma exec_registry_ok:
  assumes "hash_map_ok m" "\<And>n. ns = Some n \<Longrightarrow> netstack_apart m n" "registry_ok vpc_of (hm_view m s) tap rg" "op_spec_wf vpc_of op"
  shows "registry_ok vpc_of (hm_view m (snd (exec_registry m tap ns op (rg, s)))) tap (fst (exec_registry m tap ns op (rg, s)))"
proof (cases op)
  case (OpUDP spec h)
  obtain r rg' s' where run: "RegisterUDPHandler m tap spec (Some h) (rg, s) = (r, rg', s')" by (rule prod_cases3)
  show ?thesis using RegisterUDPHandler_ok[OF assms(1,3) _ run] assms(4) OpUDP run by simp
next
  case (OpTCP spec)
  obtain r rg' s' where run: "ListenTCP m tap ns spec (rg, s) = (r, rg', s')" by (rule prod_cases3)
  show ?thesis using ListenTCP_ok[OF assms(1-3) _ run] assms(4) OpTCP run by simp
next
  case (OpUnregister key)
  obtain r rg' s' where run: "unregister m ns key (rg, s) = (r, rg', s')" by (rule prod_cases3)
  show ?thesis using unregister_ok[OF assms(1-3) run] OpUnregister run by simp
qed

lemma run_registry_ok:
  assumes "hash_map_ok m" "\<forall>n. ns = Some n \<longrightarrow> netstack_apart m n" "\<forall>op \<in> set ops. op_spec_wf vpc_of op"
    and "fold (exec_registry m tap ns) ops (NewRegistry, s) = (rg, s')"
  shows "registry_ok vpc_of (hm_view m s') tap rg"
proof -
  have "registry_ok vpc_of (hm_view m (snd st)) tap (fst st) \<Longrightarrow> \<forall>op \<in> set ops. op_spec_wf vpc_of op \<Longrightarrow>
      registry_ok vpc_of (hm_view m (snd (fold (exec_registry m tap ns) ops st))) tap (fst (fold (exec_registry m tap ns) ops st))" for st
  proof (induction ops arbitrary: st)
    case (Cons op ops)
    then show ?case using exec_registry_ok[OF assms(1), of ns vpc_of "snd st" tap "fst st" op] assms(2) by simp
  qed simp
  moreover have "registry_ok vpc_of (hm_view m s) tap NewRegistry" by (simp add: registry_ok_def NewRegistry_def NewDispatcher_def)
  ultimately show ?thesis using assms(3,4) by (metis fst_conv snd_conv)
qed


section \<open>A query of a Pod, end to end\<close>

text \<open>A frame with a whole UDP datagram to an address and port, and its payload.\<close>

definition frame_ihl :: "u8 list \<Rightarrow> nat" where
  "frame_ihl frame = unat (frame ! 14 AND 0x0F) * 4"

definition frame_udpLen :: "u8 list \<Rightarrow> nat" where
  "frame_udpLen frame = unat (be_word (take 2 (drop (18 + frame_ihl frame) frame)) :: u16)"

definition udp_frame_to :: "addr \<Rightarrow> u16 \<Rightarrow> u8 list \<Rightarrow> bool" where
  "udp_frame_to vip port frame \<longleftrightarrow>
     34 \<le> length frame \<and> (be_word (take 2 (drop 12 frame)) :: u16) = EtherTypeIPv4 \<and> frame ! 23 = 17 \<and> 20 \<le> frame_ihl frame
     \<and> (be_word (take 2 (drop 20 frame)) AND (0x1FFF :: u16)) = 0
     \<and> 14 + unat (be_word (take 2 (drop 16 frame)) :: u16) \<le> length frame
     \<and> 8 \<le> frame_udpLen frame \<and> frame_ihl frame + frame_udpLen frame \<le> unat (be_word (take 2 (drop 16 frame)) :: u16)
     \<and> take 4 (drop 30 frame) = As4 vip \<and> take 2 (drop (16 + frame_ihl frame) frame) = be_bytes 2 port"

definition frame_payload :: "u8 list \<Rightarrow> u8 list" where
  "frame_payload frame = take (frame_udpLen frame - 8) (drop (22 + frame_ihl frame) frame)"

lemma classifier_hits:
  assumes frame: "udp_frame_to vip port frame"
    and svc: "services \<lparr>vk_subnetID = subnet_id, vk_dstIP = As4 vip, vk_dstPort = be_bytes 2 port, vk_proto = 17\<rparr> = Some vv" "vv_tapIfindex vv \<noteq> 0"
    and csum: "\<And>a b c. csum a b c \<noteq> None"
  shows "\<exists>frame' fk fv. handle_virtual_service csum services frame ifindex subnet_id vpc_id now = Redirect (vv_tapIfindex vv) frame' fk fv"
proof -
  note f = frame[unfolded udp_frame_to_def frame_ihl_def]
  have bytes: "drop 14 frame ! 9 = frame ! 23" "drop 14 frame ! 0 = frame ! 14" using f by simp_all
  have "frame_ihl frame + 8 \<le> length frame - 14" using frame unfolding udp_frame_to_def by linarith
  then have l4: "\<not> length (drop (unat (frame ! 14 AND 0x0F) * 4) (drop 14 frame)) < 8" by (simp add: frame_ihl_def)
  have ports: "take 2 (drop 2 (drop (unat (frame ! 14 AND 0x0F) * 4) (drop 14 frame))) = be_bytes 2 port" "take 4 (drop 16 (drop 14 frame)) = As4 vip"
    "take 2 (drop 6 (drop 14 frame)) = take 2 (drop 20 frame)"
    using f by (simp_all add: add.commute)
  have ihl: "\<not> unat (frame ! 14 AND 0x0F) < 5" using f by simp
  have proto: "frame ! 23 = 17" and frag: "\<not> (be_word (take 2 (drop 20 frame)) AND (0x1FFF :: u16)) \<noteq> 0" using f by simp_all
  obtain check where c: "csum (take 2 (drop 24 frame)) (take 2 (drop 18 frame)) (be_bytes 2 (ucast subnet_id :: u16)) = Some check" using csum by blast
  show ?thesis unfolding handle_virtual_service_def Let_def bytes ports proto
    using l4 ihl frag svc c by simp
qed

lemma bpf_key_bytes:
  assumes "Is4 (va_ip (ss_addr spec))" "va_proto (ss_addr spec) = 17"
  shows "bpf_key spec = \<lparr>vk_subnetID = tn_subnetID (ss_tenant spec), vk_dstIP = As4 (va_ip (ss_addr spec)), vk_dstPort = be_bytes 2 (va_port (ss_addr spec)), vk_proto = 17\<rparr>"
  using assms by (simp add: bpf_key_def htonsU16_bytes networkOrder_bytes)

lemma classified_runs:
  assumes frame: "udp_frame_to vip port frame" "Is4 vip"
    and run: "handle_virtual_service csum services frame ifindex subnet_id vpc_id now = Redirect tap frame' fk fv" "csum_two csum" "subnet_id \<le> 0xFFFF"
    and look: "hm_lookup m fk s = (Inr val, s')"
    and hand: "map_of (ds_handlers d) \<lparr>hk_subnetID = subnet_id, hk_dstIP = vip, hk_dstPort = port, hk_proto = 17\<rparr> = Some h"
  shows "handleFrame m d frame' s = (CallUDP h (frame_flow frame' (frame_ihl frame) val) (frame_payload frame), s')"
    "fl_serviceIP (frame_flow frame' (frame_ihl frame) val) = vip" "fl_servicePort (frame_flow frame' (frame_ihl frame) val) = port"
    "fl_clientIP (frame_flow frame' (frame_ihl frame) val) = addrFromBytes (take 4 (drop 26 frame))"
    "fl_clientPort (frame_flow frame' (frame_ihl frame) val) = be_word (take 2 (drop (14 + frame_ihl frame) frame))"
proof -
  note f = frame(1)[unfolded udp_frame_to_def]
  have len: "34 \<le> length frame" using f by blast
  note fr = classified_frame[OF run(1) len run(2)] and spec = redirect_spec[OF run(1) len run(2), folded frame_ihl_def]
  note tail = drop_beyond[OF fr(6)]
  have ihl: "frame_ihl frame' = frame_ihl frame" "20 \<le> frame_ihl frame" using fr(3) f by (simp_all add: frame_ihl_def)
  have ulen: "frame_udpLen frame' = frame_udpLen frame" using tail[of "18 + frame_ihl frame"] ihl by (simp add: frame_udpLen_def)
  have sub: "ucast (be_word (take 2 (drop 18 frame')) :: u16) = subnet_id"
    using fr(7)[OF run(3)] run(3) by (simp add: word_eq_iff_unsigned[where 'a = nat] unsigned_ucast_eq unsigned_take_bit_eq take_bit_nat_eq_self_iff word_le_nat_alt)
  have vip: "addrFromBytes (take 4 (drop 30 frame')) = vip" and port: "be_word (take 2 (drop (16 + frame_ihl frame) frame')) = port"
    using f tail[of 30] tail[of "16 + frame_ihl frame"] ihl frame(2) by simp_all
  have key: "fk = \<lparr>fk_subnetID = ucast (be_word (take 2 (drop 18 frame')) :: u16), fk_srcIP = take 4 (drop 26 frame'), fk_dstIP = take 4 (drop 30 frame'),
      fk_srcPort = take 2 (drop (14 + frame_ihl frame) frame'), fk_dstPort = take 2 (drop (16 + frame_ihl frame) frame'), fk_proto = 17\<rparr>"
    using spec(2) sub tail[of 26] tail[of 30] tail[of "14 + frame_ihl frame"] tail[of "16 + frame_ihl frame"] ihl f by simp
  have "handleFrame m d frame' s = (CallUDP h (frame_flow frame' (frame_ihl frame') val)
      (take (frame_udpLen frame' - 8) (drop (22 + frame_ihl frame') frame')), s')"
  proof (rule handleFrame_runs[folded frame_ihl_def, folded frame_udpLen_def])
    show "34 \<le> length frame'" by (simp only: fr(1) len)
    show "(be_word (take 2 (drop 12 frame')) :: u16) = EtherTypeIPv4" unfolding fr(2) using f by blast
    show "frame' ! 23 = 17" unfolding fr(5) using f by blast
    show "20 \<le> frame_ihl frame'" unfolding ihl(1) by (rule ihl(2))
    show "14 + unat (be_word (take 2 (drop 16 frame')) :: u16) \<le> length frame'" unfolding fr(1,4) using f by blast
    show "8 \<le> frame_udpLen frame'" unfolding ulen using f by blast
    show "frame_ihl frame' + frame_udpLen frame' \<le> unat (be_word (take 2 (drop 16 frame')) :: u16)" unfolding fr(4) ihl(1) ulen using f by blast
    show "hm_lookup m \<lparr>fk_subnetID = ucast (be_word (take 2 (drop 18 frame')) :: u16), fk_srcIP = take 4 (drop 26 frame'), fk_dstIP = take 4 (drop 30 frame'),
        fk_srcPort = take 2 (drop (14 + frame_ihl frame') frame'), fk_dstPort = take 2 (drop (16 + frame_ihl frame') frame'), fk_proto = 17\<rparr> s = (Inr val, s')"
      unfolding ihl(1) key[symmetric] by (rule look)
    show "map_of (ds_handlers d) \<lparr>hk_subnetID = ucast (be_word (take 2 (drop 18 frame')) :: u16), hk_dstIP = addrFromBytes (take 4 (drop 30 frame')),
        hk_dstPort = be_word (take 2 (drop (16 + frame_ihl frame') frame')), hk_proto = 17\<rparr> = Some h"
      unfolding ihl(1) sub vip port by (rule hand)
  qed
  then show "handleFrame m d frame' s = (CallUDP h (frame_flow frame' (frame_ihl frame) val) (frame_payload frame), s')"
    using tail[of "22 + frame_ihl frame"] ihl ulen by (simp add: frame_payload_def)
  show "fl_serviceIP (frame_flow frame' (frame_ihl frame) val) = vip" "fl_servicePort (frame_flow frame' (frame_ihl frame) val) = port"
    "fl_clientIP (frame_flow frame' (frame_ihl frame) val) = addrFromBytes (take 4 (drop 26 frame))"
    "fl_clientPort (frame_flow frame' (frame_ihl frame) val) = be_word (take 2 (drop (14 + frame_ihl frame) frame))"
    using vip port tail[of 26] tail[of "14 + frame_ihl frame"] ihl by (simp_all add: frame_flow_def)
qed

text \<open>
  What becomes of a query: the handler returns, and if the query can be read, it writes a good reply, which,
  whenever it fits a datagram, the responder sends out of the port of the flow as a valid frame from the
  service to the Pod.
\<close>

definition answered :: "'p dnsmessage \<Rightarrow> handler \<Rightarrow> resolver \<Rightarrow> vpc_lookup \<Rightarrow> (int \<Rightarrow> mac \<Rightarrow> u8 list \<Rightarrow> string option) \<Rightarrow> service_spec \<Rightarrow> flow \<Rightarrow> u8 list \<Rightarrow> bool" where
  "answered codec hdl resolve lookup send spec fl payload \<longleftrightarrow>
     (\<exists>out. HandlePacket codec hdl (Some resolve) lookup (WriteResponse send fl) (udp_request spec fl payload) = Some out
        \<and> (\<forall>parsed. parseQuery codec payload = Some (Inr parsed) \<longrightarrow> out = ([], Some PackError) \<or>
             (\<exists>w. fst out = [w] \<and> reply_ok codec hdl resolve lookup (udp_request spec fl payload) parsed w
                \<and> (length w \<le> 65507 \<longrightarrow>
                    (\<exists>reply. WriteResponse send fl w = send (fl_podIfindex fl) (fl_podMAC fl) reply
                       \<and> udp_datagram reply (fl_podMAC fl) (fl_serviceMAC fl) (fl_serviceIP fl) (fl_servicePort fl) (fl_clientIP fl) (fl_clientPort fl) w)))))"

lemma flow_answered:
  assumes "parser_moves codec left" and fl: "fl_proto fl = 17" "Is4 (fl_clientIP fl)" "Is4 (fl_serviceIP fl)" "length (fl_podMAC fl) = 6" "length (fl_serviceMAC fl) = 6"
  shows "answered codec hdl resolve lookup send spec fl payload"
proof -
  obtain out where out: "HandlePacket codec hdl (Some resolve) lookup (WriteResponse send fl) (udp_request spec fl payload) = Some out"
    using HandlePacket_returns[OF assms(1)] by blast
  have reply: "\<exists>reply. WriteResponse send fl w = send (fl_podIfindex fl) (fl_podMAC fl) reply
      \<and> udp_datagram reply (fl_podMAC fl) (fl_serviceMAC fl) (fl_serviceIP fl) (fl_servicePort fl) (fl_clientIP fl) (fl_clientPort fl) w" if "length w \<le> 65507" for w
    using built_response[OF fl(1), of w] that fl by (cases "BuildUDPResponse fl w") (auto simp: WriteResponse_def)
  have "out = ([], Some PackError) \<or> (\<exists>w. fst out = [w] \<and> reply_ok codec hdl resolve lookup (udp_request spec fl payload) parsed w)"
    if "parseQuery codec payload = Some (Inr parsed)" for parsed
    using parsed_reply[of codec "udp_request spec fl payload" parsed hdl resolve lookup "WriteResponse send fl"] that out by (auto simp: udp_request_def)
  then show ?thesis unfolding answered_def using out reply by blast
qed


section \<open>Examples\<close>

definition ex_spec :: service_spec where
  "ex_spec = \<lparr>ss_id = ServiceIDDNS, ss_tenant = \<lparr>tn_vpcID = 7, tn_subnetID = 5\<rparr>, ss_addr = \<lparr>va_ip = V4 0x0A000002, va_port = 53, va_proto = ProtocolUDP\<rparr>,
     ss_mac = [2, 0, 0, 0, 0, 2]\<rparr>"

definition ex_run :: "(unit, unit) registry \<times> (virtual_service_key, virtual_service_val) gomap" where
  "ex_run = fold (exec_registry (mem_hash 16) 12 None) [OpUDP ex_spec (), OpUnregister (binding_key ex_spec), OpTCP ex_spec, OpUDP ex_spec ()] (NewRegistry, [])"

lemma ex_run_binding:
  "map_of (rg_bindings (fst ex_run)) (binding_key ex_spec)
     = Some \<lparr>bd_spec = ex_spec, bd_handler = Some (), bd_bpfKey = bpf_key ex_spec, bd_listener = None, bd_isTCP = False\<rparr>"
  by code_simp

lemma ex_run_calls:
  "\<forall>op \<in> set [OpUDP ex_spec (), OpUnregister (binding_key ex_spec), OpTCP ex_spec, OpUDP ex_spec ()]. op_spec_wf (\<lambda>_. 7) op"
  "fold (exec_registry (mem_hash 16) 12 None) [OpUDP ex_spec (), OpUnregister (binding_key ex_spec), OpTCP ex_spec, OpUDP ex_spec ()] (NewRegistry, [])
     = (fst ex_run, snd ex_run)"
  by (simp_all add: spec_wf_def ex_spec_def ex_run_def)


definition ex_frame :: "u8 list" where
  "ex_frame = [2, 0, 0, 0, 0, 2, 2, 0, 0, 0, 0, 5, 8, 0, 0x45, 0, 0, 40, 0x12, 0x34, 0, 0, 64, 17, 0, 0, 10, 0, 0, 5, 10, 0, 0, 2, 0x9C, 0x40, 0, 53, 0, 20, 0, 0]
     @ replicate 12 0"

lemma ex_frame_to: "udp_frame_to (V4 0x0A000002) 53 ex_frame"
  by code_simp

lemma ex_frame_values: "frame_payload ex_frame = replicate 12 0" "addrFromBytes (take 4 (drop 26 ex_frame)) = V4 0x0A000005"
  by code_simp+



text \<open>The frame of a Pod whose subnet has number 70000, and who wrote 0x1234 into the identification field.\<close>

definition ex_forged :: "flow_key \<times> flow_val" where
  "ex_forged = (\<lparr>fk_subnetID = 0x1234, fk_srcIP = [10, 0, 0, 5], fk_dstIP = [10, 0, 0, 2], fk_srcPort = [0x9C, 0x40], fk_dstPort = [0, 53], fk_proto = 17\<rparr>,
     \<lparr>fv_vpcID = 99, fv_serviceID = 1, fv_podIfindex = 33, fv_podMAC = [2, 0, 0, 0, 0, 9], fv_serviceMAC = [2, 0, 0, 0, 0, 2], fv_lastSeenNS = 0\<rparr>)"

theorem virtual_service_high_subnet_witness:
  "\<exists>fk fv fl p. handle_virtual_service (\<lambda>_ _ _. Some [0, 0]) (\<lambda>_. Some (bpf_val 12 ex_spec)) ex_frame 9 70000 7 0 = Redirect 12 ex_frame fk fv
    \<and> handleFrame (mem_hash 16) \<lparr>ds_handlers = [(\<lparr>hk_subnetID = 0x1234, hk_dstIP = V4 0x0A000002, hk_dstPort = 53, hk_proto = 17\<rparr>, ())], ds_tcpHandlers = [] :: (handler_key \<times> unit) list\<rparr>
         ex_frame [ex_forged] = (CallUDP () fl p, [ex_forged])
    \<and> fl_subnetID fl = 0x1234 \<and> fl_vpcID fl = 99"
proof -
  let ?d = "\<lparr>ds_handlers = [(\<lparr>hk_subnetID = 0x1234, hk_dstIP = V4 0x0A000002, hk_dstPort = 53, hk_proto = 17\<rparr>, ())], ds_tcpHandlers = [] :: (handler_key \<times> unit) list\<rparr>"
  let ?c = "\<lambda>_ _ _. Some [0, 0]" and ?s = "\<lambda>_. Some (bpf_val 12 ex_spec)"
  have len: "34 \<le> length ex_frame" by (simp add: ex_frame_def)
  have csum: "csum_two ?c" by (simp add: csum_two_def)
  have high: "\<not> (70000 :: u32) \<le> 0xFFFF" by (simp add: word_le_nat_alt)
  obtain frame' fk fv where run: "handle_virtual_service ?c ?s ex_frame 9 70000 7 0 = Redirect 12 frame' fk fv"
    using classifier_hits[OF ex_frame_to, of ?s 70000 "bpf_val 12 ex_spec" ?c 9 7 0] by (auto simp: bpf_val_def)
  have same: "frame' = ex_frame" using classified_frame(8)[OF run len csum high] .
  have "handleFrame (mem_hash 16) ?d ex_frame [ex_forged] = (CallUDP () (frame_flow ex_frame 20 (snd ex_forged)) (replicate 12 0), [ex_forged])"
    by code_simp
  then have call: "handleFrame (mem_hash 16) ?d frame' [ex_forged] = (CallUDP () (frame_flow ex_frame 20 (snd ex_forged)) (replicate 12 0), [ex_forged])"
    unfolding same .
  have "ucast (be_word (take 2 (drop 18 ex_frame)) :: u16) = (0x1234 :: u32)" by code_simp
  then have "fl_subnetID (frame_flow ex_frame 20 (snd ex_forged)) = 0x1234" using virtual_service_high_subnet[OF run len csum high call] by (simp only:)
  moreover have "fl_vpcID (frame_flow ex_frame 20 (snd ex_forged)) = 99" by (simp add: frame_flow_def ex_forged_def)
  ultimately show ?thesis using run call unfolding same by blast
qed

end
