(* ===== verification/Membership.thy ===== *)
theory Membership
  imports PolicyMem GoNet BpfMap
begin

text \<open>
  Which SecurityGroups an interface has, from the cluster to the data plane: the store over
  \<open>sg_membership_map\<close> (\<open>policy/membership.go\<close>) and the reconciler that feeds it
  (\<open>reconciler/sg_membership.go\<close>). The store works against a map and a \<open>Bumper\<close>; the contract of the two is
  a locale, kept by the generation counter of \<open>PolicyStores\<close> over the same kernel.
\<close>

section \<open>The store (membership.go)\<close>

text \<open>\<open>MembershipKey\<close>: the Vpc and the address, in network byte order.\<close>

type_synonym membership_key = "u32 \<times> u32"

record membershipEntry =
  me_key :: membership_key
  me_groupIDs :: "u32 list"

datatype 'e membership_error =
    InvalidKey u32 u32
  | WriteFailed string ebpf_error
  | RemoveFailed ebpf_error
  | BumpFailed string 'e

record 'w membership_state =
  mb_world :: 'w
  mb_snapshots :: "(string, membershipEntry) gomap"

type_synonym ('w, 'e, 'a) membership_call = "('w membership_state, 'e membership_error, 'a) api"

definition in_world :: "('f \<Rightarrow> 'e membership_error) \<Rightarrow> ('w, 'f, 'a) api \<Rightarrow> ('w, 'e, 'a) membership_call" where
  "in_world wrap c st = (case c (mb_world st) of
     (Inl e, w') \<Rightarrow> (Inl (wrap e), st\<lparr>mb_world := w'\<rparr>)
   | (Inr x, w') \<Rightarrow> (Inr x, st\<lparr>mb_world := w'\<rparr>))"

definition MaxSGsPerNIC :: nat where "MaxSGsPerNIC = 2"

text \<open>The value written for a list of groups: its length, and the array filled from the front.\<close>

definition membership_val :: "u32 list \<Rightarrow> sg_membership_val" where
  "membership_val groupIDs = \<lparr>smv_count = of_nat (length groupIDs),
     smv_sgs = groupIDs @ replicate (MAX_SGS_PER_NIC - length groupIDs) 0\<rparr>"

definition deleteKey :: "('w, membership_key, sg_membership_val) hash_map \<Rightarrow> membership_key \<Rightarrow> ('w, 'e, unit) membership_call" where
  "deleteKey m k = api_bind (api_try (in_world RemoveFailed (hm_delete m k) :: ('w, 'e, unit) membership_call)) (\<lambda>r.
     case r of
       Inl e \<Rightarrow> if e = RemoveFailed KeyNotExist then api_return () else api_throw e
     | Inr _ \<Rightarrow> api_return ())"

definition Membership_Delete :: "('w, membership_key, sg_membership_val) hash_map \<Rightarrow> ('w, 'e, unit) api \<Rightarrow> string
    \<Rightarrow> ('w, 'e, unit) membership_call" where
  "Membership_Delete m Bump owner st =
     (case map_of (mb_snapshots st) owner of
        None \<Rightarrow> (Inr (), st)
      | Some previous \<Rightarrow>
          api_bind (deleteKey m (me_key previous)) (\<lambda>_.
          api_bind (in_world (BumpFailed owner) Bump) (\<lambda>_ st'.
            (Inr (), st'\<lparr>mb_snapshots := AList.delete owner (mb_snapshots st')\<rparr>))) st)"

definition Membership_Apply :: "('w, membership_key, sg_membership_val) hash_map \<Rightarrow> ('w, 'e, unit) api \<Rightarrow> string
    \<Rightarrow> membership_key \<Rightarrow> u32 list \<Rightarrow> ('w, 'e, unit) membership_call" where
  "Membership_Apply m Bump owner key gids =
     (if fst key = 0 \<or> snd key = 0 then api_throw (InvalidKey (fst key) (snd key))
      else let groupIDs = (if length gids > MaxSGsPerNIC then take MaxSGsPerNIC gids else gids)
        in if groupIDs = [] then Membership_Delete m Bump owner
           else api_bind (in_world (WriteFailed owner) (hm_update m key (membership_val groupIDs))) (\<lambda>_ st.
             let previous = map_of (mb_snapshots st) owner;
                 entry = \<lparr>me_key = key, me_groupIDs = groupIDs\<rparr>
             in api_bind (case previous of
                   Some p \<Rightarrow> if me_key p \<noteq> key then logged (deleteKey m (me_key p) :: ('w, 'e, unit) membership_call) else api_return ()
                 | None \<Rightarrow> api_return ()) (\<lambda>_.
                if previous = Some entry then api_return ()
                else api_bind (in_world (BumpFailed owner) Bump) (\<lambda>_ st'.
                  (Inr (), st'\<lparr>mb_snapshots := AList.update owner entry (mb_snapshots st')\<rparr>))) st))"

definition IPv4ToBE :: "IP \<Rightarrow> u32 option" where
  "IPv4ToBE ip = map_option le_word (To4 ip)"

section \<open>The contract of the map and the counter\<close>

locale member_world =
  fixes m :: "('w, membership_key, sg_membership_val) hash_map" and Bump :: "('w, 'e, unit) api"
    and live :: "'w \<Rightarrow> bool" and gen :: "'w \<Rightarrow> u32"
  assumes upd: "live w \<Longrightarrow> hm_update m k v w = (r, w') \<Longrightarrow> live w' \<and> gen w' = gen w
      \<and> hm_view m w' = (case r of Inr _ \<Rightarrow> (hm_view m w)(k \<mapsto> v) | Inl _ \<Rightarrow> hm_view m w)"
    and del: "live w \<Longrightarrow> hm_delete m k w = (r, w') \<Longrightarrow> live w' \<and> gen w' = gen w
      \<and> hm_view m w' = (case r of Inr _ \<Rightarrow> (hm_view m w)(k := None) | Inl _ \<Rightarrow> hm_view m w)
      \<and> (r = Inl KeyNotExist \<longrightarrow> hm_view m w k = None)"
    and bump: "live w \<Longrightarrow> Bump w = (b, w') \<Longrightarrow> live w' \<and> hm_view m w' = hm_view m w
      \<and> gen w' = (case b of Inr _ \<Rightarrow> gen w + 1 | Inl _ \<Rightarrow> gen w)"
begin

abbreviation seen :: "'w membership_state \<Rightarrow> membership_key \<Rightarrow> sg_membership_val option" where
  "seen st \<equiv> hm_view m (mb_world st)"

abbreviation alive :: "'w membership_state \<Rightarrow> bool" where
  "alive st \<equiv> live (mb_world st)"

lemma deleteKey_spec:
  assumes "alive st" "(deleteKey m k :: ('w, 'e, unit) membership_call) st = (r, st')"
  shows "alive st'" "mb_snapshots st' = mb_snapshots st" "gen (mb_world st') = gen (mb_world st)"
    "seen st' = (case r of Inr _ \<Rightarrow> (seen st)(k := None) | Inl _ \<Rightarrow> seen st)"
proof -
  obtain x w' where d: "hm_delete m k (mb_world st) = (x, w')" by (metis surj_pair)
  note law = del[OF assms(1) d]
  have "alive st' \<and> mb_snapshots st' = mb_snapshots st \<and> gen (mb_world st') = gen (mb_world st)
      \<and> seen st' = (case r of Inr _ \<Rightarrow> (seen st)(k := None) | Inl _ \<Rightarrow> seen st)"
    using assms(2) d law
    by (cases x) (auto simp: deleteKey_def in_world_def api_bind_def api_try_def fun_upd_idem split: if_splits)
  then show "alive st'" "mb_snapshots st' = mb_snapshots st" "gen (mb_world st') = gen (mb_world st)"
    "seen st' = (case r of Inr _ \<Rightarrow> (seen st)(k := None) | Inl _ \<Rightarrow> seen st)" by blast+
qed

end

section \<open>What a call leaves alone and what it writes\<close>

text \<open>A sequence of calls, whatever they return; the reconciler retries a call that failed.\<close>

datatype member_op = ApplyOp string membership_key "u32 list" | DeleteOp string

fun op_owner :: "member_op \<Rightarrow> string" where
  "op_owner (ApplyOp ow _ _) = ow"
| "op_owner (DeleteOp ow) = ow"

fun op_claims :: "member_op \<Rightarrow> membership_key \<Rightarrow> bool" where
  "op_claims (ApplyOp _ key _) k = (key = k)"
| "op_claims (DeleteOp _) k = False"

fun exec_member :: "('w, membership_key, sg_membership_val) hash_map \<Rightarrow> ('w, 'e, unit) api \<Rightarrow> member_op
    \<Rightarrow> ('w, 'e, unit) membership_call" where
  "exec_member m Bump (ApplyOp ow key gids) = Membership_Apply m Bump ow key gids"
| "exec_member m Bump (DeleteOp ow) = Membership_Delete m Bump ow"

fun run_members :: "('w, membership_key, sg_membership_val) hash_map \<Rightarrow> ('w, 'e, unit) api \<Rightarrow> member_op list
    \<Rightarrow> 'w membership_state \<Rightarrow> 'w membership_state" where
  "run_members m Bump [] st = st"
| "run_members m Bump (op # ops) st = run_members m Bump ops (snd (exec_member m Bump op st))"

text \<open>The key an owner is remembered under.\<close>

definition held_key :: "'w membership_state \<Rightarrow> string \<Rightarrow> membership_key option" where
  "held_key st ow = map_option me_key (map_of (mb_snapshots st) ow)"

context member_world
begin

lemma bump_spec:
  assumes "alive st" "(in_world wrap Bump :: ('w, 'e, unit) membership_call) st = (r, st')"
  shows "alive st'" "mb_snapshots st' = mb_snapshots st" "seen st' = seen st"
    "gen (mb_world st') = (case r of Inr _ \<Rightarrow> gen (mb_world st) + 1 | Inl _ \<Rightarrow> gen (mb_world st))"
proof -
  obtain x w' where b: "Bump (mb_world st) = (x, w')" by (metis surj_pair)
  note law = bump[OF assms(1) b]
  show "alive st'" "mb_snapshots st' = mb_snapshots st" "seen st' = seen st"
    "gen (mb_world st') = (case r of Inr _ \<Rightarrow> gen (mb_world st) + 1 | Inl _ \<Rightarrow> gen (mb_world st))"
    using assms(2) b law by (cases x; auto simp: in_world_def)+
qed

lemma Delete_spec:
  assumes "alive st" "(Membership_Delete m Bump ow :: ('w, 'e, unit) membership_call) st = (r, st')"
  shows "alive st'" "ow' \<noteq> ow \<Longrightarrow> map_of (mb_snapshots st') ow' = map_of (mb_snapshots st) ow'"
    "held_key st ow \<noteq> Some k \<Longrightarrow> seen st' k = seen st k"
    "held_key st' ow = Some k \<Longrightarrow> held_key st ow = Some k"
    "r = Inr () \<Longrightarrow> map_of (mb_snapshots st') ow = None"
    "r = Inr () \<Longrightarrow> held_key st ow = Some k \<Longrightarrow> seen st' k = None \<and> gen (mb_world st') = gen (mb_world st) + 1"
proof -
  have all: "alive st' \<and> (\<forall>ow'. ow' \<noteq> ow \<longrightarrow> map_of (mb_snapshots st') ow' = map_of (mb_snapshots st) ow')
      \<and> (\<forall>k. held_key st ow \<noteq> Some k \<longrightarrow> seen st' k = seen st k)
      \<and> (\<forall>k. held_key st' ow = Some k \<longrightarrow> held_key st ow = Some k)
      \<and> (r = Inr () \<longrightarrow> map_of (mb_snapshots st') ow = None)
      \<and> (r = Inr () \<longrightarrow> (\<forall>k. held_key st ow = Some k \<longrightarrow> seen st' k = None \<and> gen (mb_world st') = gen (mb_world st) + 1))"
  proof (cases "map_of (mb_snapshots st) ow")
    case None
    then show ?thesis using assms by (simp add: Membership_Delete_def held_key_def)
  next
    case (Some p)
    obtain r1 st1 where d: "(deleteKey m (me_key p) :: ('w, 'e, unit) membership_call) st = (r1, st1)" by (metis surj_pair)
    note D = deleteKey_spec[OF assms(1) d]
    obtain r2 st2 where b: "(in_world (BumpFailed ow) Bump :: ('w, 'e, unit) membership_call) st1 = (r2, st2)" by (metis surj_pair)
    note B = bump_spec[OF D(1) b]
    show ?thesis using assms d b D B Some
      by (cases r1; cases r2) (auto simp: Membership_Delete_def api_bind_def held_key_def delete_conv')
  qed
  show "alive st'" using all by blast
  show "map_of (mb_snapshots st') ow' = map_of (mb_snapshots st) ow'" if "ow' \<noteq> ow" using all that by blast
  show "seen st' k = seen st k" if "held_key st ow \<noteq> Some k" using all that by blast
  show "held_key st ow = Some k" if "held_key st' ow = Some k" using all that by blast
  show "map_of (mb_snapshots st') ow = None" if "r = Inr ()" using all that by blast
  show "seen st' k = None \<and> gen (mb_world st') = gen (mb_world st) + 1" if "r = Inr ()" "held_key st ow = Some k" using all that by blast
qed

end

text \<open>The part of \<open>Apply\<close> after the write.\<close>

definition settle :: "('w, membership_key, sg_membership_val) hash_map \<Rightarrow> ('w, 'e, unit) api \<Rightarrow> string \<Rightarrow> membershipEntry
    \<Rightarrow> ('w, 'e, unit) membership_call" where
  "settle m Bump owner entry st =
     (let previous = map_of (mb_snapshots st) owner
      in api_bind (case previous of
            Some p \<Rightarrow> if me_key p \<noteq> me_key entry then logged (deleteKey m (me_key p) :: ('w, 'e, unit) membership_call) else api_return ()
          | None \<Rightarrow> api_return ()) (\<lambda>_.
         if previous = Some entry then api_return ()
         else api_bind (in_world (BumpFailed owner) Bump) (\<lambda>_ st'.
           (Inr (), st'\<lparr>mb_snapshots := AList.update owner entry (mb_snapshots st')\<rparr>))) st)"

lemma Apply_eq:
  assumes "fst key \<noteq> 0" "snd key \<noteq> 0" "gids \<noteq> []"
  shows "Membership_Apply m Bump ow key gids =
    api_bind (in_world (WriteFailed ow) (hm_update m key (membership_val (take MaxSGsPerNIC gids))))
      (\<lambda>_. settle m Bump ow \<lparr>me_key = key, me_groupIDs = take MaxSGsPerNIC gids\<rparr>)"
proof -
  have g: "(if MaxSGsPerNIC < length gids then take MaxSGsPerNIC gids else gids) = take MaxSGsPerNIC gids" by simp
  have "take MaxSGsPerNIC gids \<noteq> []" using assms(3) by (simp add: MaxSGsPerNIC_def)
  then show ?thesis
    using assms(1,2) unfolding Membership_Apply_def g Let_def settle_def[abs_def] by (simp cong: option.case_cong if_cong)
qed

context member_world
begin

lemma settle_spec:
  assumes "alive st" "(settle m Bump ow entry :: ('w, 'e, unit) membership_call) st = (r, st')"
  shows "alive st' \<and> (\<forall>ow'. ow' \<noteq> ow \<longrightarrow> map_of (mb_snapshots st') ow' = map_of (mb_snapshots st) ow')
      \<and> (\<forall>k. held_key st ow \<noteq> Some k \<or> k = me_key entry \<longrightarrow> seen st' k = seen st k)
      \<and> (\<forall>k. held_key st' ow = Some k \<longrightarrow> held_key st ow = Some k \<or> k = me_key entry)
      \<and> (r = Inr () \<longrightarrow> map_of (mb_snapshots st') ow = Some entry
          \<and> gen (mb_world st') = gen (mb_world st) + (if map_of (mb_snapshots st) ow = Some entry then 0 else 1))"
proof -
  let ?first = "case map_of (mb_snapshots st) ow of
      Some p \<Rightarrow> if me_key p \<noteq> me_key entry then logged (deleteKey m (me_key p) :: ('w, 'e, unit) membership_call) else api_return ()
    | None \<Rightarrow> api_return ()"
  obtain r1 st1 where f: "(?first :: ('w, 'e, unit) membership_call) st = (r1, st1)" by (rule prod.exhaust)
  have F: "alive st1 \<and> mb_snapshots st1 = mb_snapshots st \<and> gen (mb_world st1) = gen (mb_world st) \<and> r1 = Inr ()
      \<and> (\<forall>k. held_key st ow \<noteq> Some k \<or> k = me_key entry \<longrightarrow> seen st1 k = seen st k)"
  proof (cases "map_of (mb_snapshots st) ow")
    case None
    then show ?thesis using assms(1) f by simp
  next
    case (Some p)
    obtain r0 st0 where d: "(deleteKey m (me_key p) :: ('w, 'e, unit) membership_call) st = (r0, st0)" by (metis surj_pair)
    note D = deleteKey_spec[OF assms(1) d]
    show ?thesis using assms(1) f d D Some
      by (cases r0) (auto simp: logged_def api_bind_def api_try_def held_key_def split: if_splits)
  qed
  obtain r2 st2 where b: "(in_world (BumpFailed ow) Bump :: ('w, 'e, unit) membership_call) st1 = (r2, st2)" by (metis surj_pair)
  have B: "alive st2" "mb_snapshots st2 = mb_snapshots st1" "seen st2 = seen st1"
      "gen (mb_world st2) = (case r2 of Inr _ \<Rightarrow> gen (mb_world st1) + 1 | Inl _ \<Rightarrow> gen (mb_world st1))"
    using bump_spec[OF _ b] F by blast+
  have run: "(r, st') = (if map_of (mb_snapshots st) ow = Some entry then (Inr (), st1)
      else case r2 of Inl e \<Rightarrow> (Inl e, st2)
        | Inr _ \<Rightarrow> (Inr (), st2\<lparr>mb_snapshots := AList.update ow entry (mb_snapshots st2)\<rparr>))"
    using assms(2) f b F by (auto simp: settle_def Let_def api_bind_def split: sum.splits)
  show ?thesis using run F B
    by (cases "map_of (mb_snapshots st) ow = Some entry"; cases r2) (auto simp: update_conv' held_key_def)
qed

lemma Apply_spec:
  assumes "alive st" "(Membership_Apply m Bump ow key gids :: ('w, 'e, unit) membership_call) st = (r, st')"
  shows "alive st' \<and> (\<forall>ow'. ow' \<noteq> ow \<longrightarrow> map_of (mb_snapshots st') ow' = map_of (mb_snapshots st) ow')
      \<and> (\<forall>k. held_key st ow \<noteq> Some k \<and> k \<noteq> key \<longrightarrow> seen st' k = seen st k)
      \<and> (\<forall>k. held_key st' ow = Some k \<longrightarrow> held_key st ow = Some k \<or> k = key)
      \<and> (r = Inr () \<and> gids \<noteq> [] \<longrightarrow> seen st' key = Some (membership_val (take MaxSGsPerNIC gids))
          \<and> map_of (mb_snapshots st') ow = Some \<lparr>me_key = key, me_groupIDs = take MaxSGsPerNIC gids\<rparr>
          \<and> gen (mb_world st') = gen (mb_world st)
              + (if map_of (mb_snapshots st) ow = Some \<lparr>me_key = key, me_groupIDs = take MaxSGsPerNIC gids\<rparr> then 0 else 1))"
proof -
  consider (bad) "fst key = 0 \<or> snd key = 0" | (empty) "fst key \<noteq> 0" "snd key \<noteq> 0" "gids = []"
    | (wr) "fst key \<noteq> 0" "snd key \<noteq> 0" "gids \<noteq> []" by blast
  then show ?thesis
  proof cases
    case bad
    then show ?thesis using assms by (auto simp: Membership_Apply_def)
  next
    case empty
    then have "(Membership_Delete m Bump ow :: ('w, 'e, unit) membership_call) st = (r, st')"
      using assms(2) by (simp add: Membership_Apply_def)
    from Delete_spec[OF assms(1) this] show ?thesis using empty by blast
  next
    case wr
    let ?v = "membership_val (take MaxSGsPerNIC gids)" and ?e = "\<lparr>me_key = key, me_groupIDs = take MaxSGsPerNIC gids\<rparr>"
    obtain x w' where u: "hm_update m key ?v (mb_world st) = (x, w')" by (metis surj_pair)
    note U = upd[OF assms(1) u]
    show ?thesis
    proof (cases x)
      case (Inl e)
      then show ?thesis using assms u U wr by (auto simp: Apply_eq api_bind_def in_world_def held_key_def)
    next
      case (Inr y)
      let ?st1 = "st\<lparr>mb_world := w'\<rparr>"
      have run: "(settle m Bump ow ?e :: ('w, 'e, unit) membership_call) ?st1 = (r, st')"
        using assms(2) u Inr wr by (simp add: Apply_eq api_bind_def in_world_def)
      have "alive ?st1" using U by simp
      note S = settle_spec[OF this run]
      have "seen st' key = Some ?v" using S[THEN conjunct2, THEN conjunct2, THEN conjunct1, rule_format, of key] U Inr by simp
      then show ?thesis using S U Inr by (auto simp: held_key_def simp del: split_paired_All)
    qed
  qed
qed

end

context member_world
begin

lemma exec_member_frame:
  assumes "alive st" "(exec_member m Bump op :: ('w, 'e, unit) membership_call) st = (r, st')"
  shows "alive st'" "ow \<noteq> op_owner op \<Longrightarrow> map_of (mb_snapshots st') ow = map_of (mb_snapshots st) ow"
    "held_key st (op_owner op) \<noteq> Some k \<Longrightarrow> \<not> op_claims op k \<Longrightarrow> seen st' k = seen st k \<and> held_key st' (op_owner op) \<noteq> Some k"
proof -
  have "alive st' \<and> (\<forall>ow. ow \<noteq> op_owner op \<longrightarrow> map_of (mb_snapshots st') ow = map_of (mb_snapshots st) ow)
      \<and> (held_key st (op_owner op) \<noteq> Some k \<longrightarrow> \<not> op_claims op k \<longrightarrow> seen st' k = seen st k \<and> held_key st' (op_owner op) \<noteq> Some k)"
  proof (cases op)
    case (ApplyOp ow key gids)
    then have run: "(Membership_Apply m Bump ow key gids :: ('w, 'e, unit) membership_call) st = (r, st')" using assms(2) by simp
    show ?thesis using Apply_spec[OF assms(1) run] ApplyOp by (simp del: split_paired_All) metis
  next
    case (DeleteOp ow)
    then have run: "(Membership_Delete m Bump ow :: ('w, 'e, unit) membership_call) st = (r, st')" using assms(2) by simp
    show ?thesis unfolding DeleteOp op_owner.simps using Delete_spec(1-4)[OF assms(1) run] by blast
  qed
  then show "alive st'" "ow \<noteq> op_owner op \<Longrightarrow> map_of (mb_snapshots st') ow = map_of (mb_snapshots st) ow"
    "held_key st (op_owner op) \<noteq> Some k \<Longrightarrow> \<not> op_claims op k \<Longrightarrow> seen st' k = seen st k \<and> held_key st' (op_owner op) \<noteq> Some k"
    by blast+
qed

lemma written_stays:
  assumes "alive st" "seen st k = Some v" "\<And>ow'. ow' \<noteq> ow \<Longrightarrow> held_key st ow' \<noteq> Some k"
    and "list_all (\<lambda>op. op_owner op \<noteq> ow \<and> \<not> op_claims op k) ops"
  shows "seen (run_members m Bump ops st) k = Some v"
  using assms
proof (induction ops arbitrary: st)
  case (Cons op ops)
  obtain r st' where e: "(exec_member m Bump op :: ('w, 'e, unit) membership_call) st = (r, st')" by (metis surj_pair)
  have op: "op_owner op \<noteq> ow" "\<not> op_claims op k" using Cons.prems(4) by simp_all
  have frame: "alive st'" "\<And>ow. ow \<noteq> op_owner op \<Longrightarrow> map_of (mb_snapshots st') ow = map_of (mb_snapshots st) ow"
      "seen st' k = seen st k \<and> held_key st' (op_owner op) \<noteq> Some k"
    using exec_member_frame[OF Cons.prems(1) e] Cons.prems(3)[OF op(1)] op(2) by blast+
  have "held_key st' ow' \<noteq> Some k" if "ow' \<noteq> ow" for ow'
    using frame(2)[of ow'] frame(3) Cons.prems(3)[OF that] by (cases "ow' = op_owner op") (auto simp: held_key_def)
  then show ?case using Cons.IH[OF frame(1)] frame(3) Cons.prems(2,4) e by simp
qed simp

end

section \<open>The contract is kept\<close>

text \<open>A map of the kernel the generation counter lives in.\<close>

definition on_kernel :: "('s, 'k, 'v) hash_map \<Rightarrow> ('s policy_state, 'k, 'v) hash_map" where
  "on_kernel m = \<lparr>
     hm_lookup = (\<lambda>k d. apsnd (\<lambda>s. d\<lparr>pl_kernel := s\<rparr>) (hm_lookup m k (pl_kernel d))),
     hm_update = (\<lambda>k v d. apsnd (\<lambda>s. d\<lparr>pl_kernel := s\<rparr>) (hm_update m k v (pl_kernel d))),
     hm_create = (\<lambda>k v d. apsnd (\<lambda>s. d\<lparr>pl_kernel := s\<rparr>) (hm_create m k v (pl_kernel d))),
     hm_delete = (\<lambda>k d. apsnd (\<lambda>s. d\<lparr>pl_kernel := s\<rparr>) (hm_delete m k (pl_kernel d))),
     hm_view = (\<lambda>d. hm_view m (pl_kernel d))\<rparr>"

text \<open>Two maps of the kernel do not touch each other.\<close>

definition separate :: "('s, 'r, 'm) bpf_ops \<Rightarrow> ('s, 'k, 'v) hash_map \<Rightarrow> bool" where
  "separate ops m \<longleftrightarrow> (\<forall>k v s. kview ops (snd (hm_update m k v s)) = kview ops s)
     \<and> (\<forall>k s. kview ops (snd (hm_delete m k s)) = kview ops s)
     \<and> (\<forall>x s. hm_view m (snd (epochStore ops x s)) = hm_view m s)"

lemma separate_update:
  assumes "separate ops m" "hm_update m k v s = (r, s')"
  shows "kview ops s' = kview ops s"
  using assms(1)[unfolded separate_def, THEN conjunct1, rule_format, of k v s] assms(2) by simp

lemma separate_delete:
  assumes "separate ops m" "hm_delete m k s = (r, s')"
  shows "kview ops s' = kview ops s"
  using assms(1)[unfolded separate_def, THEN conjunct2, THEN conjunct1, rule_format, of k s] assms(2) by simp

lemma separate_epoch:
  assumes "separate ops m" "epochStore ops x s = (r, s')"
  shows "hm_view m s' = hm_view m s"
  using assms(1)[unfolded separate_def, THEN conjunct2, THEN conjunct2, rule_format, of x s] assms(2) by simp

definition members_live :: "nat \<Rightarrow> 'r \<Rightarrow> ('s, 'r, 'm) bpf_ops \<Rightarrow> ('s, 'k, 'v) hash_map \<Rightarrow> 's policy_state \<Rightarrow> bool" where
  "members_live cap zero ops m d \<longleftrightarrow> synced cap zero ops d \<and> hash_map_ok m \<and> separate ops m"

interpretation members: member_world "on_kernel m" "Epoch_Bump ops" "members_live cap zero ops m" "\<lambda>d. kv_epoch (view_of ops d)"
  for m :: "('s, membership_key, sg_membership_val) hash_map" and ops :: "('s, 'r, 'm) bpf_ops" and cap zero
proof
  fix w w' :: "'s policy_state" and k v r
  assume a: "members_live cap zero ops m w" "hm_update (on_kernel m) k v w = (r, w')"
  then obtain s' where u: "hm_update m k v (pl_kernel w) = (r, s')" "w' = w\<lparr>pl_kernel := s'\<rparr>"
    by (cases "hm_update m k v (pl_kernel w)") (auto simp: on_kernel_def)
  have ok: "hash_map_ok m" and "kview ops s' = kview ops (pl_kernel w)"
    using a(1) separate_update[OF _ u(1), of ops] by (simp_all add: members_live_def)
  then show "members_live cap zero ops m w' \<and> kv_epoch (view_of ops w') = kv_epoch (view_of ops w)
      \<and> hm_view (on_kernel m) w' = (case r of Inr _ \<Rightarrow> (hm_view (on_kernel m) w)(k \<mapsto> v) | Inl _ \<Rightarrow> hm_view (on_kernel m) w)"
    using a(1) u(2) hm_update_spec[OF ok u(1)]
    by (cases r) (auto simp: members_live_def synced_def view_of_def on_kernel_def)
next
  fix w w' :: "'s policy_state" and k r
  assume a: "members_live cap zero ops m w" "hm_delete (on_kernel m) k w = (r, w')"
  then obtain s' where u: "hm_delete m k (pl_kernel w) = (r, s')" "w' = w\<lparr>pl_kernel := s'\<rparr>"
    by (cases "hm_delete m k (pl_kernel w)") (auto simp: on_kernel_def)
  have ok: "hash_map_ok m" and "kview ops s' = kview ops (pl_kernel w)"
    using a(1) separate_delete[OF _ u(1), of ops] by (simp_all add: members_live_def)
  then show "members_live cap zero ops m w' \<and> kv_epoch (view_of ops w') = kv_epoch (view_of ops w)
      \<and> hm_view (on_kernel m) w' = (case r of Inr _ \<Rightarrow> (hm_view (on_kernel m) w)(k := None) | Inl _ \<Rightarrow> hm_view (on_kernel m) w)
      \<and> (r = Inl KeyNotExist \<longrightarrow> hm_view (on_kernel m) w k = None)"
    using a(1) u(2) hm_delete_spec[OF ok u(1)]
    by (cases r) (auto simp: members_live_def synced_def view_of_def on_kernel_def)
next
  fix w w' :: "'s policy_state" and b
  assume a: "members_live cap zero ops m w" "Epoch_Bump ops w = (b, w')"
  have "hm_view m (pl_kernel w') = hm_view m (pl_kernel w)"
    using a separate_epoch[of ops m]
    by (auto simp: Epoch_Bump_def kern_def api_bind_def members_live_def Let_def split: prod.splits sum.splits)
  moreover have "synced cap zero ops w" "synced cap zero ops w'" using a Epoch_Bump_spec[of cap zero ops w b w'] by (simp_all add: members_live_def)
  ultimately show "members_live cap zero ops m w' \<and> hm_view (on_kernel m) w' = hm_view (on_kernel m) w
      \<and> kv_epoch (view_of ops w') = (case b of Inr _ \<Rightarrow> kv_epoch (view_of ops w) + 1 | Inl _ \<Rightarrow> kv_epoch (view_of ops w))"
    using a Epoch_Bump_spec[OF \<open>synced cap zero ops w\<close> a(2)]
    by (cases b) (auto simp: members_live_def on_kernel_def synced_def)
qed

section \<open>Membership reaches the data plane\<close>

lemma attached_membership_val: "sg_attached (membership_val (take MaxSGsPerNIC gids)) = take MaxSGsPerNIC gids"
  by (cases gids; cases "tl gids") (auto simp: sg_attached_def membership_val_def MAX_SGS_PER_NIC_def MaxSGsPerNIC_def)


text \<open>
  C38. An address that moves to another interface before its first owner is gone loses its groups. When
  \<open>a\<close> was applied with an address, \<open>b\<close> is applied with the same one, and then \<open>a\<close> is deleted, the data plane
  finds no groups for the address any more, while the store still remembers \<open>b\<close> as written.
\<close>

theorem membership_taken_away:
  assumes "members_live cap zero ops m (mb_world st)" "a \<noteq> b" "ga \<noteq> []" "gb \<noteq> []"
    and "Membership_Apply (on_kernel m) (Epoch_Bump ops) a key ga st = (Inr (), st1)"
    and "Membership_Apply (on_kernel m) (Epoch_Bump ops) b key gb st1 = (Inr (), st2)"
    and "Membership_Delete (on_kernel m) (Epoch_Bump ops) a st2 = (Inr (), st3)"
  shows "hm_view m (pl_kernel (mb_world st3)) key = None
    \<and> map_of (mb_snapshots st3) b = Some \<lparr>me_key = key, me_groupIDs = take MaxSGsPerNIC gb\<rparr>"
proof -
  note A = members.Apply_spec[OF assms(1,5)]
  have live1: "members_live cap zero ops m (mb_world st1)" using A by blast
  note B = members.Apply_spec[OF live1 assms(6)]
  have live2: "members_live cap zero ops m (mb_world st2)" using B by blast
  have "held_key st2 a = Some key" using A B assms(2,3) by (simp add: held_key_def)
  then have "hm_view (on_kernel m) (mb_world st3) key = None" using members.Delete_spec(6)[OF live2 assms(7)] by blast
  moreover have "map_of (mb_snapshots st3) b = map_of (mb_snapshots st2) b"
    using members.Delete_spec(2)[OF live2 assms(7), of b] assms(2) by blast
  ultimately show ?thesis using B assms(4) by (simp add: on_kernel_def)
qed

section \<open>Two interfaces in memory\<close>

text \<open>The policy maps and the membership map next to each other.\<close>

definition at_fst :: "('s, 'e, 'a) api \<Rightarrow> ('s \<times> 't, 'e, 'a) api" where
  "at_fst c st = (case c (fst st) of (r, s') \<Rightarrow> (r, s', snd st))"

definition at_snd :: "('t, 'e, 'a) api \<Rightarrow> ('s \<times> 't, 'e, 'a) api" where
  "at_snd c st = (case c (snd st) of (r, t') \<Rightarrow> (r, fst st, t'))"

definition left_ops :: "('s, 'r, 'm) bpf_ops \<Rightarrow> ('s \<times> 't, 'r, 'm) bpf_ops" where
  "left_ops ops = \<lparr>newMap = at_fst (newMap ops), innerUpdate = (\<lambda>h slot r. at_fst (innerUpdate ops h slot r)),
     closeMap = (\<lambda>h. at_fst (closeMap ops h)), outerUpdate = (\<lambda>g h. at_fst (outerUpdate ops g h)),
     outerDelete = (\<lambda>g. at_fst (outerDelete ops g)), metaUpdate = (\<lambda>g v. at_fst (metaUpdate ops g v)),
     metaDelete = (\<lambda>g. at_fst (metaDelete ops g)), epochLoad = at_fst (epochLoad ops),
     epochStore = (\<lambda>x. at_fst (epochStore ops x)), kview = (\<lambda>st. kview ops (fst st))\<rparr>"

definition right_map :: "('t, 'k, 'v) hash_map \<Rightarrow> ('s \<times> 't, 'k, 'v) hash_map" where
  "right_map m = \<lparr>hm_lookup = (\<lambda>k. at_snd (hm_lookup m k)), hm_update = (\<lambda>k v. at_snd (hm_update m k v)),
     hm_create = (\<lambda>k v. at_snd (hm_create m k v)), hm_delete = (\<lambda>k. at_snd (hm_delete m k)), hm_view = (\<lambda>st. hm_view m (snd st))\<rparr>"

lemma kview_ok_fst: "kview_ok v c fin failed \<Longrightarrow> kview_ok (\<lambda>st. v (fst st)) (at_fst c) fin failed"
  unfolding kview_ok_def at_fst_def by (auto split: prod.splits)

lemma left_ops_ok: "bpf_ok cap zero ops \<Longrightarrow> bpf_ok cap zero (left_ops ops)"
  unfolding bpf_ok_def left_ops_def bpf_ops.select_convs
  by (intro conjI allI impI kview_ok_fst) (auto simp: at_fst_def split: prod.splits)

lemma at_snd_run: "at_snd c st = (r, st') \<Longrightarrow> c (snd st) = (r, snd st')"
  by (auto simp: at_snd_def split: prod.splits)

lemma right_map_ok: "hash_map_ok m \<Longrightarrow> hash_map_ok (right_map m)"
  unfolding hash_map_ok_def right_map_def hash_map.select_convs
  by (intro conjI allI impI; drule at_snd_run; blast)

lemma separate_left_right: "separate (left_ops ops) (right_map m)"
  by (auto simp: separate_def left_ops_def right_map_def at_fst_def at_snd_def split: prod.splits)

definition ex_members_ops :: "(((acl_rule, acl_meta_val) mem_kernel \<times> (membership_key, sg_membership_val) gomap), acl_rule, acl_meta_val) bpf_ops" where
  "ex_members_ops = left_ops (mem_bpf 4 zero_acl_rule)"

definition ex_members_map :: "(((acl_rule, acl_meta_val) mem_kernel \<times> (membership_key, sg_membership_val) gomap), membership_key, sg_membership_val) hash_map" where
  "ex_members_map = right_map (mem_hash 8)"

definition ex_members :: "((acl_rule, acl_meta_val) mem_kernel \<times> (membership_key, sg_membership_val) gomap) policy_state membership_state" where
  "ex_members = \<lparr>mb_world = \<lparr>pl_kernel = (\<lparr>mk_outer = [], mk_inner = [], mk_meta = [], mk_epoch = 3\<rparr>, []),
      pl_snapshots = [], pl_installed = [], pl_current = 3\<rparr>, mb_snapshots = []\<rparr>"

lemma ex_members_live: "members_live 4 zero_acl_rule ex_members_ops ex_members_map (mb_world ex_members)"
proof -
  have "kv_epoch (view_of ex_members_ops (mb_world ex_members)) = pl_current (mb_world ex_members)"
    by (simp add: ex_members_def view_of_def ex_members_ops_def left_ops_def mem_bpf_def mem_kview_def)
  then show ?thesis
    unfolding members_live_def synced_def
    by (simp add: ex_members_ops_def ex_members_map_def left_ops_ok mem_bpf_ok right_map_ok mem_hash_ok separate_left_right)
qed

abbreviation ex_apply where
  "ex_apply ow gids \<equiv> Membership_Apply (on_kernel ex_members_map) (Epoch_Bump ex_members_ops) ow (7, 0x0500100A) gids"


theorem membership_taken_away_witness:
  "hm_view ex_members_map (pl_kernel (mb_world (snd (Membership_Delete (on_kernel ex_members_map) (Epoch_Bump ex_members_ops) ''ns/a''
      (snd (ex_apply ''ns/b'' [11] (snd (ex_apply ''ns/a'' [11] ex_members)))))))) (7, 0x0500100A) = None"
proof -
  let ?del = "Membership_Delete (on_kernel ex_members_map) (Epoch_Bump ex_members_ops) ''ns/a''"
  have "fst (ex_apply ''ns/a'' [11] ex_members) = Inr ()" by code_simp
  then obtain st1 where a: "ex_apply ''ns/a'' [11] ex_members = (Inr (), st1)" by (metis prod.collapse)
  have "fst (ex_apply ''ns/b'' [11] (snd (ex_apply ''ns/a'' [11] ex_members))) = Inr ()" by code_simp
  then obtain st2 where b: "ex_apply ''ns/b'' [11] st1 = (Inr (), st2)" unfolding a by (metis prod.collapse snd_conv)
  have "fst (?del (snd (ex_apply ''ns/b'' [11] (snd (ex_apply ''ns/a'' [11] ex_members))))) = Inr ()" by code_simp
  then obtain st3 where d: "?del st2 = (Inr (), st3)" unfolding a snd_conv b by (metis prod.collapse)
  show ?thesis using membership_taken_away[OF ex_members_live _ _ _ a b d] unfolding a snd_conv b d by simp
qed

end
