(* ===== verification/SGMembership.thy ===== *)
theory SGMembership
  imports Membership
begin

text \<open>
  The reconciler of \<open>sg_membership_map\<close> (\<open>reconciler/sg_membership.go\<close>). The cluster is read through the
  Kubernetes client, a parameter: what its cache answers to each read is a field of \<open>cluster_reads\<close>, and so
  is the split of a queue key by \<open>client-go\<close>.
\<close>

section \<open>The objects it reads\<close>

datatype read_error = ObjectNotFound | ReadFailed string

record network_interface =
  nif_namespace :: string
  nif_name :: string
  nif_subnet :: string
  nif_l2Network :: string
  nif_elasticIP :: string
  nif_securityGroups :: "string list"
  nif_address :: string
  nif_effectiveGroups :: "(string \<times> u32) list"

record named_network =
  nn_name :: string
  nn_vpc :: string
  nn_gateway :: bool

record vpc_object =
  vo_name :: string
  vo_vpcID :: u32

text \<open>\<open>nn_gateway\<close> is that an L2Network declares a gateway; a Subnet does not use it.\<close>

record cluster_reads =
  cr_split :: "string \<Rightarrow> (string \<times> string) option"
  cr_interface :: "string \<Rightarrow> string \<Rightarrow> read_error + network_interface"
  cr_l2Network :: "string \<Rightarrow> read_error + named_network"
  cr_subnet :: "string \<Rightarrow> read_error + named_network"
  cr_vpc :: "string \<Rightarrow> read_error + vpc_object"

section \<open>One pass\<close>

definition read_vpc :: "cluster_reads \<Rightarrow> string \<Rightarrow> read_error + vpc_object option" where
  "read_vpc reads name =
     (case cr_vpc reads name of
        Inl e \<Rightarrow> if e = ObjectNotFound then Inr None else Inl e
      | Inr vpc \<Rightarrow> if vo_vpcID vpc = 0 then Inr None else Inr (Some vpc))"

definition networkVpc :: "cluster_reads \<Rightarrow> network_interface \<Rightarrow> read_error + vpc_object option" where
  "networkVpc reads iface =
     (if nif_l2Network iface \<noteq> [] then
        (case cr_l2Network reads (nif_l2Network iface) of
           Inl e \<Rightarrow> if e = ObjectNotFound then Inr None else Inl e
         | Inr network \<Rightarrow> if \<not> nn_gateway network then Inr None else read_vpc reads (nn_vpc network))
      else if nif_subnet iface \<noteq> [] then
        (case cr_subnet reads (nif_subnet iface) of
           Inl e \<Rightarrow> if e = ObjectNotFound then Inr None else Inl e
         | Inr subnet \<Rightarrow> read_vpc reads (nn_vpc subnet))
      else Inr None)"

definition parse_address :: "string \<Rightarrow> IP option" where
  "parse_address s = (case net_ParseIP s of Some ip \<Rightarrow> Some ip | None \<Rightarrow> map_option fst (ParseCIDR s))"

datatype 'e reconcile_error = BadKey | ReadErr read_error | StoreErr "'e membership_error"

definition store_call :: "('w, 'e, 'a) membership_call \<Rightarrow> ('w membership_state, 'e reconcile_error, 'a) api" where
  "store_call c st = (case c st of (Inl e, st') \<Rightarrow> (Inl (StoreErr e), st') | (Inr x, st') \<Rightarrow> (Inr x, st'))"

definition SGMembership_Reconcile ::
  "cluster_reads \<Rightarrow> ('w, membership_key, sg_membership_val) hash_map \<Rightarrow> ('w, 'e, unit) api \<Rightarrow> string
     \<Rightarrow> ('w membership_state, 'e reconcile_error, unit) api" where
  "SGMembership_Reconcile reads m Bump key =
     (case cr_split reads key of
        None \<Rightarrow> api_throw BadKey
      | Some (namespace, name) \<Rightarrow>
          (case cr_interface reads namespace name of
             Inl e \<Rightarrow> if e = ObjectNotFound then store_call (Membership_Delete m Bump key) else api_throw (ReadErr e)
           | Inr iface \<Rightarrow>
               if nif_address iface = [] then store_call (Membership_Delete m Bump key)
               else case parse_address (nif_address iface) of
                 None \<Rightarrow> store_call (Membership_Delete m Bump key)
               | Some ip \<Rightarrow>
                   (case IPv4ToBE ip of
                      None \<Rightarrow> store_call (Membership_Delete m Bump key)
                    | Some ipBE \<Rightarrow>
                        (case networkVpc reads iface of
                           Inl e \<Rightarrow> api_throw (ReadErr e)
                         | Inr None \<Rightarrow> store_call (Membership_Delete m Bump key)
                         | Inr (Some vpc) \<Rightarrow>
                             let gids = filter (\<lambda>g. g \<noteq> 0) (map snd (nif_effectiveGroups iface))
                             in if gids = [] then store_call (Membership_Delete m Bump key)
                                else store_call (Membership_Apply m Bump key (vo_vpcID vpc, ipBE) gids)))))"

section \<open>Fan-out\<close>

text \<open>Which interfaces to look at again when an object changes; a failed list gives none.\<close>

definition nif_key :: "network_interface \<Rightarrow> string" where
  "nif_key iface = nif_namespace iface @ ''/'' @ nif_name iface"

definition network_vpcs :: "named_network list \<Rightarrow> named_network list \<Rightarrow> (string, string) gomap" where
  "network_vpcs subnets l2Networks =
     foldl (\<lambda>acc n. AList.update (nn_name n) (nn_vpc n) acc)
       (foldl (\<lambda>acc n. AList.update (nn_name n) (nn_vpc n) acc) [] subnets) l2Networks"

text \<open>Reading an absent key of the map gives the empty string.\<close>

definition FanOutVpcToInterfaces :: "network_interface list option \<Rightarrow> named_network list option \<Rightarrow> named_network list option
    \<Rightarrow> string \<Rightarrow> string list" where
  "FanOutVpcToInterfaces ifaces subnets l2Networks vpc =
     (case (ifaces, subnets, l2Networks) of
        (Some is, Some ss, Some ls) \<Rightarrow>
          map nif_key (filter (\<lambda>iface.
            (case map_of (network_vpcs ss ls) (if nif_l2Network iface \<noteq> [] then nif_l2Network iface else nif_subnet iface) of
               None \<Rightarrow> [] | Some v \<Rightarrow> v) = vpc) is)
      | _ \<Rightarrow> [])"

definition FanOutL2NetworkToInterfaces :: "network_interface list option \<Rightarrow> string \<Rightarrow> string list" where
  "FanOutL2NetworkToInterfaces ifaces network =
     (case ifaces of None \<Rightarrow> [] | Some is \<Rightarrow> map nif_key (filter (\<lambda>iface. nif_l2Network iface = network) is))"

definition FanOutSubnetToInterfaces :: "network_interface list option \<Rightarrow> string \<Rightarrow> string list" where
  "FanOutSubnetToInterfaces ifaces subnet =
     (case ifaces of None \<Rightarrow> [] | Some is \<Rightarrow> map nif_key (filter (\<lambda>iface. nif_subnet iface = subnet) is))"

definition FanOutSGToInterfaces :: "network_interface list option \<Rightarrow> string \<Rightarrow> string list" where
  "FanOutSGToInterfaces ifaces sg =
     (case ifaces of None \<Rightarrow> [] | Some is \<Rightarrow> map nif_key (filter (\<lambda>iface. sg \<in> set (nif_securityGroups iface)) is))"

section \<open>An interface reaches the data plane\<close>

lemma parseIPv4Loop_bad: "c \<in> set s \<Longrightarrow> \<not> is_digit c \<Longrightarrow> c \<noteq> CHR ''.'' \<Longrightarrow> parseIPv4Loop dot val n fs s = None"
  by (induction dot val n fs s rule: parseIPv4Loop.induct) (auto simp: Let_def)

lemma ParseAddr_slash: "ParseAddr (string4 w @ CHR ''/'' # s) = None"
proof -
  obtain a b c d where bs: "be_bytes 4 w = [a, b, c, d]"
    by (rule length_4E[of "be_bytes 4 w"]) simp
  let ?t = "string4 w @ CHR ''/'' # s"
  have "ParseAddr_scan ?t ?t = parseIPv4 ?t"
    unfolding string4_def bs using unat_u8_less[of a]
    by (simp add: ParseAddr_scan_digits append_decimal_digits)
  moreover have "parseIPv4 ?t = None"
    using parseIPv4Loop_bad[of "CHR ''/''" ?t True 0 0 "[]"] by (simp add: parseIPv4_def parseIPv4Fields_def is_digit_def)
  ultimately show ?thesis by (simp add: ParseAddr_def)
qed

lemma parse_address_text:
  "parse_address (string4 w) = Some (As16 (V4 w))"
  "n \<le> 32 \<Longrightarrow> parse_address (string4 w @ ''/'' @ itoa n) = Some (As16 (V4 w))"
proof -
  have ip: "net_parseIP (string4 w) = Some (V4 w)" by (simp add: net_parseIP_def ParseAddr_string4)
  then show "parse_address (string4 w) = Some (As16 (V4 w))" by (simp add: parse_address_def net_ParseIP_def)
  assume n: "n \<le> 32"
  have "ParseCIDR (string4 w @ ''/'' @ itoa n) = Some (As16 (V4 w), CIDRMask n 32)"
    using n ip by (simp add: ParseCIDR_def first_slash_append string4_no_slash)
  then show "parse_address (string4 w @ ''/'' @ itoa n) = Some (As16 (V4 w))"
    by (simp add: parse_address_def ParseAddr_slash net_ParseIP_def net_parseIP_def)
qed

text \<open>
  C39. The SecurityGroups of an interface reach the data plane. When the cache knows the interface, its
  address (bare or with a prefix length), its network with a numbered Vpc, and at least one numbered group,
  a pass that succeeds leaves, under that Vpc and address, the first two numbered groups.
\<close>

theorem interface_groups_reach_dataplane:
  assumes "members_live cap zero ops m (mb_world st)"
    and "cr_split reads key = Some (ns, name)" "cr_interface reads ns name = Inr iface"
    and "nif_address iface = string4 w \<or> nif_address iface = string4 w @ ''/'' @ itoa n" "n \<le> 32"
    and "networkVpc reads iface = Inr (Some vpc)"
    and "gids = filter (\<lambda>g. g \<noteq> 0) (map snd (nif_effectiveGroups iface))" "gids \<noteq> []"
    and "SGMembership_Reconcile reads (on_kernel m) (Epoch_Bump ops) key st = (Inr (), st1)"
  shows "\<exists>v. hm_view m (pl_kernel (mb_world st1)) (vo_vpcID vpc, bpf_htonl w) = Some v \<and> sg_attached v = take MaxSGsPerNIC gids"
proof -
  have ne: "nif_address iface \<noteq> []" using assms(4) ParseAddr_string4[of w] by (auto simp: ParseAddr_def)
  have "parse_address (nif_address iface) = Some (As16 (V4 w))" using assms(4,5) parse_address_text by metis
  moreover have "IPv4ToBE (As16 (V4 w)) = Some (bpf_htonl w)" by (simp add: IPv4ToBE_def bpf_htonl_def del: As16.simps)
  ultimately have "store_call (Membership_Apply (on_kernel m) (Epoch_Bump ops) key (vo_vpcID vpc, bpf_htonl w) gids) st = (Inr (), st1)"
    using assms(2,3,6-9) ne by (simp add: SGMembership_Reconcile_def Let_def del: As16.simps)
  then have "Membership_Apply (on_kernel m) (Epoch_Bump ops) key (vo_vpcID vpc, bpf_htonl w) gids st = (Inr (), st1)"
    by (auto simp: store_call_def split: prod.splits sum.splits)
  from members.Apply_spec[OF assms(1) this] assms(8)
  have "hm_view (on_kernel m) (mb_world st1) (vo_vpcID vpc, bpf_htonl w) = Some (membership_val (take MaxSGsPerNIC gids))" by blast
  then show ?thesis using attached_membership_val by (auto simp: on_kernel_def)
qed

section \<open>Fan-out finds the interfaces\<close>

lemma update_fold_map:
  "map_of (foldl (\<lambda>acc n. AList.update (nn_name n) (nn_vpc n) acc) acc ns) x =
     (case find (\<lambda>n. nn_name n = x) (rev ns) of Some n \<Rightarrow> Some (nn_vpc n) | None \<Rightarrow> map_of acc x)"
  by (induction ns arbitrary: acc rule: rev_induct) (auto simp: update_conv')

lemma find_unique:
  assumes "distinct (map f xs)" "y \<in> set xs"
  shows "find (\<lambda>n. f n = f y) (rev xs) = Some y"
proof -
  have "distinct (map f zs) \<Longrightarrow> y \<in> set zs \<Longrightarrow> find (\<lambda>n. f n = f y) zs = Some y" for zs
    by (induction zs) auto
  from this[of "rev xs"] show ?thesis using assms by (simp add: rev_map[symmetric])
qed

text \<open>
  A change of a Vpc re-evaluates the interfaces of its networks, when no Subnet and L2Network share a
  name: every interface on one of them is enqueued.
\<close>

theorem FanOutVpc_complete:
  assumes "distinct (map nn_name (ss @ ls))" "iface \<in> set is"
    and "n \<in> set (if nif_l2Network iface \<noteq> [] then ls else ss)"
    and "nn_name n = (if nif_l2Network iface \<noteq> [] then nif_l2Network iface else nif_subnet iface)"
  shows "nif_key iface \<in> set (FanOutVpcToInterfaces (Some is) (Some ss) (Some ls) (nn_vpc n))"
proof -
  have "map_of (network_vpcs ss ls) (nn_name n) = Some (nn_vpc n)"
  proof (cases "nif_l2Network iface \<noteq> []")
    case True
    then have "find (\<lambda>x. nn_name x = nn_name n) (rev ls) = Some n" using assms(1,3) find_unique[of nn_name ls n] by simp
    then show ?thesis by (simp add: network_vpcs_def update_fold_map)
  next
    case False
    then have "find (\<lambda>x. nn_name x = nn_name n) (rev ss) = Some n" using assms(1,3) find_unique[of nn_name ss n] by simp
    moreover have "find (\<lambda>x. nn_name x = nn_name n) (rev ls) = None" using False assms(1,3) by (auto simp: find_None_iff)
    ultimately show ?thesis by (simp add: network_vpcs_def update_fold_map)
  qed
  then show ?thesis using assms(2,4) by (auto simp: FanOutVpcToInterfaces_def)
qed

text \<open>
  An interface can be missed: when an L2Network of another Vpc has the name of a Subnet, a
  change of the Vpc of the Subnet does not re-evaluate the interfaces on the Subnet.
\<close>

theorem FanOutVpc_name_collision:
  assumes "distinct (map nn_name ls)" "l \<in> set ls" "nn_name l = nif_subnet iface" "nif_l2Network iface = []" "nn_vpc l \<noteq> v"
  shows "FanOutVpcToInterfaces (Some [iface]) (Some ss) (Some ls) v = []"
  using find_unique[OF assms(1,2)] assms(3-5) by (simp add: FanOutVpcToInterfaces_def network_vpcs_def update_fold_map)

section \<open>On a concrete cluster\<close>

definition ex_iface :: network_interface where
  "ex_iface = \<lparr>nif_namespace = ''ns'', nif_name = ''a'', nif_subnet = ''web'', nif_l2Network = [], nif_elasticIP = [],
     nif_securityGroups = [''sg''], nif_address = string4 0x0A100005 @ ''/'' @ itoa 24, nif_effectiveGroups = [(''sg'', 11), (''new'', 0)]\<rparr>"

definition ex_reads :: cluster_reads where
  "ex_reads = \<lparr>cr_split = (\<lambda>key. case split_on CHR ''/'' key of [ns, name] \<Rightarrow> Some (ns, name) | _ \<Rightarrow> None),
     cr_interface = (\<lambda>ns name. if (ns, name) = (''ns'', ''a'') then Inr ex_iface else Inl ObjectNotFound),
     cr_l2Network = (\<lambda>_. Inl ObjectNotFound), cr_subnet = (\<lambda>name. Inr \<lparr>nn_name = name, nn_vpc = ''prod'', nn_gateway = False\<rparr>),
     cr_vpc = (\<lambda>name. Inr \<lparr>vo_name = name, vo_vpcID = 7\<rparr>)\<rparr>"

theorem interface_groups_reach_dataplane_witness:
  "\<exists>v. hm_view ex_members_map (pl_kernel (mb_world (snd (SGMembership_Reconcile ex_reads (on_kernel ex_members_map)
      (Epoch_Bump ex_members_ops) ''ns/a'' ex_members)))) (7, bpf_htonl 0x0A100005) = Some v \<and> sg_attached v = [11]"
proof -
  let ?run = "SGMembership_Reconcile ex_reads (on_kernel ex_members_map) (Epoch_Bump ex_members_ops) ''ns/a'' ex_members"
  have "fst ?run = Inr ()" by code_simp
  then obtain st1 where run: "?run = (Inr (), st1)" by (metis prod.collapse)
  have split: "cr_split ex_reads ''ns/a'' = Some (''ns'', ''a'')" by code_simp
  have addr: "nif_address ex_iface = string4 0x0A100005 \<or> nif_address ex_iface = string4 0x0A100005 @ ''/'' @ itoa 24" by (simp add: ex_iface_def)
  have vpc: "networkVpc ex_reads ex_iface = Inr (Some \<lparr>vo_name = ''prod'', vo_vpcID = 7\<rparr>)" by code_simp
  have gids: "[11] = filter (\<lambda>g. g \<noteq> 0) (map snd (nif_effectiveGroups ex_iface))" by (simp add: ex_iface_def)
  have iface: "cr_interface ex_reads ''ns'' ''a'' = Inr ex_iface" by (simp add: ex_reads_def)
  show ?thesis
    using interface_groups_reach_dataplane[OF ex_members_live split iface addr _ vpc gids _ run] unfolding run by (simp add: MaxSGsPerNIC_def)
qed

theorem FanOutVpc_complete_witness:
  "nif_key ex_iface \<in> set (FanOutVpcToInterfaces (Some [ex_iface]) (Some [\<lparr>nn_name = ''web'', nn_vpc = ''prod'', nn_gateway = False\<rparr>]) (Some []) ''prod'')"
  using FanOutVpc_complete[of "[\<lparr>nn_name = ''web'', nn_vpc = ''prod'', nn_gateway = False\<rparr>]" "[]" ex_iface "[ex_iface]"
      "\<lparr>nn_name = ''web'', nn_vpc = ''prod'', nn_gateway = False\<rparr>"]
  by (simp add: ex_iface_def)

theorem FanOutVpc_name_collision_witness:
  "FanOutVpcToInterfaces (Some [ex_iface]) (Some [\<lparr>nn_name = ''web'', nn_vpc = ''prod'', nn_gateway = False\<rparr>])
     (Some [\<lparr>nn_name = ''web'', nn_vpc = ''lab'', nn_gateway = True\<rparr>]) ''prod'' = []"
  by (rule FanOutVpc_name_collision[where l = "\<lparr>nn_name = ''web'', nn_vpc = ''lab'', nn_gateway = True\<rparr>"]) (simp_all add: ex_iface_def)

end
