(* ===== verification/DnsService.thy ===== *)
theory DnsService
  imports VirtRegistry SGMembership
begin

text \<open>
  The DNS service of every Subnet (\<open>virtservice/dns/service.go\<close>): a pass over a Subnet binds its resolver
  address in the registry, over UDP and TCP, rebinds it when the address, the MAC or the tenant changes, and
  unbinds it when the Subnet is gone or has no resolver. The service knows the registry by its interface
  only, so the registry is a record of calls here; \<open>service_registry\<close> states what the service relies on, and
  the registry of \<open>VirtRegistry\<close> is an instance. The loop that accepts TCP connections is not modelled; a
  binding being torn down waits for it.
\<close>

section \<open>Parsing a MAC address (net.ParseMAC)\<close>

definition xtoi2 :: "string \<Rightarrow> char option \<Rightarrow> u8 option" where
  "xtoi2 s e =
     (if length s > 2 \<and> Some (s ! 2) \<noteq> e then None
      else if length s < 2 then None
      else case (hex_val (s ! 0), hex_val (s ! 1)) of
        (Some a, Some b) \<Rightarrow> Some (of_nat (16 * a + b))
      | _ \<Rightarrow> None)"

fun all_some :: "'a option list \<Rightarrow> 'a list option" where
  "all_some [] = Some []"
| "all_some (x # xs) = (case x of None \<Rightarrow> None | Some a \<Rightarrow> map_option (Cons a) (all_some xs))"

definition ParseMAC :: "string \<Rightarrow> mac option" where
  "ParseMAC s =
     (if length s < 14 then None
      else if s ! 2 = CHR '':'' \<or> s ! 2 = CHR ''-'' then
        (if (length s + 1) mod 3 \<noteq> 0 then None
         else let n = (length s + 1) div 3
           in if n \<noteq> 6 \<and> n \<noteq> 8 \<and> n \<noteq> 20 then None
              else all_some (map (\<lambda>i. xtoi2 (drop (3 * i) s) (Some (s ! 2))) [0..<n]))
      else if s ! 4 = CHR ''.'' then
        (if (length s + 1) mod 5 \<noteq> 0 then None
         else let n = 2 * (length s + 1) div 5
           in if n \<noteq> 6 \<and> n \<noteq> 8 \<and> n \<noteq> 20 then None
              else map_option concat (all_some (map (\<lambda>i.
                (case (xtoi2 (take 2 (drop (5 * i) s)) None, xtoi2 (drop (5 * i + 2) s) (Some (s ! 4))) of
                   (Some a, Some b) \<Rightarrow> Some [a, b] | _ \<Rightarrow> None)) [0..<n div 2])))
      else None)"

section \<open>The service\<close>

record subnet_object =
  so_name :: string
  so_vpc :: string
  so_dns :: string
  so_dnsMAC :: string
  so_vni :: u32

text \<open>The calls of the registry the service makes; a registration returns the key it can be undone with.\<close>

record ('st, 'e, 'l) registry_calls =
  rc_RegisterUDPHandler :: "service_spec \<Rightarrow> 'st \<Rightarrow> ('e + binding_key) \<times> 'st"
  rc_ListenTCP :: "service_spec \<Rightarrow> 'st \<Rightarrow> ('e + 'l \<times> binding_key) \<times> 'st"
  rc_unregister :: "binding_key \<Rightarrow> 'st \<Rightarrow> ('e + unit) \<times> 'st"

record subnet_binding =
  sb_addr :: virtual_addr
  sb_tcpAddr :: virtual_addr
  sb_tenant :: tenant
  sb_serviceMAC :: mac
  sb_udpUnregister :: "binding_key option"
  sb_tcpUnregister :: "binding_key option"

type_synonym dns_service = "(string, subnet_binding) gomap"

datatype 'e service_error = BadObjectKey | ReadSubnet read_error | ReadVpc read_error | ParseDNSMAC | RegisterUDPFailed 'e | ListenTCPFailed 'e | UnregisterFailed 'e

definition desiredBinding :: "(string \<Rightarrow> read_error + vpc_object) \<Rightarrow> subnet_object \<Rightarrow> 'e service_error + subnet_binding option" where
  "desiredBinding get_vpc subnet =
     (if so_dns subnet = [] \<or> so_dnsMAC subnet = [] \<or> so_vni subnet = 0 then Inr None
      else case ParseAddr (so_dns subnet) of
        None \<Rightarrow> Inr None
      | Some addr \<Rightarrow>
          if \<not> Is4 addr then Inr None
          else case ParseMAC (so_dnsMAC subnet) of
            None \<Rightarrow> Inl ParseDNSMAC
          | Some m \<Rightarrow>
              case get_vpc (so_vpc subnet) of
                Inl e \<Rightarrow> if e = ObjectNotFound then Inr None else Inl (ReadVpc e)
              | Inr vpc \<Rightarrow>
                  if vo_vpcID vpc = 0 then Inr None
                  else Inr (Some \<lparr>sb_addr = \<lparr>va_ip = addr, va_port = 53, va_proto = ProtocolUDP\<rparr>,
                                  sb_tcpAddr = \<lparr>va_ip = addr, va_port = 53, va_proto = ProtocolTCP\<rparr>,
                                  sb_tenant = \<lparr>tn_vpcID = vo_vpcID vpc, tn_subnetID = so_vni subnet\<rparr>,
                                  sb_serviceMAC = m, sb_udpUnregister = None, sb_tcpUnregister = None\<rparr>))"

definition bindingsEqual :: "subnet_binding \<Rightarrow> subnet_binding \<Rightarrow> bool" where
  "bindingsEqual a b \<longleftrightarrow> sb_addr a = sb_addr b \<and> sb_tcpAddr a = sb_tcpAddr b \<and> sb_tenant a = sb_tenant b \<and> sb_serviceMAC a = sb_serviceMAC b"

definition call_unregister :: "('st, 'e, 'l) registry_calls \<Rightarrow> binding_key option \<Rightarrow> 'st \<Rightarrow> 'e option \<times> 'st" where
  "call_unregister rc key st =
     (case key of
        None \<Rightarrow> (None, st)
      | Some k \<Rightarrow> (case rc_unregister rc k st of (Inl e, st) \<Rightarrow> (Some e, st) | (Inr _, st) \<Rightarrow> (None, st)))"

definition tearDown :: "('st, 'e, 'l) registry_calls \<Rightarrow> subnet_binding \<Rightarrow> 'st \<Rightarrow> 'e option \<times> 'st" where
  "tearDown rc b st =
     (case call_unregister rc (sb_udpUnregister b) st of (err, st) \<Rightarrow>
        case call_unregister rc (sb_tcpUnregister b) st of (err', st) \<Rightarrow>
          (if err \<noteq> None then err else err', st))"

definition unbindLocked :: "('st, 'e, 'l) registry_calls \<Rightarrow> string \<Rightarrow> dns_service \<times> 'st \<Rightarrow> 'e service_error option \<times> dns_service \<times> 'st" where
  "unbindLocked rc subnetName = (\<lambda>(bs, st).
     case map_of bs subnetName of
       None \<Rightarrow> (None, bs, st)
     | Some b \<Rightarrow> (case tearDown rc b st of (err, st) \<Rightarrow> (map_option UnregisterFailed err, AList.delete subnetName bs, st)))"

definition udp_spec :: "subnet_binding \<Rightarrow> service_spec" where
  "udp_spec b = \<lparr>ss_id = ServiceIDDNS, ss_tenant = sb_tenant b, ss_addr = sb_addr b, ss_mac = sb_serviceMAC b\<rparr>"

definition tcp_spec :: "subnet_binding \<Rightarrow> service_spec" where
  "tcp_spec b = \<lparr>ss_id = ServiceIDDNS, ss_tenant = sb_tenant b, ss_addr = sb_tcpAddr b, ss_mac = sb_serviceMAC b\<rparr>"

definition bind_new :: "('st, 'e, 'l) registry_calls \<Rightarrow> string \<Rightarrow> subnet_binding \<Rightarrow> dns_service \<times> 'st \<Rightarrow> 'e service_error option \<times> dns_service \<times> 'st" where
  "bind_new rc name desired = (\<lambda>(bs, st).
     case rc_RegisterUDPHandler rc (udp_spec desired) st of
       (Inl e, st) \<Rightarrow> (Some (RegisterUDPFailed e), bs, st)
     | (Inr udp, st) \<Rightarrow>
         (case rc_ListenTCP rc (tcp_spec desired) st of
            (Inl e, st) \<Rightarrow> (Some (ListenTCPFailed e), bs, snd (rc_unregister rc udp st))
          | (Inr (l, tcp), st) \<Rightarrow>
              (None, AList.update name (desired\<lparr>sb_udpUnregister := Some udp, sb_tcpUnregister := Some tcp\<rparr>) bs, st)))"

definition bindOrRebind ::
  "('st, 'e, 'l) registry_calls \<Rightarrow> (string \<Rightarrow> read_error + vpc_object) \<Rightarrow> subnet_object \<Rightarrow> dns_service \<times> 'st \<Rightarrow> 'e service_error option \<times> dns_service \<times> 'st" where
  "bindOrRebind rc get_vpc subnet = (\<lambda>(bs, st).
     case desiredBinding get_vpc subnet of
       Inl e \<Rightarrow> (Some e, bs, st)
     | Inr None \<Rightarrow> (if map_of bs (so_name subnet) \<noteq> None then unbindLocked rc (so_name subnet) (bs, st) else (None, bs, st))
     | Inr (Some desired) \<Rightarrow>
         (case map_of bs (so_name subnet) of
            None \<Rightarrow> bind_new rc (so_name subnet) desired (bs, st)
          | Some cur \<Rightarrow>
              if bindingsEqual cur desired then (None, bs, st)
              else bind_new rc (so_name subnet) desired (AList.delete (so_name subnet) bs, snd (tearDown rc cur st))))"

definition Service_Reconcile ::
  "('st, 'e, 'l) registry_calls \<Rightarrow> (string \<Rightarrow> (string \<times> string) option) \<Rightarrow> (string \<Rightarrow> read_error + subnet_object) \<Rightarrow> (string \<Rightarrow> read_error + vpc_object) \<Rightarrow>
   string \<Rightarrow> dns_service \<times> 'st \<Rightarrow> 'e service_error option \<times> dns_service \<times> 'st" where
  "Service_Reconcile rc split get_subnet get_vpc key = (\<lambda>(bs, st).
     case split key of
       None \<Rightarrow> (Some BadObjectKey, bs, st)
     | Some (_, n) \<Rightarrow>
         let name = (if n = [] then key else n)
         in case get_subnet name of
              Inl e \<Rightarrow> (if e = ObjectNotFound then unbindLocked rc name (bs, st) else (Some (ReadSubnet e), bs, st))
            | Inr subnet \<Rightarrow> bindOrRebind rc get_vpc subnet (bs, st))"

fun unbind_all :: "('st, 'e, 'l) registry_calls \<Rightarrow> string list \<Rightarrow> 'e service_error option \<Rightarrow> dns_service \<times> 'st \<Rightarrow> 'e service_error option \<times> dns_service \<times> 'st" where
  "unbind_all rc [] firstErr st = (firstErr, st)"
| "unbind_all rc (name # names) firstErr st =
     (case unbindLocked rc name st of (err, st) \<Rightarrow> unbind_all rc names (if firstErr = None then err else firstErr) st)"

definition Service_Stop :: "('st, 'e, 'l) registry_calls \<Rightarrow> dns_service \<times> 'st \<Rightarrow> 'e service_error option \<times> dns_service \<times> 'st" where
  "Service_Stop rc st = unbind_all rc (map fst (fst st)) None st"

definition FanOutVpcToSubnets :: "(string \<Rightarrow> subnet_object list option) \<Rightarrow> string \<Rightarrow> string list" where
  "FanOutVpcToSubnets list_by_vpc vpc = (case list_by_vpc vpc of None \<Rightarrow> [] | Some items \<Rightarrow> map so_name items)"

section \<open>The bindings of the service and those of the registry\<close>

text \<open>A binding of the service is two of the registry: one address, over UDP and over TCP.\<close>

definition shape :: "subnet_binding \<Rightarrow> bool" where
  "shape b \<longleftrightarrow> va_proto (sb_addr b) = ProtocolUDP \<and> sb_tcpAddr b = (sb_addr b)\<lparr>va_proto := ProtocolTCP\<rparr>"

definition links :: "(binding_key \<Rightarrow> service_spec option) \<Rightarrow> dns_service \<Rightarrow> bool" where
  "links bound bs \<longleftrightarrow>
     (\<forall>name b. map_of bs name = Some b \<longrightarrow> shape b \<and> sb_udpUnregister b = Some (binding_key (udp_spec b)) \<and> sb_tcpUnregister b = Some (binding_key (tcp_spec b))
        \<and> bound (binding_key (udp_spec b)) = Some (udp_spec b) \<and> bound (binding_key (tcp_spec b)) = Some (tcp_spec b))
   \<and> (\<forall>k spec. bound k = Some spec \<longrightarrow> (\<exists>name b. map_of bs name = Some b \<and> k = binding_key spec \<and> (spec = udp_spec b \<or> spec = tcp_spec b)))
   \<and> (\<forall>name name' b b'. map_of bs name = Some b \<longrightarrow> map_of bs name' = Some b' \<longrightarrow> binding_key (udp_spec b) = binding_key (udp_spec b') \<longrightarrow> name = name')"

lemma unregister_fields [simp]:
  "udp_spec (b\<lparr>sb_udpUnregister := x, sb_tcpUnregister := y\<rparr>) = udp_spec b" "tcp_spec (b\<lparr>sb_udpUnregister := x, sb_tcpUnregister := y\<rparr>) = tcp_spec b"
  "shape (b\<lparr>sb_udpUnregister := x, sb_tcpUnregister := y\<rparr>) = shape b"
  by (simp_all add: udp_spec_def tcp_spec_def shape_def)

lemma links_entry:
  "links bound bs \<Longrightarrow> map_of bs name = Some b \<Longrightarrow>
     shape b \<and> sb_udpUnregister b = Some (binding_key (udp_spec b)) \<and> sb_tcpUnregister b = Some (binding_key (tcp_spec b))
     \<and> bound (binding_key (udp_spec b)) = Some (udp_spec b) \<and> bound (binding_key (tcp_spec b)) = Some (tcp_spec b)"
  unfolding links_def by blast

lemma links_bound:
  "links bound bs \<Longrightarrow> bound k = Some spec \<Longrightarrow> \<exists>name b. map_of bs name = Some b \<and> k = binding_key spec \<and> (spec = udp_spec b \<or> spec = tcp_spec b)"
  unfolding links_def by blast

lemma links_inj:
  "links bound bs \<Longrightarrow> map_of bs name = Some b \<Longrightarrow> map_of bs name' = Some b' \<Longrightarrow> binding_key (udp_spec b) = binding_key (udp_spec b') \<Longrightarrow> name = name'"
  unfolding links_def by blast

lemma linksI:
  assumes "\<And>name b. map_of bs name = Some b \<Longrightarrow> shape b \<and> sb_udpUnregister b = Some (binding_key (udp_spec b)) \<and> sb_tcpUnregister b = Some (binding_key (tcp_spec b))
        \<and> bound (binding_key (udp_spec b)) = Some (udp_spec b) \<and> bound (binding_key (tcp_spec b)) = Some (tcp_spec b)"
    and "\<And>k spec. bound k = Some spec \<Longrightarrow> \<exists>name b. map_of bs name = Some b \<and> k = binding_key spec \<and> (spec = udp_spec b \<or> spec = tcp_spec b)"
    and "\<And>name name' b b'. map_of bs name = Some b \<Longrightarrow> map_of bs name' = Some b' \<Longrightarrow> binding_key (udp_spec b) = binding_key (udp_spec b') \<Longrightarrow> name = name'"
  shows "links bound bs"
  unfolding links_def using assms by blast

lemma keys_differ: "shape b \<Longrightarrow> shape c \<Longrightarrow> binding_key (udp_spec b) \<noteq> binding_key (tcp_spec c)"
  by (auto simp: binding_key_def udp_spec_def tcp_spec_def shape_def ProtocolUDP_def ProtocolTCP_def)

lemma keys_together:
  assumes "shape b" "shape c"
  shows "binding_key (tcp_spec b) = binding_key (tcp_spec c) \<longleftrightarrow> binding_key (udp_spec b) = binding_key (udp_spec c)"
  using assms by (cases "sb_addr b"; cases "sb_addr c") (auto simp: binding_key_def udp_spec_def tcp_spec_def shape_def)

lemma links_remove:
  assumes links: "links bound bs" and b: "map_of bs name = Some b"
  shows "links (bound(binding_key (udp_spec b) := None, binding_key (tcp_spec b) := None)) (AList.delete name bs)"
proof (rule linksI)
  have sh: "shape c" if "map_of bs n = Some c" for n c using links_entry[OF links that] by blast
  note shb = sh[OF b]
  {
    fix n c assume "map_of (AList.delete name bs) n = Some c"
    then have n: "map_of bs n = Some c" "n \<noteq> name" by (auto simp: delete_conv' split: if_splits)
    have "binding_key (udp_spec c) \<noteq> binding_key (udp_spec b)" using links_inj[OF links n(1) b] n(2) by blast
    then show "shape c \<and> sb_udpUnregister c = Some (binding_key (udp_spec c)) \<and> sb_tcpUnregister c = Some (binding_key (tcp_spec c))
        \<and> (bound(binding_key (udp_spec b) := None, binding_key (tcp_spec b) := None)) (binding_key (udp_spec c)) = Some (udp_spec c)
        \<and> (bound(binding_key (udp_spec b) := None, binding_key (tcp_spec b) := None)) (binding_key (tcp_spec c)) = Some (tcp_spec c)"
      using links_entry[OF links n(1)] keys_together[OF sh[OF n(1)] shb] keys_differ[OF sh[OF n(1)] shb] keys_differ[OF shb sh[OF n(1)]] by simp
  next
    fix k spec assume "(bound(binding_key (udp_spec b) := None, binding_key (tcp_spec b) := None)) k = Some spec"
    then have k: "bound k = Some spec" "k \<noteq> binding_key (udp_spec b)" "k \<noteq> binding_key (tcp_spec b)" by (auto split: if_splits)
    then obtain n c where n: "map_of bs n = Some c" "k = binding_key spec" "spec = udp_spec c \<or> spec = tcp_spec c" using links_bound[OF links] by blast
    moreover from this k(2,3) b have "n \<noteq> name" by auto
    ultimately show "\<exists>n c. map_of (AList.delete name bs) n = Some c \<and> k = binding_key spec \<and> (spec = udp_spec c \<or> spec = tcp_spec c)"
      by (intro exI[of _ n] exI[of _ c]) (simp add: delete_conv')
  next
    fix n n' c c' assume "map_of (AList.delete name bs) n = Some c" "map_of (AList.delete name bs) n' = Some c'" "binding_key (udp_spec c) = binding_key (udp_spec c')"
    then show "n = n'" using links_inj[OF links, of n c n' c'] by (simp add: delete_conv' split: if_splits)
  }
qed

lemma links_add:
  assumes links: "links bound bs" and new: "map_of bs name = None" and sh: "shape b"
    and free: "bound (binding_key (udp_spec b)) = None" "bound (binding_key (tcp_spec b)) = None"
    and un: "sb_udpUnregister b = Some (binding_key (udp_spec b))" "sb_tcpUnregister b = Some (binding_key (tcp_spec b))"
  shows "links (bound(binding_key (udp_spec b) \<mapsto> udp_spec b, binding_key (tcp_spec b) \<mapsto> tcp_spec b)) (AList.update name b bs)"
    (is "links ?bound ?bs")
proof (rule linksI)
  note differ = keys_differ[OF sh sh]
  have away: "binding_key (udp_spec c) \<noteq> binding_key (udp_spec b)" "?bound (binding_key (udp_spec c)) = bound (binding_key (udp_spec c))" "?bound (binding_key (tcp_spec c)) = bound (binding_key (tcp_spec c))"
    if "map_of bs n = Some c" for n c
    using links_entry[OF links that] free by auto
  {
    fix n c assume "map_of ?bs n = Some c"
    then consider "n = name" "c = b" | "n \<noteq> name" "map_of bs n = Some c" by (auto simp: update_conv' split: if_splits)
    then show "shape c \<and> sb_udpUnregister c = Some (binding_key (udp_spec c)) \<and> sb_tcpUnregister c = Some (binding_key (tcp_spec c))
        \<and> ?bound (binding_key (udp_spec c)) = Some (udp_spec c) \<and> ?bound (binding_key (tcp_spec c)) = Some (tcp_spec c)"
    proof cases
      case 1
      then show ?thesis using sh un differ by simp
    next
      case 2
      then show ?thesis unfolding away(2,3)[OF 2(2)] by (intro links_entry[OF links])
    qed
  next
    fix k spec assume k: "?bound k = Some spec"
    show "\<exists>n c. map_of ?bs n = Some c \<and> k = binding_key spec \<and> (spec = udp_spec c \<or> spec = tcp_spec c)"
    proof (cases "k = binding_key (udp_spec b) \<or> k = binding_key (tcp_spec b)")
      case True
      then have "k = binding_key spec \<and> (spec = udp_spec b \<or> spec = tcp_spec b)" using k differ by (auto split: if_splits)
      then show ?thesis by (intro exI[of _ name] exI[of _ b]) (simp add: update_conv')
    next
      case False
      then have "bound k = Some spec" using k by simp
      then obtain n c where n: "map_of bs n = Some c" "k = binding_key spec" "spec = udp_spec c \<or> spec = tcp_spec c" using links_bound[OF links] by blast
      then show ?thesis using new by (intro exI[of _ n] exI[of _ c]) (auto simp: update_conv')
    qed
  next
    fix n n' c c' assume "map_of ?bs n = Some c" "map_of ?bs n' = Some c'" "binding_key (udp_spec c) = binding_key (udp_spec c')"
    then show "n = n'" using links_inj[OF links, of n c n' c'] away(1)[of n c] away(1)[of n' c'] by (auto simp: update_conv' split: if_splits)
  }
qed

section \<open>What the service relies on\<close>

text \<open>
  The contract of a registry: \<open>bound\<close> is what is registered. A registration either fails and changes nothing or
  adds a free key; undoing one always takes it out, even when it reports an error.
\<close>

locale service_registry =
  fixes rc :: "('st, 'e, 'l) registry_calls" and bound :: "'st \<Rightarrow> binding_key \<Rightarrow> service_spec option" and good :: "'st \<Rightarrow> bool" and fits :: "service_spec \<Rightarrow> bool"
  assumes register: "good st \<Longrightarrow> fits spec \<Longrightarrow> rc_RegisterUDPHandler rc spec st = (r, st') \<Longrightarrow> good st' \<and>
      (case r of Inl e \<Rightarrow> bound st' = bound st | Inr k \<Rightarrow> k = binding_key spec \<and> bound st k = None \<and> bound st' = (bound st)(k \<mapsto> spec))"
    and listen: "good st \<Longrightarrow> fits spec \<Longrightarrow> rc_ListenTCP rc spec st = (r', st') \<Longrightarrow> good st' \<and>
      (case r' of Inl e \<Rightarrow> bound st' = bound st | Inr (l, k) \<Rightarrow> k = binding_key spec \<and> bound st k = None \<and> bound st' = (bound st)(k \<mapsto> spec))"
    and revoke: "good st \<Longrightarrow> rc_unregister rc key st = (r'', st') \<Longrightarrow> good st' \<and> bound st' = (bound st)(key := None)"
begin

text \<open>Only the invariant is needed: whatever fails, the service and the registry agree on what is bound.\<close>

lemma revoke_some: "good st \<Longrightarrow> call_unregister rc (Some k) st = (err, st') \<Longrightarrow> good st' \<and> bound st' = (bound st)(k := None)"
  using revoke by (fastforce simp: call_unregister_def split: prod.splits sum.splits)

lemma tearDown_links:
  assumes good: "good st" and links: "links (bound st) bs" and b: "map_of bs name = Some b" and run: "tearDown rc b st = (err, st')"
  shows "good st' \<and> links (bound st') (AList.delete name bs)"
proof -
  note entry = links_entry[OF links b]
  obtain e1 s1 e2 where u: "call_unregister rc (Some (binding_key (udp_spec b))) st = (e1, s1)" "call_unregister rc (Some (binding_key (tcp_spec b))) s1 = (e2, st')"
    using run entry by (auto simp: tearDown_def split: prod.splits)
  have g1: "good s1" "bound s1 = (bound st)(binding_key (udp_spec b) := None)" using revoke_some[OF good u(1)] by blast+
  have "good st'" "bound st' = (bound st)(binding_key (udp_spec b) := None, binding_key (tcp_spec b) := None)"
    using revoke_some[OF g1(1) u(2)] g1(2) by auto
  then show ?thesis using links_remove[OF links b] by simp
qed

lemma unbind_links:
  assumes "good st" "links (bound st) bs" and run: "unbindLocked rc name (bs, st) = (err, bs', st')"
  shows "good st' \<and> links (bound st') bs' \<and> bs' = AList.delete name bs"
proof (cases "map_of bs name")
  case None
  then have "AList.delete name bs = bs" by (simp add: delete_id map_of_eq_None_iff)
  then show ?thesis using run None assms by (simp add: unbindLocked_def)
next
  case (Some b)
  then show ?thesis using tearDown_links[OF assms(1,2) Some] run by (auto simp: unbindLocked_def split: prod.splits)
qed

lemma bind_new_links:
  assumes good: "good st" and links: "links (bound st) bs" and new: "map_of bs name = None" and sh: "shape desired"
    and fits: "fits (udp_spec desired)" "fits (tcp_spec desired)" and run: "bind_new rc name desired (bs, st) = (err, bs', st')"
  shows "good st' \<and> links (bound st') bs' \<and> (if err = None then \<exists>c. bs' = AList.update name c bs \<and> bindingsEqual c desired else bs' = bs)"
proof -
  obtain r s1 where u: "rc_RegisterUDPHandler rc (udp_spec desired) st = (r, s1)" by (rule prod.exhaust)
  note reg = register[OF good fits(1) u]
  show ?thesis
  proof (cases r)
    case (Inl e)
    then show ?thesis using run u reg links by (auto simp: bind_new_def)
  next
    case (Inr k)
    then have g1: "good s1" "k = binding_key (udp_spec desired)" "bound st k = None" "bound s1 = (bound st)(k \<mapsto> udp_spec desired)" using reg by auto
    obtain r' s2 where t: "rc_ListenTCP rc (tcp_spec desired) s1 = (r', s2)" by (rule prod.exhaust)
    note lis = listen[OF g1(1) fits(2) t]
    show ?thesis
    proof (cases r')
      case (Inl e)
      then have g2: "good s2" "bound s2 = bound s1" using lis by auto
      obtain r'' s3 where d: "rc_unregister rc k s2 = (r'', s3)" by (rule prod.exhaust)
      have "bound s3 = bound st" using revoke[OF g2(1) d] g2(2) g1(3,4) by auto
      then show ?thesis using run u t d Inl \<open>r = Inr k\<close> revoke[OF g2(1) d] links by (auto simp: bind_new_def)
    next
      case (Inr p)
      obtain l k' where p: "p = (l, k')" by (rule prod.exhaust)
      let ?c = "desired\<lparr>sb_udpUnregister := Some k, sb_tcpUnregister := Some k'\<rparr>"
      have g2: "good s2" "k' = binding_key (tcp_spec desired)" "bound s1 k' = None" "bound s2 = (bound s1)(k' \<mapsto> tcp_spec desired)" using lis Inr p by auto
      have "links (bound s2) (AList.update name ?c bs)"
        using links_add[OF links new, of ?c] sh g1 g2 by (simp split: if_splits)
      moreover have "bindingsEqual ?c desired" by (simp add: bindingsEqual_def)
      ultimately show ?thesis using run u t Inr p g2(1) \<open>r = Inr k\<close> by (auto simp: bind_new_def)
    qed
  qed
qed

end

section \<open>A pass\<close>

text \<open>What a pass over the Subnet wants bound.\<close>

definition wanted :: "(string \<Rightarrow> read_error + subnet_object) \<Rightarrow> (string \<Rightarrow> read_error + vpc_object) \<Rightarrow> string \<Rightarrow> 'e service_error + subnet_binding option" where
  "wanted get_subnet get_vpc name =
     (case get_subnet name of
        Inl e \<Rightarrow> if e = ObjectNotFound then Inr None else Inl (ReadSubnet e)
      | Inr subnet \<Rightarrow> desiredBinding get_vpc subnet)"

definition key_name :: "(string \<Rightarrow> (string \<times> string) option) \<Rightarrow> string \<Rightarrow> string option" where
  "key_name split key = map_option (\<lambda>(_, n). if n = [] then key else n) (split key)"

definition settled :: "dns_service \<Rightarrow> string \<Rightarrow> subnet_binding option \<Rightarrow> bool" where
  "settled bs name w = (case w of None \<Rightarrow> map_of bs name = None | Some d \<Rightarrow> (case map_of bs name of None \<Rightarrow> False | Some c \<Rightarrow> bindingsEqual c d))"

lemma desiredBinding_shape:
  "desiredBinding get_vpc subnet = Inr (Some d) \<Longrightarrow> shape d \<and> (\<exists>vpc. get_vpc (so_vpc subnet) = Inr vpc \<and> sb_tenant d = \<lparr>tn_vpcID = vo_vpcID vpc, tn_subnetID = so_vni subnet\<rparr>)"
  by (auto simp: desiredBinding_def shape_def split: if_splits option.splits sum.splits)

lemma sum_option_cases:
  obtains e where "x = Inl e" | "x = Inr None" | d where "x = Inr (Some d)"
proof (cases x)
  case (Inl e)
  then show thesis by (rule that(1))
next
  case (Inr y)
  then show thesis using that(2,3) by (cases y) simp_all
qed

lemma Service_Reconcile_cases:
  fixes rc :: "('st, 'e, 'l) registry_calls"
  assumes run: "Service_Reconcile rc split get_subnet get_vpc key (bs, st) = (err, bs', st')" and key: "key_name split key = Some name"
    and own: "\<And>subnet. get_subnet name = Inr subnet \<Longrightarrow> so_name subnet = name"
  obtains
    (failed) e where "wanted get_subnet get_vpc name = Inl e" "err = Some e" "bs' = bs" "st' = st"
  | (gone) "wanted get_subnet get_vpc name = (Inr None :: 'e service_error + subnet_binding option)" "unbindLocked rc name (bs, st) = (err, bs', st')"
  | (same) d c where "wanted get_subnet get_vpc name = (Inr (Some d) :: 'e service_error + subnet_binding option)" "map_of bs name = Some c" "bindingsEqual c d" "err = None" "bs' = bs" "st' = st"
  | (fresh) d where "wanted get_subnet get_vpc name = (Inr (Some d) :: 'e service_error + subnet_binding option)" "map_of bs name = None" "bind_new rc name d (bs, st) = (err, bs', st')"
  | (changed) d c where "wanted get_subnet get_vpc name = (Inr (Some d) :: 'e service_error + subnet_binding option)" "map_of bs name = Some c"
      "bind_new rc name d (AList.delete name bs, snd (tearDown rc c st)) = (err, bs', st')"
proof (cases "get_subnet name")
  case (Inl e)
  obtain ns n where n: "split key = Some (ns, n)" "name = (if n = [] then key else n)" using key by (auto simp: key_name_def)
  show thesis
  proof (cases "e = ObjectNotFound")
    case True
    then show thesis using run Inl n gone by (simp add: Service_Reconcile_def wanted_def Let_def)
  next
    case False
    then show thesis using run Inl n failed by (auto simp: Service_Reconcile_def wanted_def Let_def)
  qed
next
  case (Inr subnet)
  obtain ns n where n: "split key = Some (ns, n)" "name = (if n = [] then key else n)" using key by (auto simp: key_name_def)
  have run: "bindOrRebind rc get_vpc subnet (bs, st) = (err, bs', st')" using run Inr n by (simp add: Service_Reconcile_def Let_def)
  have w: "wanted get_subnet get_vpc name = (desiredBinding get_vpc subnet :: 'e service_error + subnet_binding option)" using Inr by (simp add: wanted_def)
  note own = own[OF Inr]
  show thesis
  proof (cases "desiredBinding get_vpc subnet :: 'e service_error + subnet_binding option" rule: sum_option_cases)
    case (1 e)
    then show thesis using failed w run by (auto simp: bindOrRebind_def)
  next
    case 2
    have "unbindLocked rc name (bs, st) = (err, bs', st')" using run own 2 by (auto simp: bindOrRebind_def unbindLocked_def split: if_splits)
    then show thesis using gone w 2 by simp
  next
    case (3 d)
    note w = w[unfolded 3]
    show thesis
    proof (cases "map_of bs name")
      case None
      then show thesis using fresh[OF w None] run own 3 by (simp add: bindOrRebind_def)
    next
      case (Some c)
      show thesis
      proof (cases "bindingsEqual c d")
        case True
        then show thesis using same[OF w Some True] run own 3 Some by (simp add: bindOrRebind_def)
      next
        case False
        then show thesis using changed[OF w Some] run own 3 Some by (simp add: bindOrRebind_def)
      qed
    qed
  qed
qed

context service_registry
begin

lemma reconcile_links:
  assumes good: "good st" and links: "links (bound st) bs"
    and run: "Service_Reconcile rc split get_subnet get_vpc key (bs, st) = (err, bs', st')" and key: "key_name split key = Some name"
    and own: "\<And>subnet. get_subnet name = Inr subnet \<Longrightarrow> so_name subnet = name"
    and fits: "\<And>d. wanted get_subnet get_vpc name = (Inr (Some d) :: 'e service_error + subnet_binding option) \<Longrightarrow> fits (udp_spec d) \<and> fits (tcp_spec d)"
  shows "good st' \<and> links (bound st') bs' \<and> (\<forall>n. n \<noteq> name \<longrightarrow> map_of bs' n = map_of bs n)
    \<and> (err = None \<longrightarrow> (\<exists>w. wanted get_subnet get_vpc name = (Inr w :: 'e service_error + subnet_binding option) \<and> settled bs' name w))"
proof (rule Service_Reconcile_cases[OF run key own], assumption)
  fix e assume failed: "wanted get_subnet get_vpc name = Inl e" "err = Some e" "bs' = bs" "st' = st"
  then show ?thesis using good links by simp
next
  assume gone: "wanted get_subnet get_vpc name = (Inr None :: 'e service_error + subnet_binding option)" "unbindLocked rc name (bs, st) = (err, bs', st')"
  then show ?thesis using unbind_links[OF good links gone(2)] by (auto simp: settled_def delete_conv')
next
  fix d c assume same: "wanted get_subnet get_vpc name = (Inr (Some d) :: 'e service_error + subnet_binding option)" "map_of bs name = Some c" "bindingsEqual c d" "err = None" "bs' = bs" "st' = st"
  then show ?thesis using good links by (simp add: settled_def)
next
  fix d assume fresh: "wanted get_subnet get_vpc name = (Inr (Some d) :: 'e service_error + subnet_binding option)" "map_of bs name = None" "bind_new rc name d (bs, st) = (err, bs', st')"
  have "shape d" using fresh(1) desiredBinding_shape by (auto simp: wanted_def split: sum.splits if_splits)
  note b = bind_new_links[OF good links fresh(2) this conjunct1[OF fits[OF fresh(1)]] conjunct2[OF fits[OF fresh(1)]] fresh(3)]
  then show ?thesis using fresh(1) by (auto simp: settled_def update_conv' split: if_splits)
next
  fix d c assume changed: "wanted get_subnet get_vpc name = (Inr (Some d) :: 'e service_error + subnet_binding option)" "map_of bs name = Some c"
    "bind_new rc name d (AList.delete name bs, snd (tearDown rc c st)) = (err, bs', st')"
  have sh: "shape d" using changed(1) desiredBinding_shape by (auto simp: wanted_def split: sum.splits if_splits)
  obtain e s1 where t: "tearDown rc c st = (e, s1)" by (rule prod.exhaust)
  have mid: "good s1" "links (bound s1) (AList.delete name bs)" using tearDown_links[OF good links changed(2) t] by simp_all
  have "map_of (AList.delete name bs) name = None" "bind_new rc name d (AList.delete name bs, s1) = (err, bs', st')" using changed(3) t by (simp_all add: delete_conv')
  note b = bind_new_links[OF mid this(1) sh conjunct1[OF fits[OF changed(1)]] conjunct2[OF fits[OF changed(1)]] this(2)]
  then show ?thesis using changed(1) by (auto simp: settled_def update_conv' delete_conv' split: if_splits)
qed

lemma unbind_all_links:
  assumes "good st" "links (bound st) bs" "unbind_all rc names e (bs, st) = (err, bs', st')"
  shows "good st' \<and> links (bound st') bs' \<and> map_of bs' = (map_of bs) |` (- set names)"
  using assms
proof (induction names arbitrary: e bs st)
  case Nil
  then show ?case by simp
next
  case (Cons n names)
  obtain e1 bs1 s1 where u: "unbindLocked rc n (bs, st) = (e1, bs1, s1)" by (rule prod_cases3)
  note step = unbind_links[OF Cons.prems(1,2) u]
  have "unbind_all rc names (if e = None then e1 else e) (bs1, s1) = (err, bs', st')" using Cons.prems(3) u by simp
  from Cons.IH[OF _ _ this] step have ih: "good st' \<and> links (bound st') bs' \<and> map_of bs' = (map_of bs1) |` (- set names)" by blast
  have "map_of bs1 = (map_of bs)(n := None)" using step by (auto simp: delete_conv')
  then show ?case using ih by (auto simp: restrict_map_def fun_eq_iff)
qed

end

section \<open>The service on the registry\<close>

lemma added_binding: "bd_spec b = spec \<Longrightarrow> \<exists>c. bd_spec c = spec \<and> AList.update k b bs = AList.update k c bs"
  by blast

definition registry_of ::
  "('s, virtual_service_key, virtual_service_val) hash_map \<Rightarrow> u32 \<Rightarrow> ('s, 'l) netstack option \<Rightarrow> 'h \<Rightarrow> (('h, 'l) registry \<times> 's, registry_error, 'l) registry_calls" where
  "registry_of m tap ns h =
     \<lparr>rc_RegisterUDPHandler = (\<lambda>spec. RegisterUDPHandler m tap spec (Some h)), rc_ListenTCP = ListenTCP m tap ns, rc_unregister = unregister m ns\<rparr>"

definition registry_bound :: "('h, 'l) registry \<times> 's \<Rightarrow> binding_key \<Rightarrow> service_spec option" where
  "registry_bound st k = map_option bd_spec (map_of (rg_bindings (fst st)) k)"

definition registry_good ::
  "(u32 \<Rightarrow> u32) \<Rightarrow> ('s, virtual_service_key, virtual_service_val) hash_map \<Rightarrow> u32 \<Rightarrow> ('s, 'l) netstack option \<Rightarrow> ('h, 'l) registry \<times> 's \<Rightarrow> bool" where
  "registry_good vpc_of m tap ns st \<longleftrightarrow> hash_map_ok m \<and> (\<forall>n. ns = Some n \<longrightarrow> netstack_apart m n) \<and> registry_ok vpc_of (hm_view m (snd st)) tap (fst st)"

lemma RegisterUDPHandler_bindings:
  assumes "RegisterUDPHandler m tap spec handler (rg, s) = (Inr key, rg', s')"
  shows "map_of (rg_bindings rg) (binding_key spec) = None \<and> (\<exists>b. bd_spec b = spec \<and> rg_bindings rg' = AList.update (binding_key spec) b (rg_bindings rg))"
  using assms by (auto simp: RegisterUDPHandler_def intro!: added_binding split: option.splits if_splits sum.splits prod.splits)

lemma ListenTCP_bindings:
  assumes "ListenTCP m tap ns spec (rg, s) = (Inr r, rg', s')"
  shows "map_of (rg_bindings rg) (binding_key spec) = None \<and> (\<exists>b. bd_spec b = spec \<and> rg_bindings rg' = AList.update (binding_key spec) b (rg_bindings rg))"
  using assms by (auto simp: ListenTCP_def Let_def intro!: added_binding split: option.splits if_splits sum.splits prod.splits)

lemma registry_registers:
  assumes "registry_good vpc_of m tap ns st" "spec_wf vpc_of spec" "RegisterUDPHandler m tap spec (Some h) st = (r, st')"
  shows "registry_good vpc_of m tap ns st' \<and> (case r of Inl e \<Rightarrow> registry_bound st' = registry_bound st
    | Inr k \<Rightarrow> k = binding_key spec \<and> registry_bound st k = None \<and> registry_bound st' = (registry_bound st)(k \<mapsto> spec))"
proof -
  obtain rg s rg' s' where st: "st = (rg, s)" "st' = (rg', s')" by (metis prod.exhaust)
  have good: "hash_map_ok m" "registry_ok vpc_of (hm_view m s) tap rg" using assms(1) by (simp_all add: st registry_good_def)
  note ok = RegisterUDPHandler_ok[OF good assms(2) assms(3)[unfolded st]]
  then have good': "registry_good vpc_of m tap ns st'" using assms(1) by (simp add: st registry_good_def)
  show ?thesis
  proof (cases r)
    case (Inl e)
    then have "registry_bound st' = registry_bound st" using ok by (simp add: st registry_bound_def fun_eq_iff)
    then show ?thesis using good' Inl by simp
  next
    case (Inr k)
    then have "k = binding_key spec" using ok by simp
    moreover note RegisterUDPHandler_bindings[OF assms(3)[unfolded st Inr]]
    ultimately show ?thesis using good' Inr unfolding st by (auto simp: registry_bound_def update_conv' fun_eq_iff)
  qed
qed

lemma registry_listens:
  assumes "registry_good vpc_of m tap ns st" "spec_wf vpc_of spec" "ListenTCP m tap ns spec st = (r, st')"
  shows "registry_good vpc_of m tap ns st' \<and> (case r of Inl e \<Rightarrow> registry_bound st' = registry_bound st
    | Inr (l, k) \<Rightarrow> k = binding_key spec \<and> registry_bound st k = None \<and> registry_bound st' = (registry_bound st)(k \<mapsto> spec))"
proof -
  obtain rg s rg' s' where st: "st = (rg, s)" "st' = (rg', s')" by (metis prod.exhaust)
  have good: "hash_map_ok m" "\<And>n. ns = Some n \<Longrightarrow> netstack_apart m n" "registry_ok vpc_of (hm_view m s) tap rg" using assms(1) by (simp_all add: st registry_good_def)
  note ok = ListenTCP_ok[OF good assms(2) assms(3)[unfolded st]]
  then have good': "registry_good vpc_of m tap ns st'" using assms(1) by (simp add: st registry_good_def)
  show ?thesis
  proof (cases r)
    case (Inl e)
    then have "registry_bound st' = registry_bound st" using ok by (simp add: st registry_bound_def fun_eq_iff)
    then show ?thesis using good' Inl by simp
  next
    case (Inr p)
    obtain l k where p: "p = (l, k)" by (rule prod.exhaust)
    have "k = binding_key spec" using ok Inr p by simp
    moreover note ListenTCP_bindings[OF assms(3)[unfolded st Inr]]
    ultimately show ?thesis using good' Inr p unfolding st by (auto simp: registry_bound_def update_conv' fun_eq_iff)
  qed
qed

lemma registry_revokes:
  assumes "registry_good vpc_of m tap ns st" "unregister m ns key st = (r, st')"
  shows "registry_good vpc_of m tap ns st' \<and> registry_bound st' = (registry_bound st)(key := None)"
proof -
  obtain rg s rg' s' where st: "st = (rg, s)" "st' = (rg', s')" by (metis prod.exhaust)
  show ?thesis using unregister_ok[of m ns vpc_of s tap rg key r rg' s'] assms unfolding st registry_good_def
    by (auto simp: registry_bound_def delete_conv' fun_eq_iff)
qed

interpretation dns: service_registry "registry_of m tap ns h" registry_bound "registry_good vpc_of m tap ns" "spec_wf vpc_of"
  for m tap ns h vpc_of
  by (unfold_locales, unfold registry_of_def registry_calls.simps) (rule registry_registers registry_listens registry_revokes; assumption)+

section \<open>Passes in any order\<close>

text \<open>A pass: what it reads of the Subnet and of its Vpc, and the key of the work queue.\<close>

record dns_pass =
  dp_subnet :: "string \<Rightarrow> read_error + subnet_object"
  dp_vpc :: "string \<Rightarrow> read_error + vpc_object"
  dp_key :: string

definition exec_pass where
  "exec_pass rc split p st = Service_Reconcile rc split (dp_subnet p) (dp_vpc p) (dp_key p) st"

text \<open>An object read by a name has it, and the number of a subnet belongs to one Vpc.\<close>

definition pass_wf :: "(u32 \<Rightarrow> u32) \<Rightarrow> (string \<Rightarrow> (string \<times> string) option) \<Rightarrow> dns_pass \<Rightarrow> bool" where
  "pass_wf vpc_of split p \<longleftrightarrow> (\<forall>name subnet. key_name split (dp_key p) = Some name \<longrightarrow> dp_subnet p name = Inr subnet \<longrightarrow>
     so_name subnet = name \<and> (\<forall>vpc. dp_vpc p (so_vpc subnet) = Inr vpc \<longrightarrow> vo_vpcID vpc = vpc_of (so_vni subnet)))"

lemma pass_fits:
  assumes "pass_wf vpc_of split p" "key_name split (dp_key p) = Some name" "wanted (dp_subnet p) (dp_vpc p) name = (Inr (Some d) :: 'e service_error + subnet_binding option)"
  shows "spec_wf vpc_of (udp_spec d) \<and> spec_wf vpc_of (tcp_spec d)"
proof -
  obtain subnet where s: "dp_subnet p name = Inr subnet" "desiredBinding (dp_vpc p) subnet = (Inr (Some d) :: 'e service_error + subnet_binding option)"
    using assms(3) by (auto simp: wanted_def split: sum.splits if_splits)
  obtain vpc where "dp_vpc p (so_vpc subnet) = Inr vpc" "sb_tenant d = \<lparr>tn_vpcID = vo_vpcID vpc, tn_subnetID = so_vni subnet\<rparr>"
    using desiredBinding_shape[OF s(2)] by blast
  then show ?thesis using assms(1,2) s(1) by (simp add: pass_wf_def spec_wf_def udp_spec_def tcp_spec_def)
qed

lemma exec_pass_ok:
  assumes good: "registry_good vpc_of m tap ns st" and links: "links (registry_bound st) bs" and wf: "pass_wf vpc_of split p"
    and run: "exec_pass (registry_of m tap ns h) split p (bs, st) = (err, bs', st')"
  shows "registry_good vpc_of m tap ns st' \<and> links (registry_bound st') bs'
    \<and> (\<forall>name. key_name split (dp_key p) = Some name \<longrightarrow> (\<forall>n. n \<noteq> name \<longrightarrow> map_of bs' n = map_of bs n)
         \<and> (err = None \<longrightarrow> (\<exists>w. wanted (dp_subnet p) (dp_vpc p) name = (Inr w :: registry_error service_error + subnet_binding option) \<and> settled bs' name w)))"
proof (cases "key_name split (dp_key p)")
  case None
  then have "split (dp_key p) = None" by (simp add: key_name_def)
  then show ?thesis using run good links None by (simp add: exec_pass_def Service_Reconcile_def)
next
  case (Some name)
  have "so_name subnet = name" if "dp_subnet p name = Inr subnet" for subnet using wf Some that by (simp add: pass_wf_def)
  from dns.reconcile_links[OF good links run[unfolded exec_pass_def] Some this pass_fits[OF wf Some]] show ?thesis unfolding Some by auto
qed

lemma run_passes_ok:
  assumes "registry_good vpc_of m tap ns st" "links (registry_bound st) bs" "\<forall>p \<in> set ps. pass_wf vpc_of split p"
  shows "case fold (\<lambda>p st. snd (exec_pass (registry_of m tap ns h) split p st)) ps (bs, st) of (bs', st') \<Rightarrow>
    registry_good vpc_of m tap ns st' \<and> links (registry_bound st') bs'"
  using assms
proof (induction ps arbitrary: bs st)
  case Nil
  then show ?case by simp
next
  case (Cons p ps)
  obtain err bs1 st1 where run: "exec_pass (registry_of m tap ns h) split p (bs, st) = (err, bs1, st1)" by (rule prod_cases3)
  have wf: "pass_wf vpc_of split p" using Cons.prems(3) by simp
  note step = exec_pass_ok[OF Cons.prems(1,2) wf run]
  show ?case using Cons.IH[of st1 bs1] step Cons.prems(3) run by simp
qed

text \<open>The passes and the registry from a fresh start.\<close>

definition run_passes where
  "run_passes m tap ns h split ps s = fold (\<lambda>p st. snd (exec_pass (registry_of m tap ns h) split p st)) ps ([] :: dns_service, NewRegistry, s)"

lemma fresh_links: "links (registry_bound (NewRegistry, s)) []"
  by (simp add: links_def registry_bound_def NewRegistry_def)

lemma fresh_good: "hash_map_ok m \<Longrightarrow> \<forall>n. ns = Some n \<longrightarrow> netstack_apart m n \<Longrightarrow> registry_good vpc_of m tap ns (NewRegistry, s)"
  by (simp add: registry_good_def registry_ok_def NewRegistry_def NewDispatcher_def)

lemma settled_serves:
  assumes good: "registry_good vpc_of m tap ns st" and links: "links (registry_bound st) bs" and "settled bs name (Some d)"
  shows "hm_view m (snd st) (bpf_key (udp_spec d)) = Some (bpf_val tap (udp_spec d)) \<and> hm_view m (snd st) (bpf_key (tcp_spec d)) = Some (bpf_val tap (tcp_spec d))"
proof -
  obtain c where c: "map_of bs name = Some c" "bindingsEqual c d" using assms(3) by (auto simp: settled_def split: option.splits)
  have eq: "udp_spec c = udp_spec d" "tcp_spec c = tcp_spec d" using c(2) by (simp_all add: bindingsEqual_def udp_spec_def tcp_spec_def)
  have view: "hm_view m (snd st) (bpf_key spec) = Some (bpf_val tap spec)" if "registry_bound st k = Some spec" for k spec
  proof -
    obtain b where "map_of (rg_bindings (fst st)) k = Some b" "bd_spec b = spec" using \<open>registry_bound st k = Some spec\<close> by (auto simp: registry_bound_def)
    then show ?thesis using good registry_binding[of vpc_of "hm_view m (snd st)" tap "fst st" k b] by (simp add: registry_good_def binding_ok_def)
  qed
  show ?thesis using links_entry[OF links c(1)] view unfolding eq by blast
qed

lemma stop_clears:
  fixes rg :: "('h, 'l) registry"
  assumes good: "registry_good vpc_of m tap ns (rg, s)" and links: "links (registry_bound (rg, s)) bs"
  shows "rg_bindings (fst (snd (snd (Service_Stop (registry_of m tap ns h) (bs, rg, s))))) = []"
proof -
  obtain e bs' rg' s' where run: "unbind_all (registry_of m tap ns h) (map fst bs) None (bs, rg, s) = (e, bs', rg', s')" by (metis prod_cases4)
  note stop = dns.unbind_all_links[OF good links run]
  have "map_of bs n = None" if "n \<notin> fst ` set bs" for n using that by (simp add: map_of_eq_None_iff)
  then have none: "map_of bs' = Map.empty" using stop by (auto simp: restrict_map_def fun_eq_iff)
  have "registry_bound (rg', s') k = None" for k
  proof (rule ccontr)
    assume "registry_bound (rg', s') k \<noteq> None"
    then show False using links_bound[OF conjunct1[OF conjunct2[OF stop]]] none by fastforce
  qed
  then have "map_of (rg_bindings rg') = Map.empty" by (auto simp: registry_bound_def fun_eq_iff)
  then show ?thesis using run by (simp add: Service_Stop_def)
qed

text \<open>
  C7. The DNS service keeps up with the cluster. After passes over any Subnets in any order, with any read, any
  write to the kernel's map and any call to the network stack failing, the service and the registry agree on
  what is bound. A pass that reports no error leaves the Subnet with exactly the binding its status asks for
  (none when it has no resolver), and the classifier's map then has the entries for UDP and TCP. Stopping the
  service leaves no binding. It takes that an object read by a name has it, and that the number of a subnet
  belongs to one Vpc.
\<close>

theorem dns_service_settles:
  fixes rg :: "('h, 'l) registry"
  assumes "hash_map_ok m" "\<forall>n. ns = Some n \<longrightarrow> netstack_apart m n" "\<forall>q \<in> set (p # ps). pass_wf vpc_of split q" "key_name split (dp_key p) = Some name"
    and run: "exec_pass (registry_of m tap ns h) split p (run_passes m tap ns h split ps s) = (err, bs, rg, s')"
  shows "links (registry_bound (rg, s')) bs
    \<and> (err = None \<longrightarrow> (\<exists>w. wanted (dp_subnet p) (dp_vpc p) name = (Inr w :: registry_error service_error + subnet_binding option) \<and> settled bs name w
         \<and> (\<forall>d. w = Some d \<longrightarrow> hm_view m s' (bpf_key (udp_spec d)) = Some (bpf_val tap (udp_spec d)) \<and> hm_view m s' (bpf_key (tcp_spec d)) = Some (bpf_val tap (tcp_spec d)))))
    \<and> rg_bindings (fst (snd (snd (Service_Stop (registry_of m tap ns h) (bs, rg, s'))))) = []"
proof -
  obtain bs0 st0 where st0: "run_passes m tap ns h split ps s = (bs0, st0)" by (rule prod.exhaust)
  have "registry_good vpc_of m tap ns st0" "links (registry_bound st0) bs0"
    using run_passes_ok[OF fresh_good[OF assms(1,2), where vpc_of = vpc_of and tap = tap and s = s] fresh_links, where ps = ps and split = split and h = h] assms(3) st0
    by (simp_all add: run_passes_def)
  from exec_pass_ok[OF this _ run[unfolded st0]] assms(3)
  have ok: "registry_good vpc_of m tap ns (rg, s')" "links (registry_bound (rg, s')) bs"
    "err = None \<longrightarrow> (\<exists>w. wanted (dp_subnet p) (dp_vpc p) name = (Inr w :: registry_error service_error + subnet_binding option) \<and> settled bs name w)"
    using assms(4) by simp_all
  show ?thesis using ok(2,3) stop_clears[OF ok(1,2)] settled_serves[OF ok(1,2)] by fastforce
qed

section \<open>A concrete run\<close>

text \<open>A network stack that does nothing, and a resolver that moves to another address.\<close>

definition idle_netstack :: "('s, unit) netstack" where
  "idle_netstack = \<lparr>ns_EnsureNIC = (\<lambda>_ _ s. (Inr (), s)), ns_RemoveVIP = (\<lambda>_ _ s. (Inr (), s)), ns_ListenTCP = (\<lambda>_ _ _ s. (Inr (), s)), ns_Close = (\<lambda>_ s. s)\<rparr>"

definition ex_pass :: "string \<Rightarrow> dns_pass" where
  "ex_pass dns = \<lparr>dp_subnet = (\<lambda>n. if n = ''a'' then Inr \<lparr>so_name = ''a'', so_vpc = ''v'', so_dns = dns, so_dnsMAC = ''02:00:00:00:00:02'', so_vni = 5\<rparr> else Inl ObjectNotFound),
     dp_vpc = (\<lambda>n. if n = ''v'' then Inr \<lparr>vo_name = ''v'', vo_vpcID = 7\<rparr> else Inl ObjectNotFound), dp_key = ''a''\<rparr>"

definition ex_passes :: "registry_error service_error option \<times> dns_service \<times> (unit, unit) registry \<times> (virtual_service_key, virtual_service_val) gomap" where
  "ex_passes = exec_pass (registry_of (mem_hash 16) 12 (Some idle_netstack) ()) (\<lambda>k. Some ([], k)) (ex_pass ''10.0.0.3'')
     (run_passes (mem_hash 16) 12 (Some idle_netstack) () (\<lambda>k. Some ([], k)) [ex_pass ''10.0.0.2''] [])"

lemma ex_pass_wf: "pass_wf (\<lambda>_. 7) (\<lambda>k. Some ([], k)) (ex_pass dns)"
  by (auto simp: pass_wf_def ex_pass_def key_name_def split: if_splits)

lemma ex_passes_none: "fst ex_passes = None"
  by code_simp

theorem dns_service_settles_witness:
  "\<exists>d. wanted (dp_subnet (ex_pass ''10.0.0.3'')) (dp_vpc (ex_pass ''10.0.0.3'')) ''a'' = (Inr (Some d) :: registry_error service_error + subnet_binding option)
     \<and> va_ip (sb_addr d) = V4 0x0A000003
     \<and> map_of (snd (snd (snd ex_passes))) (bpf_key (udp_spec d)) = Some (bpf_val 12 (udp_spec d))"
proof -
  obtain bs rg s' where run: "ex_passes = (None, bs, rg, s')" using ex_passes_none by (metis prod.collapse)
  have apart: "\<forall>n. Some idle_netstack = Some n \<longrightarrow> netstack_apart (mem_hash 16) n" by (simp add: netstack_apart_def idle_netstack_def)
  have wf: "\<forall>q \<in> set [ex_pass ''10.0.0.3'', ex_pass ''10.0.0.2'']. pass_wf (\<lambda>_. 7) (\<lambda>k. Some ([], k)) q" using ex_pass_wf by simp
  have key: "key_name (\<lambda>k. Some ([], k)) (dp_key (ex_pass ''10.0.0.3'')) = Some ''a''" by (simp add: key_name_def ex_pass_def)
  obtain w where w: "wanted (dp_subnet (ex_pass ''10.0.0.3'')) (dp_vpc (ex_pass ''10.0.0.3'')) ''a'' = (Inr w :: registry_error service_error + subnet_binding option)"
    "\<forall>d. w = Some d \<longrightarrow> hm_view (mem_hash 16) s' (bpf_key (udp_spec d)) = Some (bpf_val 12 (udp_spec d)) \<and> hm_view (mem_hash 16) s' (bpf_key (tcp_spec d)) = Some (bpf_val 12 (tcp_spec d))"
    using dns_service_settles[OF mem_hash_ok apart wf key run[unfolded ex_passes_def]] by blast
  have "w = Some \<lparr>sb_addr = \<lparr>va_ip = V4 0x0A000003, va_port = 53, va_proto = ProtocolUDP\<rparr>, sb_tcpAddr = \<lparr>va_ip = V4 0x0A000003, va_port = 53, va_proto = ProtocolTCP\<rparr>,
    sb_tenant = \<lparr>tn_vpcID = 7, tn_subnetID = 5\<rparr>, sb_serviceMAC = [2, 0, 0, 0, 0, 2], sb_udpUnregister = None, sb_tcpUnregister = None\<rparr>"
  proof -
    have "wanted (dp_subnet (ex_pass ''10.0.0.3'')) (dp_vpc (ex_pass ''10.0.0.3'')) ''a'' = (Inr (Some \<lparr>sb_addr = \<lparr>va_ip = V4 0x0A000003, va_port = 53, va_proto = ProtocolUDP\<rparr>,
      sb_tcpAddr = \<lparr>va_ip = V4 0x0A000003, va_port = 53, va_proto = ProtocolTCP\<rparr>,
      sb_tenant = \<lparr>tn_vpcID = 7, tn_subnetID = 5\<rparr>, sb_serviceMAC = [2, 0, 0, 0, 0, 2], sb_udpUnregister = None, sb_tcpUnregister = None\<rparr>) :: registry_error service_error + subnet_binding option)"
      by code_simp
    then show ?thesis using w(1) by simp
  qed
  moreover have "snd (snd (snd ex_passes)) = s'" by (simp add: run)
  ultimately show ?thesis using w by (simp add: mem_hash_def)
qed

end
