(* ===== verification/Spec2Isabelle.thy ===== *)
theory Spec2Isabelle
  imports AllocReap PolicyMem ConntrackGC OwnedAddr DnsService
begin

text \<open>
  A verification library of juneau, a network for Kubernetes clusters with virtual private clouds. A
  controller turns the resources users write into allocations and statuses; on every node a daemon turns the
  statuses into maps of an eBPF data plane, which forwards and filters the packets of the Pods; and the daemon
  itself answers the DNS queries of the Pods. The library models the parts below as functions and
  states in the order the sources have them, and proves what the parts promise to each other. Names of
  definitions are those of the sources; file names are relative to \<open>src/\<close>.

  \<^bold>\<open>Common ground.\<close> \<open>Prelude\<close> has the machine integers, Go maps as association lists and calls that return an
  error next to a changed state. \<open>Bytes\<close>, \<open>GoStrings\<close>, \<open>Netip\<close> and \<open>GoNet\<close> model what the sources use of Go's
  standard library, and \<open>GoNet\<close> the package \<open>dataplane/internal/convert\<close>. Errors are values of datatypes, one
  constructor per error path. Calls into third-party code are fields of records over an abstract state: the
  Kubernetes client (\<open>kube\<close>), the eBPF library (\<open>hash_map\<close>, \<open>batch_map\<close>, the rule arrays), the DNS
  message codec (\<open>dnsmessage\<close>), the user-space network stack (\<open>netstack\<close>). What the code relies on is
  stated as predicates on those records (\<open>kube_ok\<close>, \<open>bpf_ok\<close>, \<open>hash_map_ok\<close>, \<open>batch_ok\<close>, \<open>parser_moves\<close>,
  \<open>netstack_apart\<close>), any call may fail, and \<open>AllocMem\<close>, \<open>PolicyMem\<close>, \<open>BpfMap\<close> and the concrete runs at the
  end of the other theories have instances in memory that keep them.

  \<^bold>\<open>Allocation\<close> (\<open>controller/internal/controller\<close>, \<open>controller/internal/addressrange\<close>). \<open>AddressRange\<close> reads
  ranges and prefixes; \<open>PoolRanges\<close> computes the candidate addresses of a pool, the first free one and the
  counts. \<open>AllocTypes\<close>, \<open>AllocClaim\<close> and \<open>AllocLease\<close> are the resources and the passes of the claim, lease
  and pool controllers. \<open>AllocStore\<close> states the invariant of the stored objects; \<open>AllocSafety\<close> proves by a
  small program logic that every pass keeps it, whatever calls fail and whatever users do in between, and
  with it that no two claims hold the same value; \<open>AllocReap\<close> proves when a lease is deleted and looked at
  again.

  \<^bold>\<open>Policy.\<close> \<open>IPProtocol\<close> and \<open>PolicyRules\<close> are the rules users write and their expansion; \<open>Admission\<close> and
  \<open>PolicyAdmission\<close> the webhooks that admit them; \<open>PolicyStores\<close> the writers of the rule tables
  (\<open>dataplane/policy\<close>); \<open>PolicyEval\<close> the evaluators of \<open>daemon/bpf\<close>. \<open>PolicyTable\<close> states the contracts
  between the stores and what they write through as the locales \<open>bumper\<close>, \<open>rule_table\<close> and \<open>policy_store\<close>,
  interpreted on the generation counter, the rotator and both stores. \<open>PolicyEndToEnd\<close> and \<open>GroupEndToEnd\<close>
  prove that an admitted NetworkACL or SecurityGroup, once applied, is what the evaluator enforces on
  every packet, and that a direction that does not fit is denied. \<open>Membership\<close> and \<open>SGMembership\<close> carry the groups of
  an interface into the map the evaluator reads (locale \<open>member_world\<close>).

  \<^bold>\<open>Flows.\<close> \<open>CtState\<close> is the TCP state machine, in C and in Go; \<open>PolicyStage\<close> is \<open>apply_policy\<close> with the
  reading of packets, fragments and the table of admitted flows; \<open>PolicyFlows\<close> is a step relation that
  interleaves packets, changes of rules, new generations and removals, with the invariant that no packet
  passes without an admission of the current generation. \<open>BpfMap\<close> and \<open>MapSweep\<close> are the maps and their
  garbage collection in batches (locale \<open>sweep_planner\<close>); \<open>ConntrackGC\<close> has the collectors and what they leave.
  \<open>OwnedAddr\<close> is the map of external addresses as the union of its claims.

  \<^bold>\<open>Virtual services\<close> (\<open>daemon/internal/daemon/virtservice\<close>). \<open>SvcPolicy\<close> says which Vpc may use which Service.
  \<open>DnsZones\<close> is the resolver chain and its zones, with what a Vpc can learn from them (locale \<open>answering\<close>);
  \<open>DnsHandler\<close> the messages over UDP and TCP and the forwarder. \<open>PacketPlane\<close> is the classifier in the
  data plane, the flow table, the dispatcher and the frame of a response; \<open>VirtRegistry\<close> is the registry
  that programs them, and follows a query from the Pod to the answer in its hands. \<open>DnsService\<close> binds a
  resolver for every Subnet through the interface of the registry (locale \<open>service_registry\<close>, interpreted
  on \<open>VirtRegistry\<close>).

  \<^bold>\<open>Loops and bounds.\<close> Loops over data are structural recursion. Searches that need an argument to end are
  \<open>partial_function\<close>s into \<open>option\<close> whose result is proved to be there (the first free number or address, the
  walks over a DNS message), or \<open>function\<close>s with a measure (the folding of a checksum, a TCP connection,
  the parsing of an IPv6 address). Only the batched reading of a map takes fuel: \<open>snapshot_loop_returns\<close>
  shows that the batches left, times the capacity of the map, plus the room the buffer can still grow by, are enough. Integers keep their width where they can wrap.

  \<^bold>\<open>What the theorems take for granted.\<close> A pass of a controller reads a consistent store and is not
  interleaved with another writer of the same objects; what users do happens between passes. The
  generation counter of the policy is bumped fewer than \<open>2 ^ 32\<close> times. A subnet number belongs to one Vpc while it is
  bound, and one registry call runs at a time. The map of external addresses starts empty. The counters
  the data plane keeps per processor are summed. \<open>strings.ToLower\<close> is modelled on ASCII.

  \<^bold>\<open>Not modelled.\<close> Input and output: sockets, deadlines, tickers, goroutines and their locks, TAP and
  netlink devices, loading of programs, trace events and logging. The reconcilers that copy a status into
  the cluster or a map one entry at a time: the controllers of networks, gateways, peerings, endpoints
  and load balancers, the daemon's reconcilers of routes, ARP, NAT, L2 networks and Service backends. The
  other admission webhooks. The forwarding, encapsulation and address translation of the data plane. The
  BGP speaker, which drives an external routing daemon, the command line plug-in and generated code.
\<close>

end
